(* ===== verification/Eventfd.thy ===== *)
theory Eventfd
  imports Main
begin

text \<open>
  The \<^verbatim>\<open>eventfd\<close> objects the threads wait on, as their counters, and the shutdown protocol both engines use: a flag is
  cleared and a semaphore is raised once, by as much as there are threads; every thread then leaves its loop, either
  because it sees the flag or by taking one unit of the semaphore.
\<close>

section \<open>Counters\<close>

text \<open>A read blocks on zero.  It takes one unit in semaphore mode (\<^verbatim>\<open>EFD_SEMAPHORE\<close>), and everything otherwise.\<close>

definition sem_read :: "nat \<Rightarrow> nat option" where
  "sem_read c = (if c = 0 then None else Some (c - 1))"

definition efd_read :: "nat \<Rightarrow> nat option" where
  "efd_read c = (if c = 0 then None else Some 0)"

definition efd_write :: "nat \<Rightarrow> nat \<Rightarrow> nat" where
  "efd_write v c = c + v"

section \<open>The shutdown protocol\<close>

text \<open>The threads are numbered; a thread waits on the semaphore of its group.\<close>

locale stop_protocol =
  fixes step :: "'s \<Rightarrow> 's \<Rightarrow> bool"
    and live :: "'s \<Rightarrow> nat set"
    and group :: "nat \<Rightarrow> nat"
    and tokens :: "'s \<Rightarrow> nat \<Rightarrow> nat"
    and stopping :: "'s \<Rightarrow> bool"
    and work :: "'s \<Rightarrow> nat"
  assumes finite_live: "finite (live s)"
    and drain_step: "stopping s \<Longrightarrow> step s s' \<Longrightarrow> stopping s' \<and> work s' < work s \<and>
      (live s' \<subseteq> live s \<and> (\<forall>g. tokens s g \<le> tokens s' g) \<or>
       (\<exists>t \<in> live s. live s' = live s - {t} \<and> Suc (tokens s' (group t)) = tokens s (group t) \<and>
          (\<forall>g. g \<noteq> group t \<longrightarrow> tokens s g \<le> tokens s' g)))"
    and progress: "stopping s \<Longrightarrow> t \<in> live s \<Longrightarrow> 0 < tokens s (group t) \<Longrightarrow> \<exists>s'. step s s'"
begin

definition members :: "'s \<Rightarrow> nat \<Rightarrow> nat set" where
  "members s g = {t \<in> live s. group t = g}"

definition draining :: "'s \<Rightarrow> bool" where
  "draining s \<longleftrightarrow> stopping s \<and> (\<forall>g. card (members s g) \<le> tokens s g)"

lemma finite_members: "finite (members s g)"
  using finite_live by (simp add: members_def)

lemma draining_step:
  assumes "draining s" "step s s'"
  shows "draining s'" "work s' < work s"
proof -
  have s: "stopping s" "card (members s g) \<le> tokens s g" for g using assms(1) by (simp_all add: draining_def)
  note law = drain_step [OF s(1) assms(2)]
  show "work s' < work s" using law by blast
  have "card (members s' g) \<le> tokens s' g" for g
    using law
  proof (elim conjE disjE bexE)
    assume le: "live s' \<subseteq> live s" "\<forall>g. tokens s g \<le> tokens s' g"
    then have "members s' g \<subseteq> members s g" by (auto simp: members_def)
    then show ?thesis using card_mono [OF finite_members] s(2) le(2) by (meson order_trans)
  next
    fix t
    assume t: "t \<in> live s" "live s' = live s - {t}" "Suc (tokens s' (group t)) = tokens s (group t)"
      "\<forall>g. g \<noteq> group t \<longrightarrow> tokens s g \<le> tokens s' g"
    show ?thesis
    proof (cases "g = group t")
      case True
      then have "members s' g = members s g - {t}" "t \<in> members s g" using t by (auto simp: members_def)
      then show ?thesis using card_Suc_Diff1 [OF finite_members, of t s g] s(2) [of g] t(3) True by simp
    next
      case False
      then have "members s' g = members s g" using t by (auto simp: members_def)
      then show ?thesis using s(2) [of g] t(4) False by (metis order_trans)
    qed
  qed
  then show "draining s'" using law by (simp add: draining_def)
qed

lemma draining_run:
  assumes "(step ^^ n) s s'" "draining s"
  shows "draining s'" "n + work s' \<le> work s"
  using assms
proof (induction n arbitrary: s')
  case (Suc n)
  {
    case 1
    then obtain m where "(step ^^ n) s m" "step m s'" by auto
    then show ?case using Suc.IH(1) 1(2) draining_step(1) by blast
  next
    case 2
    then obtain m where m: "(step ^^ n) s m" "step m s'" by auto
    then show ?case using Suc.IH(2) [OF m(1) 2(2)] draining_step(2) [OF Suc.IH(1) [OF m(1) 2(2)] m(2)] by simp
  }
qed auto

text \<open>No run is longer than the work left, and a run that cannot go on has ended every thread.\<close>

lemma run_bounded: "draining s \<Longrightarrow> (step ^^ n) s s' \<Longrightarrow> n \<le> work s"
  using draining_run(2) by fastforce

lemma never_stuck:
  assumes "draining s" "step\<^sup>*\<^sup>* s s'" "live s' \<noteq> {}"
  shows "\<exists>s''. step s' s''"
proof -
  obtain n where "(step ^^ n) s s'" using assms(2) by (auto simp: rtranclp_power)
  then have d: "draining s'" using draining_run(1) assms(1) by blast
  obtain t where t: "t \<in> live s'" using assms(3) by blast
  then have "0 < card (members s' (group t))" using finite_members by (auto simp: card_gt_0_iff members_def)
  then show ?thesis using progress [OF _ t] d by (metis draining_def less_le_trans)
qed

lemma run_ends:
  assumes "draining s"
  shows "\<exists>s'. step\<^sup>*\<^sup>* s s' \<and> live s' = {}"
  using assms
proof (induction "work s" arbitrary: s rule: less_induct)
  case less
  show ?case
  proof (cases "live s = {}")
    case False
    then obtain s1 where s1: "step s s1" using never_stuck [OF less.prems rtranclp.rtrancl_refl] by blast
    from less.hyps [OF draining_step(2) [OF less.prems s1] draining_step(1) [OF less.prems s1]]
    show ?thesis using s1 by (meson converse_rtranclp_into_rtranclp)
  qed auto
qed

end

end
