(* ===== verification/Prelude.thy ===== *)
theory Prelude
  imports Main "HOL-Library.Word"
begin

text \<open>
  Shared vocabulary of the development.  It fixes the machine integers of the C++ sources
  (\<^verbatim>\<open>uint8_t\<close>, \<^verbatim>\<open>uint16_t\<close>, \<^verbatim>\<open>uint32_t\<close>, \<^verbatim>\<open>uint64_t\<close> as words), the bytes of a frame as a
  list, and how the packed structs of \<^verbatim>\<open>Headers_util.hpp\<close> are read and written through a
  pointer.  The target (Cortex-A72, \<^verbatim>\<open>CMakeLists.txt\<close>) is little-endian: a 16- or 32-bit field
  is loaded low byte first, and \<^verbatim>\<open>ntohs\<close>, \<^verbatim>\<open>htons\<close>, \<^verbatim>\<open>ntohl\<close>, \<^verbatim>\<open>htonl\<close> reverse the bytes.
  The collection \<open>mem_simps\<close> carries the laws of loads after stores, the collection
  \<open>frame_simps\<close> what the operations of a component leave alone.
\<close>

unbundle bit_operations_syntax

named_theorems mem_simps "loads after stores into a byte buffer"
named_theorems frame_simps "state components an operation does not change"

type_synonym u8 = "8 word"
type_synonym u16 = "16 word"
type_synonym u32 = "32 word"
type_synonym u64 = "64 word"
type_synonym bytes = "u8 list"

section \<open>Composing and splitting words\<close>

definition mk16 :: "u8 \<Rightarrow> u8 \<Rightarrow> u16" where
  "mk16 h l = push_bit 8 (ucast h) OR ucast l"

definition lo8 :: "u16 \<Rightarrow> u8" where
  "lo8 x = ucast x"

definition hi8 :: "u16 \<Rightarrow> u8" where
  "hi8 x = ucast (drop_bit 8 x)"

definition mk32 :: "u16 \<Rightarrow> u16 \<Rightarrow> u32" where
  "mk32 h l = push_bit 16 (ucast h) OR ucast l"

definition lo16 :: "u32 \<Rightarrow> u16" where
  "lo16 x = ucast x"

definition hi16 :: "u32 \<Rightarrow> u16" where
  "hi16 x = ucast (drop_bit 16 x)"

text \<open>The byte-order functions of \<^verbatim>\<open>arpa/inet.h\<close> on a little-endian host.\<close>

definition ntohs :: "u16 \<Rightarrow> u16" where
  "ntohs x = mk16 (lo8 x) (hi8 x)"

definition ntohl :: "u32 \<Rightarrow> u32" where
  "ntohl x = mk32 (ntohs (lo16 x)) (ntohs (hi16 x))"

abbreviation (input) htons :: "u16 \<Rightarrow> u16" where
  "htons \<equiv> ntohs"

abbreviation (input) htonl :: "u32 \<Rightarrow> u32" where
  "htonl \<equiv> ntohl"

section \<open>Reading and writing a byte buffer through a pointer\<close>

definition ld16 :: "bytes \<Rightarrow> nat \<Rightarrow> u16" where
  "ld16 xs i = mk16 (xs ! Suc i) (xs ! i)"

definition ld32 :: "bytes \<Rightarrow> nat \<Rightarrow> u32" where
  "ld32 xs i = mk32 (ld16 xs (i + 2)) (ld16 xs i)"

definition st8 :: "bytes \<Rightarrow> nat \<Rightarrow> u8 \<Rightarrow> bytes" where
  "st8 xs i v = xs[i := v]"

definition st16 :: "bytes \<Rightarrow> nat \<Rightarrow> u16 \<Rightarrow> bytes" where
  "st16 xs i v = xs[i := lo8 v, Suc i := hi8 v]"

definition st32 :: "bytes \<Rightarrow> nat \<Rightarrow> u32 \<Rightarrow> bytes" where
  "st32 xs i v = st16 (st16 xs i (lo16 v)) (i + 2) (hi16 v)"

text \<open>\<^verbatim>\<open>memcpy(dst + i, src, src.size())\<close>, the destination large enough.\<close>

fun memcpy :: "bytes \<Rightarrow> nat \<Rightarrow> bytes \<Rightarrow> bytes" where
  "memcpy xs i [] = xs"
| "memcpy xs i (b # bs) = memcpy (xs[i := b]) (Suc i) bs"

text \<open>The bytes of an object in memory order.\<close>

definition bytes16 :: "u16 \<Rightarrow> bytes" where
  "bytes16 v = [lo8 v, hi8 v]"

definition bytes32 :: "u32 \<Rightarrow> bytes" where
  "bytes32 v = bytes16 (lo16 v) @ bytes16 (hi16 v)"

section \<open>Laws of the word operations\<close>

lemma not_bit_u8 [simp]: "8 \<le> n \<Longrightarrow> \<not> bit (x :: u8) n"
  using bit_imp_le_length [of x n] by auto

lemma not_bit_u16 [simp]: "16 \<le> n \<Longrightarrow> \<not> bit (x :: u16) n"
  using bit_imp_le_length [of x n] by auto

lemma lo8_mk16 [simp]: "lo8 (mk16 h l) = l"
  by (rule bit_word_eqI) (auto simp: lo8_def mk16_def bit_simps)

lemma hi8_mk16 [simp]: "hi8 (mk16 h l) = h"
  by (rule bit_word_eqI) (auto simp: hi8_def mk16_def bit_simps)

lemma mk16_hi8_lo8 [simp]: "mk16 (hi8 x) (lo8 x) = x"
proof (rule bit_word_eqI)
  fix n assume n: "n < LENGTH(16)"
  show "bit (mk16 (hi8 x) (lo8 x)) n = bit x n"
    by (cases "n < 8") (use n in \<open>auto simp: lo8_def hi8_def mk16_def bit_simps not_less\<close>)
qed

lemma lo16_mk32 [simp]: "lo16 (mk32 h l) = l"
  by (rule bit_word_eqI) (auto simp: lo16_def mk32_def bit_simps)

lemma hi16_mk32 [simp]: "hi16 (mk32 h l) = h"
  by (rule bit_word_eqI) (auto simp: hi16_def mk32_def bit_simps)

lemma mk32_hi16_lo16 [simp]: "mk32 (hi16 x) (lo16 x) = x"
proof (rule bit_word_eqI)
  fix n assume n: "n < LENGTH(32)"
  show "bit (mk32 (hi16 x) (lo16 x)) n = bit x n"
    by (cases "n < 16") (use n in \<open>auto simp: lo16_def hi16_def mk32_def bit_simps not_less\<close>)
qed

lemma mk16_inject [simp]: "mk16 a b = mk16 c d \<longleftrightarrow> a = c \<and> b = d"
  by (metis hi8_mk16 lo8_mk16)

lemma mk32_inject [simp]: "mk32 a b = mk32 c d \<longleftrightarrow> a = c \<and> b = d"
  by (metis hi16_mk32 lo16_mk32)

lemma unat_u8_less [simp]: "unat (x :: u8) < 256"
  using unsigned_less [of x] by simp

lemma unat_u16_less [simp]: "unat (x :: u16) < 65536"
  using unsigned_less [of x] by simp

lemma unat_u32_less [simp]: "unat (x :: u32) < 4294967296"
  using unsigned_less [of x] by simp

lemma unat_mk16: "unat (mk16 h l) = 256 * unat h + unat l"
proof -
  have "mk16 h l = push_bit 8 (ucast h) + ucast l"
    unfolding mk16_def
    by (rule disjunctive_add_eq_or [symmetric]) (rule bit_word_eqI, auto simp: bit_simps)
  then have "mk16 h l = of_nat (256 * unat h + unat l)"
    by (simp add: push_bit_eq_mult)
  then have "unat (mk16 h l) = (256 * unat h + unat l) mod 2 ^ 16"
    by (simp only: unat_of_nat take_bit_eq_mod) simp
  moreover have "256 * unat h + unat l < 2 ^ 16"
    using unat_u8_less [of h] unat_u8_less [of l] by (simp del: unat_u8_less)
  ultimately show ?thesis
    by (simp only: mod_less)
qed

lemma unat_mk32: "unat (mk32 h l) = 65536 * unat h + unat l"
proof -
  have "mk32 h l = push_bit 16 (ucast h) + ucast l"
    unfolding mk32_def
    by (rule disjunctive_add_eq_or [symmetric]) (rule bit_word_eqI, auto simp: bit_simps)
  then have "mk32 h l = of_nat (65536 * unat h + unat l)"
    by (simp add: push_bit_eq_mult)
  then have "unat (mk32 h l) = (65536 * unat h + unat l) mod 2 ^ 32"
    by (simp only: unat_of_nat take_bit_eq_mod) simp
  moreover have "65536 * unat h + unat l < 2 ^ 32"
    using unat_u16_less [of h] unat_u16_less [of l] by (simp del: unat_u16_less)
  ultimately show ?thesis
    by (simp only: mod_less)
qed

lemma ntohs_ntohs [simp]: "ntohs (ntohs x) = x"
  by (simp add: ntohs_def)

lemma ntohl_ntohl [simp]: "ntohl (ntohl x) = x"
  by (simp add: ntohl_def)

lemma ntohs_eq_iff [simp]: "ntohs x = ntohs y \<longleftrightarrow> x = y"
  by (metis ntohs_ntohs)

lemma ntohl_eq_iff [simp]: "ntohl x = ntohl y \<longleftrightarrow> x = y"
  by (metis ntohl_ntohl)

lemma ntohs_0 [simp]: "ntohs 0 = 0"
  by (simp add: ntohs_def mk16_def lo8_def hi8_def)

lemma ntohl_0 [simp]: "ntohl 0 = 0"
  by (simp add: ntohl_def mk32_def lo16_def hi16_def)

lemma ntohs_eq_0_iff [simp]: "ntohs x = 0 \<longleftrightarrow> x = 0"
  using ntohs_eq_iff [of x 0] by simp

lemma ntohl_eq_0_iff [simp]: "ntohl x = 0 \<longleftrightarrow> x = 0"
  using ntohl_eq_iff [of x 0] by simp

text \<open>The shift-and-or spelling of a 16-bit byte swap, as the sources write it by hand.\<close>

lemma swap_low: "n < 8 \<Longrightarrow> bit (push_bit 8 x OR drop_bit 8 (x :: u16)) n = bit (ntohs x) n"
  by (simp add: ntohs_def mk16_def lo8_def hi8_def bit_simps)

lemma swap_high:
  "k < 8 \<Longrightarrow> bit (push_bit 8 x OR drop_bit 8 (x :: u16)) (8 + k) = bit (ntohs x) (8 + k)"
  by (simp add: ntohs_def mk16_def lo8_def hi8_def bit_simps)

lemma shift_swap_is_ntohs: "push_bit 8 x OR drop_bit 8 x = ntohs (x :: u16)"
proof (rule bit_word_eqI)
  fix n assume n: "n < LENGTH(16)"
  show "bit (push_bit 8 x OR drop_bit 8 x) n = bit (ntohs x) n"
  proof (cases "n < 8")
    case True
    then show ?thesis by (rule swap_low)
  next
    case False
    then have "n = 8 + (n - 8)" "n - 8 < 8" using n by simp_all
    then show ?thesis using swap_high by metis
  qed
qed

lemmas word_eval = ntohs_def ntohl_def mk16_def mk32_def lo8_def hi8_def lo16_def hi16_def

lemma nat_mod_eq_iff_dvd: "(a :: nat) mod m = b mod m \<longleftrightarrow> int m dvd int a - int b"
  by (metis mod_eq_dvd_iff of_nat_eq_iff zmod_int)

section \<open>Laws of loads and stores\<close>

text \<open>Field offsets stay in the form \<open>base + n\<close>.\<close>

declare add_2_eq_Suc [simp del] add_2_eq_Suc' [simp del]

lemma length_st8 [simp]: "length (st8 xs i v) = length xs"
  by (simp add: st8_def)

lemma length_st16 [simp]: "length (st16 xs i v) = length xs"
  by (simp add: st16_def)

lemma length_st32 [simp]: "length (st32 xs i v) = length xs"
  by (simp add: st32_def)

lemma length_memcpy [simp]: "length (memcpy xs i bs) = length xs"
  by (induction xs i bs rule: memcpy.induct) auto

lemma nth_st8 [mem_simps]: "j \<noteq> i \<Longrightarrow> st8 xs i v ! j = xs ! j"
  by (simp add: st8_def)

lemma nth_st16 [mem_simps]: "j < i \<or> Suc i < j \<Longrightarrow> st16 xs i v ! j = xs ! j"
  by (auto simp: st16_def)

lemma nth_st32 [mem_simps]: "j < i \<or> i + 3 < j \<Longrightarrow> st32 xs i v ! j = xs ! j"
  by (auto simp: st32_def nth_st16)

lemma nth_memcpy:
  "i + length bs \<le> length xs \<Longrightarrow>
     memcpy xs i bs ! j = (if i \<le> j \<and> j < i + length bs then bs ! (j - i) else xs ! j)"
proof (induction xs i bs rule: memcpy.induct)
  case (2 xs i b bs)
  consider "j < i" | "j = i" | k where "j = Suc (i + k)"
    using less_imp_Suc_add by (metis linorder_neqE_nat)
  then show ?case
    using 2 by cases auto
qed auto

lemma nth_memcpy_other [mem_simps]:
  "j < i \<or> i + length bs \<le> j \<Longrightarrow> memcpy xs i bs ! j = xs ! j"
  by (induction xs i bs rule: memcpy.induct) auto

lemma nth_st8_same [mem_simps]: "i < length xs \<Longrightarrow> st8 xs i v ! i = v"
  by (simp add: st8_def)

lemma ld16_st16_same [mem_simps]: "i + 1 < length xs \<Longrightarrow> ld16 (st16 xs i v) i = v"
  by (simp add: ld16_def st16_def)

lemma ld32_st32_same [mem_simps]: "i + 3 < length xs \<Longrightarrow> ld32 (st32 xs i v) i = v"
  by (simp add: ld32_def st32_def ld16_def st16_def)

lemma ld16_st8 [mem_simps]: "j + 1 < i \<or> i < j \<Longrightarrow> ld16 (st8 xs i v) j = ld16 xs j"
  by (auto simp: ld16_def st8_def)

lemma ld16_st16 [mem_simps]: "j + 1 < i \<or> i + 1 < j \<Longrightarrow> ld16 (st16 xs i v) j = ld16 xs j"
  by (auto simp: ld16_def nth_st16)

lemma ld16_st32 [mem_simps]: "j + 1 < i \<or> i + 3 < j \<Longrightarrow> ld16 (st32 xs i v) j = ld16 xs j"
  by (auto simp: st32_def ld16_st16)

lemma ld32_st8 [mem_simps]: "j + 3 < i \<or> i < j \<Longrightarrow> ld32 (st8 xs i v) j = ld32 xs j"
  by (auto simp: ld32_def ld16_st8)

lemma ld32_st16 [mem_simps]: "j + 3 < i \<or> i + 1 < j \<Longrightarrow> ld32 (st16 xs i v) j = ld32 xs j"
  by (auto simp: ld32_def ld16_st16)

lemma ld32_st32 [mem_simps]: "j + 3 < i \<or> i + 3 < j \<Longrightarrow> ld32 (st32 xs i v) j = ld32 xs j"
  by (auto simp: ld32_def ld16_st32)

lemma ld16_memcpy [mem_simps]:
  "j + 1 < i \<or> i + length bs \<le> j \<Longrightarrow> ld16 (memcpy xs i bs) j = ld16 xs j"
  by (auto simp: ld16_def nth_memcpy_other)

lemma ld32_memcpy [mem_simps]:
  "j + 3 < i \<or> i + length bs \<le> j \<Longrightarrow> ld32 (memcpy xs i bs) j = ld32 xs j"
  by (auto simp: ld32_def ld16_memcpy)

lemma unat_ntohs_ld16: "unat (ntohs (ld16 xs i)) = 256 * unat (xs ! i) + unat (xs ! Suc i)"
  by (simp add: ntohs_def ld16_def unat_mk16)

lemma st16_idem: "st16 (st16 xs i v) i w = st16 xs i w"
  by (simp add: st16_def list_update_swap)

lemma st16_ld16: "i + 1 < length xs \<Longrightarrow> st16 xs i (ld16 xs i) = xs"
  by (simp add: st16_def ld16_def)

section \<open>Lists\<close>

lemma takeWhile_neq: "x \<notin> set xs \<Longrightarrow> takeWhile (\<lambda>c. c \<noteq> x) (xs @ x # ys) = xs"
  by (induction xs) auto

section \<open>Searching an index range\<close>

lemma find_upt_Some: "find P [0..<n] = Some i \<longleftrightarrow> i < n \<and> P i \<and> (\<forall>j < i. \<not> P j)"
  by (auto simp: find_Some_iff)

lemma find_upt_None: "find P [0..<n] = None \<longleftrightarrow> (\<forall>i < n. \<not> P i)"
  by (auto simp: find_None_iff)

end
