(* ===== verification/Ring_Buffers.thy ===== *)
theory Ring_Buffers
  imports Prelude
begin

text \<open>
  The two ring buffers: \<^verbatim>\<open>SpscRingBuffer\<close> of \<^verbatim>\<open>Headers_util.hpp\<close> (the frame queue between the
  receive and the processing thread, and the DHCP request queue) and \<^verbatim>\<open>ZeroAllocRingBuffer\<close> of
  \<^verbatim>\<open>Scheduler_util.hpp\<close> (the queue of the shaper).  Both implement one contract, the locale
  \<open>bounded_fifo\<close>: a bounded first-in-first-out queue over an abstract list.  The laws of the
  queue are proved once in the locale and reach both rings by interpretation.  The last section
  interleaves the loads and stores of a producer and a consumer of the lock-free ring.
\<close>

section \<open>The lock-free single-producer single-consumer ring\<close>

text \<open>\<open>nat\<close>-indexed arrays are functions; every index the code uses is reduced modulo the
  capacity, which the invariants below record.\<close>

record 'a SpscRingBuffer =
  buffer :: "nat \<Rightarrow> 'a"
  head :: nat
  tail :: nat

definition spsc_empty :: "'a \<Rightarrow> 'a SpscRingBuffer" where
  "spsc_empty x = \<lparr>buffer = (\<lambda>_. x), head = 0, tail = 0\<rparr>"

definition spsc_push :: "nat \<Rightarrow> 'a SpscRingBuffer \<Rightarrow> 'a \<Rightarrow> bool \<times> 'a SpscRingBuffer" where
  "spsc_push Capacity q item =
     (let current_tail = tail q;
          next_tail = (current_tail + 1) mod Capacity
      in if next_tail = head q then (False, q)
         else (True, q\<lparr>buffer := (buffer q)(current_tail := item), tail := next_tail\<rparr>))"

definition spsc_pop :: "nat \<Rightarrow> 'a SpscRingBuffer \<Rightarrow> 'a option \<times> 'a SpscRingBuffer" where
  "spsc_pop Capacity q =
     (let current_head = head q
      in if current_head = tail q then (None, q)
         else (Some (buffer q current_head), q\<lparr>head := (current_head + 1) mod Capacity\<rparr>))"

section \<open>The allocation-free packet ring\<close>

record PacketSlot =
  slot_size :: u16
  payload :: bytes

record ZeroAllocRingBuffer =
  pool :: "nat \<Rightarrow> PacketSlot"
  zhead :: nat
  ztail :: nat
  zcount :: nat

definition zrb_empty :: ZeroAllocRingBuffer where
  "zrb_empty =
     \<lparr>pool = (\<lambda>_. \<lparr>slot_size = 0, payload = replicate 2048 0\<rparr>), zhead = 0, ztail = 0, zcount = 0\<rparr>"

definition zrb_push :: "nat \<Rightarrow> ZeroAllocRingBuffer \<Rightarrow> bytes \<Rightarrow> bool \<times> ZeroAllocRingBuffer" where
  "zrb_push Capacity q pkt =
     (if zcount q = Capacity \<or> length pkt > 2048 then (False, q)
      else
        let slot = pool q (ztail q);
            slot = slot\<lparr>slot_size := of_nat (length pkt), payload := memcpy (payload slot) 0 pkt\<rparr>
        in (True, q\<lparr>pool := (pool q)(ztail q := slot), ztail := (ztail q + 1) mod Capacity,
                    zcount := zcount q + 1\<rparr>))"

definition slot_bytes :: "PacketSlot \<Rightarrow> bytes" where
  "slot_bytes slot = take (unat (slot_size slot)) (payload slot)"

definition zrb_front :: "ZeroAllocRingBuffer \<Rightarrow> bytes" where
  "zrb_front q = (if zcount q = 0 then [] else slot_bytes (pool q (zhead q)))"

definition zrb_pop :: "nat \<Rightarrow> ZeroAllocRingBuffer \<Rightarrow> ZeroAllocRingBuffer" where
  "zrb_pop Capacity q =
     (if zcount q > 0 then q\<lparr>zhead := (zhead q + 1) mod Capacity, zcount := zcount q - 1\<rparr> else q)"

definition zrb_is_empty :: "ZeroAllocRingBuffer \<Rightarrow> bool" where
  "zrb_is_empty q \<longleftrightarrow> zcount q = 0"

section \<open>Circular segments as lists\<close>

definition ring_list :: "(nat \<Rightarrow> 'a) \<Rightarrow> nat \<Rightarrow> nat \<Rightarrow> nat \<Rightarrow> 'a list" where
  "ring_list buf N h c = map (\<lambda>k. buf ((h + k) mod N)) [0..<c]"

lemma length_ring_list [simp]: "length (ring_list buf N h c) = c"
  by (simp add: ring_list_def)

lemma ring_list_0 [simp]: "ring_list buf N h 0 = []"
  by (simp add: ring_list_def)

lemma ring_list_eq_Nil_iff [simp]: "ring_list buf N h c = [] \<longleftrightarrow> c = 0"
  by (metis length_0_conv length_ring_list)

lemma mod_offset_neq:
  assumes "k < c" "c < (N :: nat)"
  shows "(h + k) mod N \<noteq> (h + c) mod N"
proof
  assume "(h + k) mod N = (h + c) mod N"
  then have "N dvd c - k"
    using assms(1) mod_eq_dvd_iff_nat [of "h + k" "h + c" N] by simp
  then show False
    using assms by (auto dest: dvd_imp_le)
qed

lemma ring_list_snoc:
  assumes "c < N"
  shows "ring_list (buf((h + c) mod N := x)) N h (Suc c) = ring_list buf N h c @ [x]"
  using assms by (auto simp: ring_list_def mod_offset_neq)

lemma ring_list_fresh:
  assumes "c < N"
  shows "ring_list (buf((h + c) mod N := x)) N h c = ring_list buf N h c"
  using assms by (auto simp: ring_list_def mod_offset_neq)

lemma ring_list_Cons:
  "h < N \<Longrightarrow> ring_list buf N h (Suc c) = buf h # ring_list buf N ((h + 1) mod N) c"
proof -
  assume "h < N"
  have "ring_list buf N h (Suc c) = buf (h mod N) # map (\<lambda>k. buf ((h + Suc k) mod N)) [0..<c]"
    by (simp add: ring_list_def upt_conv_Cons map_Suc_upt [symmetric] del: upt_Suc)
  moreover have "(h + Suc k) mod N = ((h + 1) mod N + k) mod N" for k
    by (simp add: mod_add_left_eq)
  ultimately show ?thesis
    using \<open>h < N\<close> by (simp add: ring_list_def)
qed

lemma ring_list_tl:
  "h < N \<Longrightarrow> 0 < c \<Longrightarrow> ring_list buf N ((h + 1) mod N) (c - 1) = tl (ring_list buf N h c)"
  by (cases c) (simp_all add: ring_list_Cons)

lemma hd_ring_list: "h < N \<Longrightarrow> 0 < c \<Longrightarrow> hd (ring_list buf N h c) = buf h"
  by (cases c) (simp_all add: ring_list_Cons)

section \<open>The contract of a bounded queue\<close>

locale bounded_fifo =
  fixes cap :: nat
    and fits :: "'a \<Rightarrow> bool"
    and invar :: "'q \<Rightarrow> bool"
    and items :: "'q \<Rightarrow> 'a list"
    and push :: "'q \<Rightarrow> 'a \<Rightarrow> bool \<times> 'q"
    and front :: "'q \<Rightarrow> 'a option"
    and pop :: "'q \<Rightarrow> 'q"
  assumes push_accepts: "invar q \<Longrightarrow> fst (push q x) \<longleftrightarrow> fits x \<and> length (items q) < cap"
    and push_items: "invar q \<Longrightarrow> items (snd (push q x)) = items q @ (if fst (push q x) then [x] else [])"
    and front_items: "invar q \<Longrightarrow> front q = (case items q of [] \<Rightarrow> None | x # _ \<Rightarrow> Some x)"
    and pop_items: "invar q \<Longrightarrow> items (pop q) = tl (items q)"
    and invar_push: "invar q \<Longrightarrow> invar (snd (push q x))"
    and invar_pop: "invar q \<Longrightarrow> invar (pop q)"
    and items_bounded: "invar q \<Longrightarrow> length (items q) \<le> cap"

text \<open>A run of queue operations, with the elements it accepted and the elements it delivered.\<close>

datatype 'a fifo_op = Push 'a | Pop

fun fifo_run ::
  "('q \<Rightarrow> 'a \<Rightarrow> bool \<times> 'q) \<Rightarrow> ('q \<Rightarrow> 'a option) \<Rightarrow> ('q \<Rightarrow> 'q) \<Rightarrow> 'q \<Rightarrow> 'a fifo_op list
     \<Rightarrow> 'q \<times> 'a list \<times> 'a list" where
  "fifo_run push front pop q [] = (q, [], [])"
| "fifo_run push front pop q (Push x # ops) =
     (let (ok, q1) = push q x; (q2, acc, del) = fifo_run push front pop q1 ops
      in (q2, (if ok then [x] else []) @ acc, del))"
| "fifo_run push front pop q (Pop # ops) =
     (let (q2, acc, del) = fifo_run push front pop (pop q) ops
      in (q2, acc, (case front q of None \<Rightarrow> [] | Some x \<Rightarrow> [x]) @ del))"

context bounded_fifo
begin

lemma front_then_pop:
  "invar q \<Longrightarrow> items q = (case front q of None \<Rightarrow> [] | Some x \<Rightarrow> [x]) @ items (pop q)"
  by (simp add: front_items pop_items split: list.splits)

lemma run_conserves:
  "invar q \<Longrightarrow> fifo_run push front pop q ops = (q', acc, del) \<Longrightarrow>
     invar q' \<and> items q @ acc = del @ items q'"
proof (induction ops arbitrary: q q' acc del)
  case (Cons op ops)
  show ?case
  proof (cases op)
    case (Push x)
    obtain q2 acc2 del2 where run: "fifo_run push front pop (snd (push q x)) ops = (q2, acc2, del2)"
      by (metis prod_cases3)
    from Cons.IH [OF invar_push [OF Cons.prems(1)] run] Cons.prems run Push
    show ?thesis
      by (auto simp: push_items split: prod.splits if_splits)
  next
    case Pop
    obtain q2 acc2 del2 where run: "fifo_run push front pop (pop q) ops = (q2, acc2, del2)"
      by (metis prod_cases3)
    from Cons.IH [OF invar_pop [OF Cons.prems(1)] run] Cons.prems run Pop
    show ?thesis
      by (auto simp: front_then_pop [of q] split: prod.splits)
  qed
qed simp

lemma run_from_empty:
  assumes "invar q" "items q = []" "fifo_run push front pop q ops = (q', acc, del)"
  shows "acc = del @ items q'" "length (items q') \<le> cap"
  using run_conserves [OF assms(1,3)] assms(2) items_bounded by auto

end

section \<open>The lock-free ring is a bounded queue\<close>

definition spsc_count :: "nat \<Rightarrow> 'a SpscRingBuffer \<Rightarrow> nat" where
  "spsc_count N q = (tail q + N - head q) mod N"

definition spsc_items :: "nat \<Rightarrow> 'a SpscRingBuffer \<Rightarrow> 'a list" where
  "spsc_items N q = ring_list (buffer q) N (head q) (spsc_count N q)"

definition spsc_inv :: "nat \<Rightarrow> 'a SpscRingBuffer \<Rightarrow> bool" where
  "spsc_inv N q \<longleftrightarrow> head q < N \<and> tail q < N"

definition spsc_front :: "'a SpscRingBuffer \<Rightarrow> 'a option" where
  "spsc_front q = (if head q = tail q then None else Some (buffer q (head q)))"

lemma spsc_pop_front: "fst (spsc_pop N q) = spsc_front q"
  by (simp add: spsc_pop_def spsc_front_def Let_def)

lemma spsc_count_eqI:
  assumes "h < N" "c < N" "t = (h + c) mod (N :: nat)"
  shows "(t + N - h) mod N = c"
proof (cases "h + c < N")
  case True
  then show ?thesis using assms by (simp add: add.commute [of c N] flip: add.assoc)
next
  case False
  then have "t = h + c - N"
    using assms by (simp add: mod_if [of "h + c" N] le_mod_geq)
  then show ?thesis using assms False by simp
qed

lemma spsc_tail_eq:
  assumes "spsc_inv N q"
  shows "tail q = (head q + spsc_count N q) mod N"
proof -
  have "(head q + (tail q + N - head q) mod N) mod N = (tail q + N) mod N"
    using assms by (simp add: mod_add_right_eq spsc_inv_def)
  then show ?thesis
    using assms by (simp add: spsc_count_def spsc_inv_def)
qed

lemma spsc_count_less: "spsc_inv N q \<Longrightarrow> spsc_count N q < N"
  by (auto simp: spsc_inv_def spsc_count_def)

lemma spsc_count_0_iff: "spsc_inv N q \<Longrightarrow> spsc_count N q = 0 \<longleftrightarrow> head q = tail q"
  using spsc_tail_eq [of N q] spsc_count_eqI [of "head q" N 0 "tail q"]
  by (auto simp: spsc_inv_def spsc_count_def)

text \<open>The ring is full, in the sense of \<^verbatim>\<open>push\<close>, exactly when it holds \<open>N - 1\<close> elements.\<close>

lemma spsc_full_iff:
  assumes "spsc_inv N q"
  shows "(tail q + 1) mod N = head q \<longleftrightarrow> Suc (spsc_count N q) = N"
proof -
  let ?c = "spsc_count N q"
  have t: "(tail q + 1) mod N = (head q + Suc ?c) mod N"
    using spsc_tail_eq [OF assms] by (metis add_Suc_right mod_Suc_eq Suc_eq_plus1)
  have h: "head q = head q mod N" using assms by (simp add: spsc_inv_def)
  show ?thesis
  proof
    assume "Suc ?c = N"
    then show "(tail q + 1) mod N = head q" using t h by simp
  next
    assume full: "(tail q + 1) mod N = head q"
    show "Suc ?c = N"
    proof (rule ccontr)
      assume "Suc ?c \<noteq> N"
      then have "Suc ?c < N" using spsc_count_less [OF assms] by simp
      then show False
        using mod_offset_neq [of 0 "Suc ?c" N "head q"] t h full by simp
    qed
  qed
qed

lemma spsc_push_items:
  assumes "spsc_inv N q"
  shows "spsc_items N (snd (spsc_push N q x)) = spsc_items N q @ (if fst (spsc_push N q x) then [x] else [])"
proof (cases "(tail q + 1) mod N = head q")
  case True
  then show ?thesis by (simp add: spsc_push_def Let_def)
next
  case False
  let ?c = "spsc_count N q" and ?q' = "snd (spsc_push N q x)"
  have c: "Suc ?c < N"
    using False spsc_full_iff [OF assms] spsc_count_less [OF assms] by simp
  have t: "tail ?q' = (head q + Suc ?c) mod N" and h: "head ?q' = head q"
    using False spsc_tail_eq [OF assms] by (simp_all add: spsc_push_def Let_def mod_Suc_eq)
  have "spsc_count N ?q' = Suc ?c"
    using spsc_count_eqI [OF _ c t] assms h by (simp add: spsc_count_def spsc_inv_def)
  then show ?thesis
    using False c spsc_tail_eq [OF assms] ring_list_snoc [of ?c N "buffer q" "head q" x]
    by (simp add: spsc_items_def h) (simp add: spsc_push_def Let_def)
qed

lemma spsc_pop_items:
  assumes "spsc_inv N q"
  shows "spsc_items N (snd (spsc_pop N q)) = tl (spsc_items N q)"
proof (cases "head q = tail q")
  case True
  then have "spsc_count N q = 0" using spsc_count_0_iff [OF assms] by simp
  then show ?thesis using True by (simp add: spsc_pop_def spsc_items_def)
next
  case False
  let ?c = "spsc_count N q" and ?h = "(head q + 1) mod N"
  have c: "0 < ?c" "?c < N"
    using False spsc_count_0_iff [OF assms] spsc_count_less [OF assms] by auto
  have "?h < N" and "?c - 1 < N" using c by simp_all
  moreover have "tail q = (?h + (?c - 1)) mod N"
  proof -
    have "(?h + (?c - 1)) mod N = (head q + 1 + (?c - 1)) mod N"
      by (rule mod_add_left_eq)
    then show ?thesis using spsc_tail_eq [OF assms] c by simp
  qed
  ultimately have "(tail q + N - ?h) mod N = ?c - 1"
    by (rule spsc_count_eqI)
  then show ?thesis
    using False c assms ring_list_tl [of "head q" N ?c "buffer q"]
    by (simp add: spsc_pop_def Let_def spsc_items_def spsc_count_def spsc_inv_def)
qed

locale spsc_ring =
  fixes N :: nat
  assumes capacity_pos: "0 < N"

sublocale spsc_ring \<subseteq> fifo: bounded_fifo "N - 1" "\<lambda>_. True" "spsc_inv N" "spsc_items N"
  "spsc_push N" spsc_front "\<lambda>q. snd (spsc_pop N q)"
proof (unfold_locales, goal_cases)
  case (1 q x)
  then show ?case
    using spsc_full_iff [OF 1] spsc_count_less [OF 1]
    by (auto simp: spsc_push_def Let_def spsc_items_def)
next
  case (2 q x)
  then show ?case by (rule spsc_push_items)
next
  case (3 q)
  then show ?case
    using spsc_count_0_iff [OF 3] ring_list_Cons [of "head q" N "buffer q" "spsc_count N q - 1"]
    by (auto simp: spsc_front_def spsc_items_def spsc_inv_def split: list.splits)
next
  case (4 q)
  then show ?case by (rule spsc_pop_items)
next
  case (5 q x)
  then show ?case using capacity_pos by (auto simp: spsc_inv_def spsc_push_def Let_def)
next
  case (6 q)
  then show ?case using capacity_pos by (auto simp: spsc_inv_def spsc_pop_def Let_def)
next
  case (7 q)
  then show ?case using spsc_count_less [OF 7] by (simp add: spsc_items_def)
qed

text \<open>The queues of the program: 512 DHCP messages, 1024 frames.\<close>

interpretation dhcp_q: spsc_ring 512
  by unfold_locales simp

interpretation frame_q: spsc_ring 1024
  by unfold_locales simp

section \<open>The packet ring is a bounded queue\<close>

definition zrb_inv :: "nat \<Rightarrow> ZeroAllocRingBuffer \<Rightarrow> bool" where
  "zrb_inv N q \<longleftrightarrow>
     zhead q < N \<and> zcount q \<le> N \<and> ztail q = (zhead q + zcount q) mod N \<and>
     (\<forall>i. length (payload (pool q i)) = 2048)"

definition zrb_items :: "nat \<Rightarrow> ZeroAllocRingBuffer \<Rightarrow> bytes list" where
  "zrb_items N q = ring_list (slot_bytes \<circ> pool q) N (zhead q) (zcount q)"

definition zrb_first :: "ZeroAllocRingBuffer \<Rightarrow> bytes option" where
  "zrb_first q = (if zrb_is_empty q then None else Some (zrb_front q))"

lemma take_memcpy: "length bs \<le> length xs \<Longrightarrow> take (length bs) (memcpy xs 0 bs) = bs"
  by (rule nth_equalityI) (simp_all add: nth_memcpy)

lemma slot_bytes_written:
  assumes "length (payload slot) = 2048" "length pkt \<le> 2048"
  shows "slot_bytes (slot\<lparr>slot_size := of_nat (length pkt), payload := memcpy (payload slot) 0 pkt\<rparr>) = pkt"
proof -
  have "unat (of_nat (length pkt) :: u16) = length pkt"
    using assms(2) by (simp add: unat_of_nat take_bit_eq_mod)
  then show ?thesis
    using assms by (simp add: slot_bytes_def take_memcpy)
qed

lemma zrb_push_items:
  assumes "zrb_inv N q"
  shows "zrb_items N (snd (zrb_push N q x)) = zrb_items N q @ (if fst (zrb_push N q x) then [x] else [])"
proof (cases "zcount q = N \<or> 2048 < length x")
  case True
  then show ?thesis by (simp add: zrb_push_def)
next
  case False
  let ?slot = "pool q (ztail q)"
  let ?new = "?slot\<lparr>slot_size := of_nat (length x), payload := memcpy (payload ?slot) 0 x\<rparr>"
  have c: "zcount q < N" and t: "ztail q = (zhead q + zcount q) mod N"
    using assms False by (auto simp: zrb_inv_def)
  have new: "slot_bytes ?new = x"
    using assms False by (intro slot_bytes_written) (auto simp: zrb_inv_def)
  have "slot_bytes \<circ> (pool q)(ztail q := ?new) = (slot_bytes \<circ> pool q)(ztail q := x)"
    using new by auto
  then show ?thesis
    using False ring_list_snoc [OF c, of "slot_bytes \<circ> pool q" "zhead q" x] t
    by (simp add: zrb_items_def zrb_push_def Let_def)
qed

lemma zrb_pop_items:
  assumes "zrb_inv N q"
  shows "zrb_items N (zrb_pop N q) = tl (zrb_items N q)"
  using assms ring_list_tl [of "zhead q" N "zcount q" "slot_bytes \<circ> pool q"]
  by (auto simp: zrb_items_def zrb_pop_def zrb_inv_def)

lemma zrb_inv_push:
  assumes "zrb_inv N q"
  shows "zrb_inv N (snd (zrb_push N q x))"
  using assms by (auto simp: zrb_inv_def zrb_push_def Let_def mod_Suc_eq)

lemma zrb_inv_pop:
  assumes "zrb_inv N q"
  shows "zrb_inv N (zrb_pop N q)"
proof (cases "zcount q")
  case (Suc c)
  have "(zhead q + Suc c) mod N = ((zhead q + 1) mod N + c) mod N"
    by (simp add: mod_add_left_eq)
  then show ?thesis
    using assms Suc by (auto simp: zrb_inv_def zrb_pop_def)
qed (use assms in \<open>simp add: zrb_pop_def\<close>)

lemma zrb_first_items:
  assumes "zrb_inv N q"
  shows "zrb_first q = (case zrb_items N q of [] \<Rightarrow> None | x # _ \<Rightarrow> Some x)"
  using assms ring_list_Cons [of "zhead q" N "slot_bytes \<circ> pool q" "zcount q - 1"]
  by (auto simp: zrb_first_def zrb_is_empty_def zrb_front_def zrb_items_def zrb_inv_def
      split: list.splits)

lemma zrb_inv_empty [simp]: "0 < N \<Longrightarrow> zrb_inv N zrb_empty"
  by (simp add: zrb_inv_def zrb_empty_def)

lemma zrb_items_empty [simp]: "zrb_items N zrb_empty = []"
  by (simp add: zrb_items_def zrb_empty_def)

text \<open>The shaper queue: 8192 slots of at most 2048 bytes.\<close>

interpretation shaper_q: bounded_fifo 8192 "\<lambda>pkt. length pkt \<le> 2048" "zrb_inv 8192"
  "zrb_items 8192" "zrb_push 8192" zrb_first "zrb_pop 8192"
proof (unfold_locales, goal_cases)
  case (1 q x)
  then show ?case by (auto simp: zrb_push_def Let_def zrb_items_def zrb_inv_def)
next
  case (7 q)
  then show ?case by (simp add: zrb_items_def zrb_inv_def)
qed (auto simp: zrb_push_items zrb_first_items zrb_pop_items zrb_inv_push zrb_inv_pop)

lemma spsc_inv_empty [simp]: "0 < N \<Longrightarrow> spsc_inv N (spsc_empty x)"
  by (simp add: spsc_inv_def spsc_empty_def)

lemma spsc_items_empty [simp]: "spsc_items N (spsc_empty x) = []"
  by (simp add: spsc_items_def spsc_empty_def spsc_count_def)

text \<open>C21: The shaper queue neither loses, duplicates nor reorders packets: over every sequence of
  pushes and pops from the empty ring, the packets it accepted are exactly the packets it
  delivered followed by those it still holds, in order, and it never holds more than 8192.\<close>

theorem shaper_queue_fifo:
  assumes "fifo_run (zrb_push 8192) zrb_first (zrb_pop 8192) zrb_empty ops = (q, accepted, delivered)"
  shows "accepted = delivered @ zrb_items 8192 q \<and> length (zrb_items 8192 q) \<le> 8192"
  using shaper_q.run_from_empty [OF _ _ assms] by simp

theorem shaper_queue_fifo_witness:
  "\<exists>q. fifo_run (zrb_push 8192) zrb_first (zrb_pop 8192) zrb_empty [Push [1, 2], Push [3], Pop]
         = (q, [[1, 2], [3]], [[1, 2]]) \<and> zrb_items 8192 q = [[3]]"
proof -
  define q1 where "q1 = snd (zrb_push 8192 zrb_empty [1, 2])"
  define q2 where "q2 = snd (zrb_push 8192 q1 [3])"
  have inv1: "zrb_inv 8192 q1" and inv2: "zrb_inv 8192 q2"
    by (simp_all add: q1_def q2_def shaper_q.invar_push)
  have push1: "zrb_push 8192 zrb_empty [1, 2] = (True, q1)"
    using shaper_q.push_accepts [of zrb_empty "[1, 2]"] by (simp add: q1_def prod_eq_iff)
  then have items1: "zrb_items 8192 q1 = [[1, 2]]"
    using shaper_q.push_items [of zrb_empty "[1, 2]"] by simp
  have push2: "zrb_push 8192 q1 [3] = (True, q2)"
    using shaper_q.push_accepts [OF inv1, of "[3]"] items1 by (simp add: q2_def prod_eq_iff)
  then have "zrb_first q2 = Some [1, 2]"
    using shaper_q.push_items [OF inv1, of "[3]"] shaper_q.front_items [OF inv2] items1 by simp
  with push1 push2 have run:
    "fifo_run (zrb_push 8192) zrb_first (zrb_pop 8192) zrb_empty [Push [1, 2], Push [3], Pop]
       = (zrb_pop 8192 q2, [[1, 2], [3]], [[1, 2]])"
    by simp
  with shaper_queue_fifo [OF run] show ?thesis by simp
qed

section \<open>Producer and consumer interleaved\<close>

text \<open>
  One thread runs \<^verbatim>\<open>push\<close>, another \<^verbatim>\<open>pop\<close>, and their loads and stores interleave in any order.
  The acquire load of the other side's index and the release store of the own index order the
  slot access between them, so the atomic actions are: load the own index, load and test the
  other index, access the slot, store the own index.  The two histories record the elements
  whose \<^verbatim>\<open>push\<close> returned true and the elements \<^verbatim>\<open>pop\<close> returned.
\<close>

datatype 'a producer = PIdle | PLoaded 'a nat | PRoom 'a nat | PWritten 'a nat

datatype 'a consumer = CIdle | CLoaded nat | CAvail nat | CRead 'a nat

record 'a spsc_sys =
  ring :: "'a SpscRingBuffer"
  prod :: "'a producer"
  cons :: "'a consumer"
  pushed :: "'a list"
  popped :: "'a list"

inductive spsc_step :: "nat \<Rightarrow> 'a spsc_sys \<Rightarrow> 'a spsc_sys \<Rightarrow> bool" for N where
  p_load: "prod s = PIdle \<Longrightarrow> spsc_step N s (s\<lparr>prod := PLoaded x (tail (ring s))\<rparr>)"
| p_full: "prod s = PLoaded x t \<Longrightarrow> (t + 1) mod N = head (ring s) \<Longrightarrow>
     spsc_step N s (s\<lparr>prod := PIdle\<rparr>)"
| p_room: "prod s = PLoaded x t \<Longrightarrow> (t + 1) mod N \<noteq> head (ring s) \<Longrightarrow>
     spsc_step N s (s\<lparr>prod := PRoom x t\<rparr>)"
| p_write: "prod s = PRoom x t \<Longrightarrow>
     spsc_step N s (s\<lparr>ring := (ring s)\<lparr>buffer := (buffer (ring s))(t := x)\<rparr>, prod := PWritten x t\<rparr>)"
| p_publish: "prod s = PWritten x t \<Longrightarrow>
     spsc_step N s (s\<lparr>ring := (ring s)\<lparr>tail := (t + 1) mod N\<rparr>, prod := PIdle,
       pushed := pushed s @ [x]\<rparr>)"
| c_load: "cons s = CIdle \<Longrightarrow> spsc_step N s (s\<lparr>cons := CLoaded (head (ring s))\<rparr>)"
| c_empty: "cons s = CLoaded h \<Longrightarrow> h = tail (ring s) \<Longrightarrow> spsc_step N s (s\<lparr>cons := CIdle\<rparr>)"
| c_avail: "cons s = CLoaded h \<Longrightarrow> h \<noteq> tail (ring s) \<Longrightarrow> spsc_step N s (s\<lparr>cons := CAvail h\<rparr>)"
| c_read: "cons s = CAvail h \<Longrightarrow> spsc_step N s (s\<lparr>cons := CRead (buffer (ring s) h) h\<rparr>)"
| c_release: "cons s = CRead x h \<Longrightarrow>
     spsc_step N s (s\<lparr>ring := (ring s)\<lparr>head := (h + 1) mod N\<rparr>, cons := CIdle,
       popped := popped s @ [x]\<rparr>)"

inductive spsc_reachable :: "nat \<Rightarrow> 'a spsc_sys \<Rightarrow> bool" for N where
  init: "spsc_reachable N \<lparr>ring = spsc_empty x, prod = PIdle, cons = CIdle, pushed = [], popped = []\<rparr>"
| step: "spsc_reachable N s \<Longrightarrow> spsc_step N s t \<Longrightarrow> spsc_reachable N t"

fun prod_ok :: "nat \<Rightarrow> 'a SpscRingBuffer \<Rightarrow> 'a producer \<Rightarrow> bool" where
  "prod_ok N r PIdle \<longleftrightarrow> True"
| "prod_ok N r (PLoaded x t) \<longleftrightarrow> t = tail r"
| "prod_ok N r (PRoom x t) \<longleftrightarrow> t = tail r \<and> Suc (spsc_count N r) < N"
| "prod_ok N r (PWritten x t) \<longleftrightarrow> t = tail r \<and> Suc (spsc_count N r) < N \<and> buffer r t = x"

fun cons_ok :: "nat \<Rightarrow> 'a SpscRingBuffer \<Rightarrow> 'a consumer \<Rightarrow> bool" where
  "cons_ok N r CIdle \<longleftrightarrow> True"
| "cons_ok N r (CLoaded h) \<longleftrightarrow> h = head r"
| "cons_ok N r (CAvail h) \<longleftrightarrow> h = head r \<and> 0 < spsc_count N r"
| "cons_ok N r (CRead x h) \<longleftrightarrow> h = head r \<and> 0 < spsc_count N r \<and> buffer r h = x"

definition sys_ok :: "nat \<Rightarrow> 'a spsc_sys \<Rightarrow> bool" where
  "sys_ok N s \<longleftrightarrow>
     spsc_inv N (ring s) \<and> prod_ok N (ring s) (prod s) \<and> cons_ok N (ring s) (cons s) \<and>
     pushed s = popped s @ spsc_items N (ring s)"

lemma count_publish:
  assumes "spsc_inv N r" "Suc (spsc_count N r) < N"
  shows "spsc_count N (r\<lparr>tail := (tail r + 1) mod N\<rparr>) = Suc (spsc_count N r)"
proof -
  have "(tail r + 1) mod N = (head r + Suc (spsc_count N r)) mod N"
    using spsc_tail_eq [OF assms(1)] by (metis add_Suc_right mod_Suc_eq Suc_eq_plus1)
  then show ?thesis
    using spsc_count_eqI [OF _ assms(2)] assms(1) by (simp add: spsc_count_def spsc_inv_def)
qed

lemma items_publish:
  assumes "spsc_inv N r" "Suc (spsc_count N r) < N" "buffer r (tail r) = x"
  shows "spsc_items N (r\<lparr>tail := (tail r + 1) mod N\<rparr>) = spsc_items N r @ [x]"
proof -
  have "ring_list (buffer r) N (head r) (Suc (spsc_count N r)) =
      ring_list (buffer r) N (head r) (spsc_count N r) @ [x]"
    using assms spsc_tail_eq [OF assms(1)] by (simp add: ring_list_def)
  then show ?thesis
    using count_publish [OF assms(1,2)] by (simp add: spsc_items_def)
qed

lemma items_write:
  assumes "spsc_inv N r" "Suc (spsc_count N r) < N"
  shows "spsc_items N (r\<lparr>buffer := (buffer r)(tail r := x)\<rparr>) = spsc_items N r"
proof -
  have "ring_list ((buffer r)(tail r := x)) N (head r) (spsc_count N r) =
      ring_list (buffer r) N (head r) (spsc_count N r)"
    by (subst spsc_tail_eq [OF assms(1)], rule ring_list_fresh) (use assms(2) in simp)
  moreover have "spsc_count N (r\<lparr>buffer := (buffer r)(tail r := x)\<rparr>) = spsc_count N r"
    by (simp add: spsc_count_def)
  ultimately show ?thesis by (simp add: spsc_items_def)
qed

lemma count_release:
  assumes "spsc_inv N r" "0 < spsc_count N r"
  shows "spsc_count N (r\<lparr>head := (head r + 1) mod N\<rparr>) = spsc_count N r - 1"
    "spsc_items N r = buffer r (head r) # spsc_items N (r\<lparr>head := (head r + 1) mod N\<rparr>)"
proof -
  let ?r = "r\<lparr>head := (head r + 1) mod N\<rparr>"
  have ne: "head r \<noteq> tail r" using spsc_count_0_iff [OF assms(1)] assms(2) by auto
  then have r: "snd (spsc_pop N r) = ?r" by (simp add: spsc_pop_def Let_def)
  have "length (spsc_items N ?r) = length (tl (spsc_items N r))"
    using spsc_pop_items [OF assms(1)] r by simp
  then show cnt: "spsc_count N ?r = spsc_count N r - 1" by (simp add: spsc_items_def)
  obtain c where c: "spsc_count N r = Suc c" using assms(2) by (cases "spsc_count N r") auto
  then show "spsc_items N r = buffer r (head r) # spsc_items N ?r"
    using cnt assms(1) by (simp add: spsc_items_def ring_list_Cons spsc_inv_def)
qed

lemma prod_ok_release:
  "spsc_count N r' \<le> spsc_count N r \<Longrightarrow> tail r' = tail r \<Longrightarrow> buffer r' = buffer r \<Longrightarrow>
     prod_ok N r p \<Longrightarrow> prod_ok N r' p"
  by (cases p) auto

lemma cons_ok_publish:
  "spsc_count N r \<le> spsc_count N r' \<Longrightarrow> head r' = head r \<Longrightarrow> buffer r' = buffer r \<Longrightarrow>
     cons_ok N r c \<Longrightarrow> cons_ok N r' c"
  by (cases c) auto

lemma cons_ok_write:
  assumes "spsc_inv N r" "cons_ok N r c"
  shows "cons_ok N (r\<lparr>buffer := (buffer r)(tail r := x)\<rparr>) c"
  using assms spsc_count_0_iff [OF assms(1)] by (cases c) (auto simp: spsc_count_def)

lemma spsc_step_ok: "spsc_step N s t \<Longrightarrow> sys_ok N s \<Longrightarrow> sys_ok N t"
proof (induction rule: spsc_step.induct)
  case (p_room s x t)
  then show ?case
    using spsc_full_iff [of N "ring s"] spsc_count_less [of N "ring s"] by (auto simp: sys_ok_def)
next
  case (p_write s x t)
  let ?r = "(ring s)\<lparr>buffer := (buffer (ring s))(t := x)\<rparr>"
  have t: "t = tail (ring s)" "Suc (spsc_count N (ring s)) < N" and inv: "spsc_inv N (ring s)"
    using p_write by (auto simp: sys_ok_def)
  have "spsc_items N ?r = spsc_items N (ring s)" "cons_ok N ?r (cons s)"
    using p_write t inv items_write [OF inv] cons_ok_write [OF inv] by (auto simp: sys_ok_def)
  moreover have "spsc_inv N ?r" "spsc_count N ?r = spsc_count N (ring s)"
    using inv by (simp_all add: spsc_inv_def spsc_count_def)
  ultimately show ?case using p_write t by (simp add: sys_ok_def)
next
  case (p_publish s x t)
  let ?r = "(ring s)\<lparr>tail := (t + 1) mod N\<rparr>"
  have t: "t = tail (ring s)" "Suc (spsc_count N (ring s)) < N" "buffer (ring s) t = x"
    and inv: "spsc_inv N (ring s)" and cons: "cons_ok N (ring s) (cons s)"
    using p_publish by (auto simp: sys_ok_def)
  have "spsc_items N ?r = spsc_items N (ring s) @ [x]"
    using items_publish [OF inv t(2)] t by simp
  moreover have "cons_ok N ?r (cons s)"
    using count_publish [OF inv t(2)] t(1) by (intro cons_ok_publish [OF _ _ _ cons]) auto
  moreover have "spsc_inv N ?r" using inv by (auto simp: spsc_inv_def)
  ultimately show ?case using p_publish by (simp add: sys_ok_def)
next
  case (c_avail s h)
  then show ?case using spsc_count_0_iff [of N "ring s"] by (auto simp: sys_ok_def)
next
  case (c_release s x h)
  let ?r = "(ring s)\<lparr>head := (h + 1) mod N\<rparr>"
  have h: "h = head (ring s)" "0 < spsc_count N (ring s)" "buffer (ring s) h = x"
    and inv: "spsc_inv N (ring s)" and prod: "prod_ok N (ring s) (prod s)"
    using c_release by (auto simp: sys_ok_def)
  have "spsc_items N (ring s) = x # spsc_items N ?r" and cnt: "spsc_count N ?r = spsc_count N (ring s) - 1"
    using count_release [OF inv h(2)] h by simp_all
  moreover have "prod_ok N ?r (prod s)"
    using cnt by (intro prod_ok_release [OF _ _ _ prod]) auto
  moreover have "spsc_inv N ?r" using inv by (auto simp: spsc_inv_def)
  ultimately show ?case using c_release by (simp add: sys_ok_def)
qed (auto simp: sys_ok_def)

lemma spsc_reachable_ok: "spsc_reachable N s \<Longrightarrow> 0 < N \<Longrightarrow> sys_ok N s"
  by (induction rule: spsc_reachable.induct) (auto simp: spsc_step_ok, simp add: sys_ok_def)

text \<open>C5: Correctness of the lock-free ring under concurrency: in every interleaving of one
  producer and one consumer, the consumer has received a prefix of what the producer pushed, in
  order, the rest is what the ring holds, and the slot the producer is writing is never the slot
  the consumer is reading.\<close>

theorem spsc_interleaved_fifo:
  assumes "spsc_reachable N s" and "0 < N"
  shows "pushed s = popped s @ spsc_items N (ring s) \<and> length (spsc_items N (ring s)) < N \<and>
    \<not> (\<exists>x i. prod s = PRoom x i \<and> cons s = CAvail i)"
proof -
  have ok: "sys_ok N s" using assms by (rule spsc_reachable_ok)
  then have inv: "spsc_inv N (ring s)" by (simp add: sys_ok_def)
  show ?thesis
    using ok spsc_count_less [OF inv] spsc_count_0_iff [OF inv]
    by (auto simp: sys_ok_def spsc_items_def)
qed

theorem spsc_interleaved_fifo_witness:
  "\<exists>s :: nat spsc_sys. spsc_reachable 2 s \<and> prod s = PRoom 7 0 \<and> pushed s = popped s @ spsc_items 2 (ring s)"
proof -
  let ?s0 = "\<lparr>ring = spsc_empty 0, prod = PIdle, cons = CIdle, pushed = [], popped = []\<rparr> :: nat spsc_sys"
  let ?s1 = "?s0\<lparr>prod := PLoaded 7 0\<rparr>"
  let ?s2 = "?s1\<lparr>prod := PRoom 7 0\<rparr>"
  have "spsc_step 2 ?s0 ?s1"
    using spsc_step.p_load [of ?s0 2 7] by (simp add: spsc_empty_def)
  moreover have "spsc_step 2 ?s1 ?s2"
    by (rule spsc_step.p_room [of _ 7 0]) (simp_all add: spsc_empty_def)
  ultimately have "spsc_reachable 2 ?s2"
    by (blast intro: spsc_reachable.intros)
  with spsc_interleaved_fifo [OF this] show ?thesis by auto
qed

end
