(* ===== verification/Telemetry.thy ===== *)
theory Telemetry
  imports Complex_Main Prelude
begin

text \<open>
  The counters of \<^verbatim>\<open>include/Telemetry.hpp\<close>.  The singleton is a record; the atomic counters are 64-bit
  words that wrap as \<^verbatim>\<open>fetch_add\<close> does.  A \<^verbatim>\<open>double\<close> is a real number: rounding is not modelled.
  The main lemmas say what a batch commit adds to which core.
\<close>

record CoreMetrics =
  cm_pkts :: u64
  cm_bytes :: u64
  cm_prio_pkts :: "nat \<Rightarrow> u64"
  cm_prio_bytes :: "nat \<Rightarrow> u64"
  cm_dropped :: "nat \<Rightarrow> u64"
  cpu_load_pct :: int

record DeviceEntry =
  dev_ip :: u32
  dev_mac :: string

record SystemInfo =
  hostname :: string
  kernel_short :: string
  uptime_seconds :: u64
  mem_total_kb :: u64
  mem_avail_kb :: u64

record Telemetry =
  core_metrics :: "nat \<Rightarrow> CoreMetrics"
  effective_bridge_mode :: bool
  effective_acceleration :: bool
  cpu_temp_celsius :: real
  qos_global_bw_dirty :: bool
  qos_global_dl_mbps_pending :: real
  qos_global_ul_mbps_pending :: real
  effective_qos_global_dl_mbps :: real
  effective_qos_global_ul_mbps :: real
  mode_config_dirty :: bool
  acceleration_pending :: bool
  shaper_normal_tx_complete :: u64
  shaper_queue_overflow_drops :: u64
  shaper_oversized_drops :: u64
  raw_socket_poll_errors :: u8
  device_table :: "nat \<Rightarrow> DeviceEntry"
  device_count :: u8
  device_table_revision :: u64
  sys_info :: SystemInfo

record BatchStats =
  bs_pkts :: u64
  bs_bytes :: u64
  bs_prio_pkts :: "nat \<Rightarrow> u64"
  bs_prio_bytes :: "nat \<Rightarrow> u64"

definition MAX_TRACKED_DEVICES :: nat where
  "MAX_TRACKED_DEVICES = 64"

definition CoreMetrics_init :: CoreMetrics where
  "CoreMetrics_init =
     \<lparr>cm_pkts = 0, cm_bytes = 0, cm_prio_pkts = (\<lambda>_. 0), cm_prio_bytes = (\<lambda>_. 0),
      cm_dropped = (\<lambda>_. 0), cpu_load_pct = 0\<rparr>"

definition Telemetry_init :: Telemetry where
  "Telemetry_init =
     \<lparr>core_metrics = (\<lambda>_. CoreMetrics_init), effective_bridge_mode = False,
      effective_acceleration = True, cpu_temp_celsius = 0, qos_global_bw_dirty = False,
      qos_global_dl_mbps_pending = 500, qos_global_ul_mbps_pending = 50,
      effective_qos_global_dl_mbps = 500, effective_qos_global_ul_mbps = 50,
      mode_config_dirty = False, acceleration_pending = True, shaper_normal_tx_complete = 0,
      shaper_queue_overflow_drops = 0, shaper_oversized_drops = 0, raw_socket_poll_errors = 0,
      device_table = (\<lambda>_. \<lparr>dev_ip = 0, dev_mac = ''''\<rparr>), device_count = 0,
      device_table_revision = 0,
      sys_info = \<lparr>hostname = '''', kernel_short = '''', uptime_seconds = 0, mem_total_kb = 0,
                  mem_avail_kb = 0\<rparr>\<rparr>"

definition BatchStats_reset :: BatchStats where
  "BatchStats_reset =
     \<lparr>bs_pkts = 0, bs_bytes = 0, bs_prio_pkts = (\<lambda>_. 0), bs_prio_bytes = (\<lambda>_. 0)\<rparr>"

definition commit_batch :: "BatchStats \<Rightarrow> int \<Rightarrow> Telemetry \<Rightarrow> Telemetry" where
  "commit_batch s core_id tel =
     (if core_id < 0 \<or> core_id \<ge> 4 then tel
      else
        let m = core_metrics tel (nat core_id);
            m = m\<lparr>cm_pkts := cm_pkts m + bs_pkts s, cm_bytes := cm_bytes m + bs_bytes s\<rparr>;
            m = fold (\<lambda>i m. m\<lparr>cm_prio_pkts := (cm_prio_pkts m)(i := cm_prio_pkts m i + bs_prio_pkts s i),
                               cm_prio_bytes := (cm_prio_bytes m)(i := cm_prio_bytes m i + bs_prio_bytes s i)\<rparr>)
                  [0..<2] m
        in tel\<lparr>core_metrics := (core_metrics tel)(nat core_id := m)\<rparr>)"

text \<open>\<^verbatim>\<open>core_metrics[core].dropped[i].fetch_add(1)\<close>\<close>

definition count_drop :: "nat \<Rightarrow> nat \<Rightarrow> Telemetry \<Rightarrow> Telemetry" where
  "count_drop core i tel =
     (let m = core_metrics tel core
      in tel\<lparr>core_metrics := (core_metrics tel)(core := m\<lparr>cm_dropped := (cm_dropped m)(i := cm_dropped m i + 1)\<rparr>)\<rparr>)"

section \<open>What a commit adds\<close>

lemma commit_batch_core:
  assumes "0 \<le> core" "core < 4"
  shows "core_metrics (commit_batch s core tel) (nat core) =
    (core_metrics tel (nat core))
      \<lparr>cm_pkts := cm_pkts (core_metrics tel (nat core)) + bs_pkts s,
       cm_bytes := cm_bytes (core_metrics tel (nat core)) + bs_bytes s,
       cm_prio_pkts := (cm_prio_pkts (core_metrics tel (nat core)))
          (0 := cm_prio_pkts (core_metrics tel (nat core)) 0 + bs_prio_pkts s 0,
           1 := cm_prio_pkts (core_metrics tel (nat core)) 1 + bs_prio_pkts s 1),
       cm_prio_bytes := (cm_prio_bytes (core_metrics tel (nat core)))
          (0 := cm_prio_bytes (core_metrics tel (nat core)) 0 + bs_prio_bytes s 0,
           1 := cm_prio_bytes (core_metrics tel (nat core)) 1 + bs_prio_bytes s 1)\<rparr>"
  using assms by (cases "core_metrics tel (nat core)") (simp add: commit_batch_def Let_def upt_rec)

lemma commit_batch_other:
  "i \<noteq> nat core \<Longrightarrow> core_metrics (commit_batch s core tel) i = core_metrics tel i"
  by (simp add: commit_batch_def Let_def)

lemma commit_batch_frame [frame_simps]:
  "effective_bridge_mode (commit_batch s core tel) = effective_bridge_mode tel"
  "shaper_normal_tx_complete (commit_batch s core tel) = shaper_normal_tx_complete tel"
  "shaper_queue_overflow_drops (commit_batch s core tel) = shaper_queue_overflow_drops tel"
  "shaper_oversized_drops (commit_batch s core tel) = shaper_oversized_drops tel"
  by (simp_all add: commit_batch_def Let_def)

end
