(* ===== verification/TxFrame.thy ===== *)
theory TxFrame
  imports Telemetry "HOL-Library.Monad_Syntax"
begin

text \<open>
  The single egress path of \<^verbatim>\<open>TxFrameOutput_util.cpp\<close> and the part of the outside world it and the
  engines use.  A \<open>World\<close> holds the answers the kernel will give to successive \<^verbatim>\<open>send\<close> calls (a
  function of the number of the call and of the length asked for), the readings of the steady
  clock in nanoseconds, the log of the bytes handed to each socket, and the telemetry singleton.
  A \<^verbatim>\<open>for (;;)\<close> loop that retries on \<^verbatim>\<open>EINTR\<close> is a partial function: \<open>None\<close> means that it
  never returns, and the lemmas show that it returns whenever the kernel gives some other answer
  eventually.
\<close>

section \<open>The kernel interface\<close>

text \<open>On Linux \<^verbatim>\<open>EWOULDBLOCK\<close> and \<^verbatim>\<open>EAGAIN\<close> are the same number.\<close>

datatype errno = EINTR | EAGAIN | ENOBUFS | EOTHER

datatype send_ret = Sent nat | Errno errno

record World =
  clock :: "nat \<Rightarrow> int"
  clock_reads :: nat
  send_answer :: "nat \<Rightarrow> nat \<Rightarrow> send_ret"
  sends :: nat
  wire :: "(int \<times> bytes) list"
  tel :: Telemetry

definition steady_now :: "World \<Rightarrow> int \<times> World" where
  "steady_now w = (clock w (clock_reads w), w\<lparr>clock_reads := Suc (clock_reads w)\<rparr>)"

definition sys_send :: "int \<Rightarrow> bytes \<Rightarrow> World \<Rightarrow> send_ret \<times> World" where
  "sys_send fd pkt w =
     (let r = send_answer w (sends w) (length pkt);
          w = w\<lparr>sends := Suc (sends w)\<rparr> in
      case r of
        Sent n \<Rightarrow> (r, w\<lparr>wire := wire w @ [(fd, take n pkt)]\<rparr>)
      | Errno _ \<Rightarrow> (r, w))"

section \<open>Sending\<close>

datatype PacketTxTry = Complete | Busy | Error

partial_function (option) try_send_packet_nonblocking ::
  "int \<Rightarrow> bytes \<Rightarrow> World \<Rightarrow> (PacketTxTry \<times> World) option" where
  "try_send_packet_nonblocking tx_fd pkt w =
     (case sys_send tx_fd pkt w of
        (Sent n, w) \<Rightarrow> Some (if n = length pkt then Complete else Error, w)
      | (Errno e, w) \<Rightarrow>
          if e = EINTR then try_send_packet_nonblocking tx_fd pkt w
          else if e = EAGAIN \<or> e = ENOBUFS then Some (Busy, w)
          else Some (Error, w))"

definition send_best_effort :: "int \<Rightarrow> bytes \<Rightarrow> nat \<Rightarrow> nat \<Rightarrow> World \<Rightarrow> World option" where
  "send_best_effort tx_fd pkt core_id prio_idx w =
     do {
       (r, w) \<leftarrow> try_send_packet_nonblocking tx_fd pkt w;
       Some (if r \<noteq> Complete then w\<lparr>tel := count_drop core_id prio_idx (tel w)\<rparr> else w)
     }"

partial_function (option) send_stream_blocking :: "int \<Rightarrow> bytes \<Rightarrow> World \<Rightarrow> World option" where
  "send_stream_blocking fd data w =
     (if data = [] then Some w
      else case sys_send fd data w of
        (Errno e, w) \<Rightarrow> if e = EINTR then send_stream_blocking fd data w else Some w
      | (Sent n, w) \<Rightarrow> send_stream_blocking fd (drop n data) w)"

section \<open>The retry loops return\<close>

text \<open>Some call after any point is not interrupted.\<close>

definition sends_return :: "World \<Rightarrow> bool" where
  "sends_return w \<longleftrightarrow> (\<forall>k s. \<exists>j \<ge> k. send_answer w j s \<noteq> Errno EINTR)"

text \<open>A packet socket takes a frame as a whole or not at all.\<close>

definition atomic_sends :: "World \<Rightarrow> bool" where
  "atomic_sends w \<longleftrightarrow> (\<forall>k s n. send_answer w k s = Sent n \<longrightarrow> n = s)"

text \<open>What a send may change of the world: the kernel's future answers stay what they are.\<close>

definition same_kernel :: "World \<Rightarrow> World \<Rightarrow> bool" where
  "same_kernel w w' \<longleftrightarrow> clock w' = clock w \<and> send_answer w' = send_answer w"

lemma same_kernel_refl [simp]: "same_kernel w w"
  by (simp add: same_kernel_def)

lemma same_kernel_trans: "same_kernel a b \<Longrightarrow> same_kernel b c \<Longrightarrow> same_kernel a c"
  by (simp add: same_kernel_def)

lemma same_kernel_returns: "same_kernel w w' \<Longrightarrow> sends_return w \<Longrightarrow> sends_return w'"
  by (simp add: same_kernel_def sends_return_def)

lemma same_kernel_atomic: "same_kernel w w' \<Longrightarrow> atomic_sends w \<Longrightarrow> atomic_sends w'"
  by (simp add: same_kernel_def atomic_sends_def)

text \<open>Number of interrupted calls before the next answer to a send of \<open>s\<close> bytes.\<close>

definition interrupts :: "World \<Rightarrow> nat \<Rightarrow> nat" where
  "interrupts w s = (LEAST d. send_answer w (sends w + d) s \<noteq> Errno EINTR)"

lemma answer_after_interrupts:
  assumes "sends_return w"
  shows "send_answer w (sends w + interrupts w s) s \<noteq> Errno EINTR"
    and "d < interrupts w s \<Longrightarrow> send_answer w (sends w + d) s = Errno EINTR"
proof -
  obtain j where "j \<ge> sends w" "send_answer w j s \<noteq> Errno EINTR"
    using assms unfolding sends_return_def by blast
  then have "send_answer w (sends w + (j - sends w)) s \<noteq> Errno EINTR" by simp
  then show "send_answer w (sends w + interrupts w s) s \<noteq> Errno EINTR"
    unfolding interrupts_def by (rule LeastI)
  show "d < interrupts w s \<Longrightarrow> send_answer w (sends w + d) s = Errno EINTR"
    unfolding interrupts_def using not_less_Least by blast
qed

text \<open>The result of the loop in terms of the first answer that is not an interrupt.\<close>

definition try_result :: "int \<Rightarrow> bytes \<Rightarrow> World \<Rightarrow> PacketTxTry \<times> World" where
  "try_result fd pkt w =
     (let k = sends w + interrupts w (length pkt); w' = w\<lparr>sends := Suc k\<rparr> in
      case send_answer w k (length pkt) of
        Sent n \<Rightarrow> (if n = length pkt then Complete else Error, w'\<lparr>wire := wire w @ [(fd, take n pkt)]\<rparr>)
      | Errno e \<Rightarrow> (if e = EAGAIN \<or> e = ENOBUFS then Busy else Error, w'))"

lemma try_send_skips:
  "(\<forall>i < d. send_answer w (sends w + i) (length pkt) = Errno EINTR) \<Longrightarrow>
     try_send_packet_nonblocking fd pkt w = try_send_packet_nonblocking fd pkt (w\<lparr>sends := sends w + d\<rparr>)"
proof (induction d arbitrary: w)
  case (Suc d)
  have "send_answer w (sends w) (length pkt) = Errno EINTR" using Suc.prems by fastforce
  then have "try_send_packet_nonblocking fd pkt w =
      try_send_packet_nonblocking fd pkt (w\<lparr>sends := Suc (sends w)\<rparr>)"
    by (subst try_send_packet_nonblocking.simps) (simp add: sys_send_def)
  also have "\<dots> = try_send_packet_nonblocking fd pkt (w\<lparr>sends := sends w + Suc d\<rparr>)"
  proof -
    have "\<forall>i < d. send_answer w (sends w + Suc i) (length pkt) = Errno EINTR"
      using Suc.prems by blast
    then show ?thesis using Suc.IH [of "w\<lparr>sends := Suc (sends w)\<rparr>"] by simp
  qed
  finally show ?case .
qed simp

lemma try_send_returns:
  assumes "sends_return w"
  shows "try_send_packet_nonblocking fd pkt w = Some (try_result fd pkt w)"
proof -
  let ?k = "sends w + interrupts w (length pkt)"
  have "try_send_packet_nonblocking fd pkt w = try_send_packet_nonblocking fd pkt (w\<lparr>sends := ?k\<rparr>)"
    using try_send_skips answer_after_interrupts(2) [OF assms] by blast
  also have "\<dots> = Some (try_result fd pkt w)"
    using answer_after_interrupts(1) [OF assms, of "length pkt"]
    by (subst try_send_packet_nonblocking.simps)
      (auto simp: sys_send_def try_result_def Let_def split: send_ret.splits)
  finally show ?thesis .
qed

lemma try_result_world [frame_simps]:
  "tel (snd (try_result fd pkt w)) = tel w"
  "clock_reads (snd (try_result fd pkt w)) = clock_reads w"
  "clock (snd (try_result fd pkt w)) = clock w"
  by (simp_all add: try_result_def Let_def split: send_ret.split)

lemma same_kernel_try_result [simp]: "same_kernel w (snd (try_result fd pkt w))"
  by (simp add: same_kernel_def try_result_def Let_def split: send_ret.split)

lemma try_result_wire:
  assumes "atomic_sends w"
  shows "wire (snd (try_result fd pkt w)) =
    wire w @ (if fst (try_result fd pkt w) = Complete then [(fd, pkt)] else [])"
  using assms unfolding atomic_sends_def
  by (auto simp: try_result_def Let_def split: send_ret.split)

text \<open>A best-effort send returns once a system call is not interrupted, and it accounts for the
  frame: either the whole frame has gone to the socket and the counters are unchanged, or nothing has
  gone out and the drop counter of the given core and priority is incremented by one.\<close>

theorem send_best_effort_accounts:
  assumes "sends_return w" "atomic_sends w"
  shows "\<exists>w'. send_best_effort fd pkt core prio w = Some w' \<and>
    (wire w' = wire w @ [(fd, pkt)] \<and> tel w' = tel w \<or>
     wire w' = wire w \<and> tel w' = count_drop core prio (tel w))"
  using try_result_wire [OF assms(2), of fd pkt]
  by (auto simp: send_best_effort_def try_send_returns [OF assms(1)] frame_simps split: prod.split)
    (metis snd_conv try_result_world(1))+

text \<open>A kernel whose third call is the first that is not interrupted.\<close>

definition demo_world :: World where
  "demo_world = \<lparr>clock = (\<lambda>k. 0), clock_reads = 0,
     send_answer = (\<lambda>k s. if k < 2 then Errno EINTR else Sent s), sends = 0, wire = [],
     tel = Telemetry_init\<rparr>"

lemma demo_world_ok: "sends_return demo_world" "atomic_sends demo_world"
proof -
  show "sends_return demo_world"
    unfolding sends_return_def
  proof (intro allI)
    fix k s
    show "\<exists>j\<ge>k. send_answer demo_world j s \<noteq> Errno EINTR"
      by (rule exI [of _ "k + 2"]) (simp add: demo_world_def)
  qed
  show "atomic_sends demo_world"
    by (simp add: atomic_sends_def demo_world_def)
qed

theorem send_best_effort_accounts_witness:
  "\<exists>w'. send_best_effort 5 [1, 2, 3] 2 0 demo_world = Some w' \<and>
    (wire w' = [(5, [1, 2, 3])] \<and> tel w' = Telemetry_init \<or>
     wire w' = [] \<and> tel w' = count_drop 2 0 Telemetry_init)"
  using send_best_effort_accounts [OF demo_world_ok, of 5 "[1, 2, 3]" 2 0]
  by (simp add: demo_world_def)

section \<open>The blocking stream writer\<close>

text \<open>A stream socket without errors: every call takes a positive part of the data or is
  interrupted.\<close>

definition stream_ok :: "World \<Rightarrow> bool" where
  "stream_ok w \<longleftrightarrow>
     (\<forall>k s. 0 < s \<longrightarrow> send_answer w k s = Errno EINTR \<or> (\<exists>n. send_answer w k s = Sent n \<and> 0 < n \<and> n \<le> s))"

lemma send_stream_skips:
  "data \<noteq> [] \<Longrightarrow> (\<forall>i < d. send_answer w (sends w + i) (length data) = Errno EINTR) \<Longrightarrow>
     send_stream_blocking fd data w = send_stream_blocking fd data (w\<lparr>sends := sends w + d\<rparr>)"
proof (induction d arbitrary: w)
  case (Suc d)
  have "send_answer w (sends w) (length data) = Errno EINTR" using Suc.prems by fastforce
  then have "send_stream_blocking fd data w = send_stream_blocking fd data (w\<lparr>sends := Suc (sends w)\<rparr>)"
    using Suc.prems(1) by (subst send_stream_blocking.simps) (simp add: sys_send_def)
  moreover have "\<forall>i < d. send_answer w (sends w + Suc i) (length data) = Errno EINTR"
    using Suc.prems(2) by blast
  ultimately show ?case using Suc.IH [of "w\<lparr>sends := Suc (sends w)\<rparr>"] Suc.prems(1) by simp
qed simp

lemma send_stream_step:
  assumes "sends_return w" "stream_ok w" "data \<noteq> []"
  obtains n k where "0 < n" "n \<le> length data"
    "send_stream_blocking fd data w =
       send_stream_blocking fd (drop n data) (w\<lparr>sends := k, wire := wire w @ [(fd, take n data)]\<rparr>)"
proof -
  let ?k = "sends w + interrupts w (length data)"
  obtain n where n: "send_answer w ?k (length data) = Sent n" "0 < n" "n \<le> length data"
    using assms(2,3) answer_after_interrupts(1) [OF assms(1), of "length data"]
    unfolding stream_ok_def by (metis length_greater_0_conv)
  have "send_stream_blocking fd data w = send_stream_blocking fd data (w\<lparr>sends := ?k\<rparr>)"
    using send_stream_skips [OF assms(3)] answer_after_interrupts(2) [OF assms(1)] by blast
  also have "\<dots> = send_stream_blocking fd (drop n data)
      (w\<lparr>sends := Suc ?k, wire := wire w @ [(fd, take n data)]\<rparr>)"
    using n assms(3) by (subst send_stream_blocking.simps) (simp add: sys_send_def)
  finally show thesis using that n by blast
qed

text \<open>C31: On a stream socket without errors the blocking writer returns and has written all the data,
  in order, in however many pieces the kernel took it.\<close>

theorem send_stream_blocking_complete:
  assumes "sends_return w" "stream_ok w"
  shows "\<exists>w' chunks. send_stream_blocking fd data w = Some w' \<and>
     wire w' = wire w @ map (Pair fd) chunks \<and> concat chunks = data \<and> tel w' = tel w"
  using assms
proof (induction "length data" arbitrary: data w rule: less_induct)
  case less
  show ?case
  proof (cases "data = []")
    case True
    then show ?thesis by (subst send_stream_blocking.simps) (auto intro: exI [of _ "[]"])
  next
    case False
    then obtain n k where n: "0 < n" "n \<le> length data"
      and step: "send_stream_blocking fd data w =
         send_stream_blocking fd (drop n data) (w\<lparr>sends := k, wire := wire w @ [(fd, take n data)]\<rparr>)"
      using send_stream_step [OF less.prems] by blast
    let ?w = "w\<lparr>sends := k, wire := wire w @ [(fd, take n data)]\<rparr>"
    have "sends_return ?w" "stream_ok ?w"
      using less.prems by (simp_all add: sends_return_def stream_ok_def)
    moreover have "length (drop n data) < length data" using n by simp
    ultimately obtain w' chunks where "send_stream_blocking fd (drop n data) ?w = Some w'"
      "wire w' = wire ?w @ map (Pair fd) chunks" "concat chunks = drop n data" "tel w' = tel ?w"
      using less.hyps by blast
    then show ?thesis using step by (intro exI [of _ w'] exI [of _ "take n data # chunks"]) simp
  qed
qed

theorem send_stream_blocking_complete_witness:
  "\<exists>w' chunks. send_stream_blocking 4 [7, 8, 9] demo_world = Some w' \<and>
     wire w' = map (Pair 4) chunks \<and> concat chunks = [7, 8, 9]"
proof -
  have "stream_ok demo_world" by (simp add: stream_ok_def demo_world_def)
  from send_stream_blocking_complete [OF demo_world_ok(1) this, of 4 "[7, 8, 9]"] show ?thesis
    by (auto simp: demo_world_def)
qed

end
