(* ===== verification/Scheduler.thy ===== *)
theory Scheduler
  imports Ring_Buffers TxFrame "HOL-Library.Sublist"
begin

text \<open>
  The token bucket and the traffic shaper of \<^verbatim>\<open>Scheduler_util.hpp\<close> and \<^verbatim>\<open>Scheduler_util.cpp\<close>.  Tokens
  and rates are real numbers, times are nanosecond readings of the steady clock.  The critical
  sections of the spin lock are single steps.  The results: the bucket never exceeds its capacity,
  the drain loop returns, sends a prefix of the queue in order, and over every sequence of
  operations the bytes sent stay below one burst plus the rate times the elapsed time.
\<close>

section \<open>The token bucket\<close>

record TokenBucket =
  tokens :: real
  capacity :: real
  rate_bytes_per_sec :: real
  last_refill :: int
  requested_limit :: real

definition apply_new_rate :: "real \<Rightarrow> TokenBucket \<Rightarrow> World \<Rightarrow> TokenBucket \<times> World" where
  "apply_new_rate limit b w =
     (let b = b\<lparr>rate_bytes_per_sec := (limit * 1000000) / 8\<rparr>;
          b = b\<lparr>capacity := max 15000 (rate_bytes_per_sec b * (1 / 10))\<rparr>;
          b = b\<lparr>tokens := capacity b\<rparr>;
          (now, w) = steady_now w
      in (b\<lparr>last_refill := now\<rparr>, w))"

definition TokenBucket_new :: "real \<Rightarrow> World \<Rightarrow> TokenBucket \<times> World" where
  "TokenBucket_new limit w =
     apply_new_rate limit \<lparr>tokens = 0, capacity = 0, rate_bytes_per_sec = 0, last_refill = 0,
       requested_limit = -1\<rparr> w"

definition set_rate :: "real \<Rightarrow> TokenBucket \<Rightarrow> TokenBucket" where
  "set_rate limit b = b\<lparr>requested_limit := limit\<rparr>"

definition refill :: "TokenBucket \<Rightarrow> World \<Rightarrow> TokenBucket \<times> World" where
  "refill b w =
     (let req_limit = requested_limit b;
          b = b\<lparr>requested_limit := -1\<rparr>;
          (b, w) = (if req_limit \<ge> 0 then apply_new_rate req_limit b w else (b, w));
          (now, w) = steady_now w;
          dt = real_of_int (now - last_refill b) / 1000000000;
          new_tokens = dt * rate_bytes_per_sec b
      in if new_tokens > 0
         then (b\<lparr>tokens := min (capacity b) (tokens b + new_tokens), last_refill := now\<rparr>, w)
         else (b, w))"

definition try_consume :: "nat \<Rightarrow> TokenBucket \<Rightarrow> World \<Rightarrow> bool \<times> TokenBucket \<times> World" where
  "try_consume n b w =
     (let (b, w) = refill b w in
      if tokens b \<ge> real n then (True, b\<lparr>tokens := tokens b - real n\<rparr>, w) else (False, b, w))"

definition refund :: "nat \<Rightarrow> TokenBucket \<Rightarrow> TokenBucket" where
  "refund n b = b\<lparr>tokens := min (capacity b) (tokens b + real n)\<rparr>"

section \<open>The shaper\<close>

datatype TxResult = Success | Congested | Fatal

type_synonym TxResultCallback = "TxResult \<Rightarrow> nat \<Rightarrow> World \<Rightarrow> World"

record Shaper =
  normal_queue :: ZeroAllocRingBuffer
  bucket :: TokenBucket
  tx_callback :: "TxResultCallback option"

definition Shaper_new :: "real \<Rightarrow> World \<Rightarrow> Shaper \<times> World" where
  "Shaper_new limit w =
     (let (b, w) = TokenBucket_new limit w
      in (\<lparr>normal_queue = zrb_empty, bucket = b, tx_callback = None\<rparr>, w))"

definition try_hardware_send :: "int \<Rightarrow> bytes \<Rightarrow> World \<Rightarrow> (TxResult \<times> World) option" where
  "try_hardware_send fd pkt w =
     do {
       (r, w) \<leftarrow> try_send_packet_nonblocking fd pkt w;
       Some (case r of Complete \<Rightarrow> Success | Busy \<Rightarrow> Congested | Error \<Rightarrow> Fatal, w)
     }"

definition set_rate_limit :: "real \<Rightarrow> Shaper \<Rightarrow> Shaper" where
  "set_rate_limit limit sh = sh\<lparr>bucket := set_rate limit (bucket sh)\<rparr>"

definition set_tx_result_callback :: "TxResultCallback \<Rightarrow> Shaper \<Rightarrow> Shaper" where
  "set_tx_result_callback cb sh = sh\<lparr>tx_callback := Some cb\<rparr>"

definition enqueue_normal :: "bytes \<Rightarrow> Shaper \<Rightarrow> World \<Rightarrow> Shaper \<times> World" where
  "enqueue_normal pkt sh w =
     (let (ok, q) = zrb_push 8192 (normal_queue sh) pkt; sh = sh\<lparr>normal_queue := q\<rparr> in
      if \<not> ok then
        if length pkt > 2048
        then (sh, w\<lparr>tel := (tel w)\<lparr>shaper_oversized_drops := shaper_oversized_drops (tel w) + 1\<rparr>\<rparr>)
        else (sh, w\<lparr>tel := (tel w)\<lparr>shaper_queue_overflow_drops := shaper_queue_overflow_drops (tel w) + 1\<rparr>\<rparr>)
      else (sh, w))"

fun result_handler :: "TxResult \<Rightarrow> nat \<Rightarrow> Shaper \<Rightarrow> World \<Rightarrow> Shaper \<times> World" where
  "result_handler Success n sh w =
     (sh\<lparr>normal_queue := zrb_pop 8192 (normal_queue sh)\<rparr>,
      w\<lparr>tel := (tel w)\<lparr>shaper_normal_tx_complete := shaper_normal_tx_complete (tel w) + 1\<rparr>\<rparr>)"
| "result_handler Congested n sh w = (sh\<lparr>bucket := refund n (bucket sh)\<rparr>, w)"
| "result_handler Fatal n sh w =
     (sh\<lparr>bucket := refund n (bucket sh), normal_queue := zrb_pop 8192 (normal_queue sh)\<rparr>, w)"

definition run_callback :: "Shaper \<Rightarrow> TxResult \<Rightarrow> nat \<Rightarrow> World \<Rightarrow> World" where
  "run_callback sh res n w = (case tx_callback sh of None \<Rightarrow> w | Some cb \<Rightarrow> cb res n w)"

partial_function (option) process_queue :: "int \<Rightarrow> Shaper \<Rightarrow> World \<Rightarrow> (Shaper \<times> World) option" where
  "process_queue tx_fd sh w =
     (if zrb_is_empty (normal_queue sh) then Some (sh, w)
      else
        let pkt = zrb_front (normal_queue sh);
            (ok, b, w) = try_consume (length pkt) (bucket sh) w;
            sh = sh\<lparr>bucket := b\<rparr> in
        if \<not> ok then Some (sh, w)
        else
          let sz = unat (of_nat (length pkt) :: u16); pkt_copy = take sz pkt in
          do {
            (res, w) \<leftarrow> try_hardware_send tx_fd pkt_copy w;
            let (sh, w) = result_handler res sz sh w;
            let w = run_callback sh res sz w;
            if res = Congested then Some (sh, w) else process_queue tx_fd sh w
          })"

section \<open>The bucket\<close>

definition bucket_ok :: "TokenBucket \<Rightarrow> bool" where
  "bucket_ok b \<longleftrightarrow> 0 \<le> tokens b \<and> tokens b \<le> capacity b \<and> 15000 \<le> capacity b"

lemma bucket_ok_apply: "bucket_ok (fst (apply_new_rate limit b w))"
  by (simp add: apply_new_rate_def bucket_ok_def steady_now_def Let_def)

lemma bucket_ok_refill: "bucket_ok b \<Longrightarrow> bucket_ok (fst (refill b w))"
  using bucket_ok_apply [of "requested_limit b" "b\<lparr>requested_limit := -1\<rparr>" w]
  by (auto simp: refill_def steady_now_def Let_def bucket_ok_def split: prod.split)

lemma bucket_ok_consume: "bucket_ok b \<Longrightarrow> bucket_ok (fst (snd (try_consume n b w)))"
  using bucket_ok_refill [of b w]
  by (auto simp: try_consume_def Let_def bucket_ok_def split: prod.split)

lemma bucket_ok_refund: "bucket_ok b \<Longrightarrow> bucket_ok (refund n b)"
  by (auto simp: refund_def bucket_ok_def)

text \<open>No rate change is pending and the rate is not negative.\<close>

definition steady :: "TokenBucket \<Rightarrow> bool" where
  "steady b \<longleftrightarrow> requested_limit b < 0 \<and> 0 \<le> rate_bytes_per_sec b"

text \<open>The tokens a bucket would have had at time zero without any spending.\<close>

definition budget :: "TokenBucket \<Rightarrow> real" where
  "budget b = tokens b - rate_bytes_per_sec b * real_of_int (last_refill b) / 1000000000"

lemma refill_steady:
  assumes "steady b" "refill b w = (b', w')"
  shows "steady b' \<and> rate_bytes_per_sec b' = rate_bytes_per_sec b \<and> capacity b' = capacity b \<and>
    budget b' \<le> budget b \<and> last_refill b \<le> last_refill b'"
proof -
  let ?now = "clock w (clock_reads w)"
  let ?t = "real_of_int (?now - last_refill b) / 1000000000 * rate_bytes_per_sec b"
  have b': "b' = (if ?t > 0 then b\<lparr>requested_limit := -1, tokens := min (capacity b) (tokens b + ?t),
      last_refill := ?now\<rparr> else b\<lparr>requested_limit := -1\<rparr>)"
    using assms by (auto simp: refill_def steady_def steady_now_def Let_def split: if_splits)
  have "last_refill b < ?now" if "?t > 0"
    using that assms(1) by (auto simp: steady_def zero_less_mult_iff)
  then show ?thesis
    using assms(1) unfolding b' by (auto simp: steady_def budget_def algebra_simps diff_divide_distrib)
qed

lemma consume_steady:
  assumes "steady b" "try_consume n b w = (ok, b', w')"
  shows "steady b' \<and> rate_bytes_per_sec b' = rate_bytes_per_sec b \<and> capacity b' = capacity b \<and>
    budget b' + (if ok then real n else 0) \<le> budget b \<and> last_refill b \<le> last_refill b'"
proof -
  obtain b1 w1 where r: "refill b w = (b1, w1)" by fastforce
  from refill_steady [OF assms(1) r] show ?thesis
    using assms(2) r by (auto simp: try_consume_def Let_def steady_def budget_def split: if_splits)
qed

lemma refund_steady:
  "steady b \<Longrightarrow> steady (refund n b) \<and> rate_bytes_per_sec (refund n b) = rate_bytes_per_sec b \<and>
     capacity (refund n b) = capacity b \<and> budget (refund n b) \<le> budget b + real n \<and>
     last_refill (refund n b) = last_refill b"
  by (simp add: refund_def steady_def budget_def)

lemma try_consume_world:
  "try_consume n b w = (ok, b', w') \<Longrightarrow> \<exists>k. w' = w\<lparr>clock_reads := k\<rparr>"
  by (auto simp: try_consume_def refill_def apply_new_rate_def steady_now_def Let_def split: if_splits)

text \<open>The time of the last refill is a reading of the clock.\<close>

definition stamped :: "TokenBucket \<Rightarrow> World \<Rightarrow> bool" where
  "stamped b w \<longleftrightarrow> (\<exists>k < clock_reads w. last_refill b = clock w k)"

lemma stamped_apply: "stamped (fst (apply_new_rate limit b w)) (snd (apply_new_rate limit b w))"
  by (auto simp: apply_new_rate_def stamped_def steady_now_def Let_def)

lemma stamped_now:
  "stamped b w \<Longrightarrow> stamped b (snd (steady_now w)) \<and> stamped (b'\<lparr>last_refill := fst (steady_now w)\<rparr>) (snd (steady_now w))"
  by (auto simp: stamped_def steady_now_def intro: less_SucI)

lemma stamped_refill: "stamped b w \<Longrightarrow> stamped (fst (refill b w)) (snd (refill b w))"
proof -
  assume "stamped b w"
  then have "stamped (b\<lparr>requested_limit := -1\<rparr>) w" by (simp add: stamped_def)
  with stamped_apply [of "requested_limit b" "b\<lparr>requested_limit := -1\<rparr>" w] show ?thesis
    using stamped_now
    by (auto simp: refill_def Let_def case_prod_unfold)
qed

lemma stamped_consume:
  assumes "stamped b w" "try_consume n b w = (ok, b', w')"
  shows "stamped b' w'"
  using stamped_refill [OF assms(1)] assms(2)
  by (auto simp: try_consume_def Let_def stamped_def case_prod_unfold split: if_splits)

lemma stamped_refund: "stamped (refund n b) w = stamped b w"
  by (simp add: stamped_def refund_def)

section \<open>The drain loop\<close>

abbreviation queued :: "Shaper \<Rightarrow> bytes list" where
  "queued sh \<equiv> zrb_items 8192 (normal_queue sh)"

text \<open>A callback that only reports.\<close>

definition quiet :: "Shaper \<Rightarrow> bool" where
  "quiet sh \<longleftrightarrow> (\<forall>cb. tx_callback sh = Some cb \<longrightarrow> (\<forall>r n w. cb r n w = w))"

lemma run_callback_quiet: "quiet sh \<Longrightarrow> run_callback sh r n w = w"
  by (simp add: run_callback_def quiet_def split: option.split)

lemma slot_bytes_le: "zrb_inv N q \<Longrightarrow> length (slot_bytes (pool q i)) \<le> 2048"
  by (simp add: slot_bytes_def zrb_inv_def)

lemma front_le: "zrb_inv N q \<Longrightarrow> length (zrb_front q) \<le> 2048"
  using slot_bytes_le by (simp add: zrb_front_def)

lemma unat_size: "n \<le> 2048 \<Longrightarrow> unat (of_nat n :: u16) = n"
  by (simp add: unat_of_nat take_bit_eq_mod)

fun tx_result_of :: "PacketTxTry \<Rightarrow> TxResult" where
  "tx_result_of Complete = Success"
| "tx_result_of Busy = Congested"
| "tx_result_of Error = Fatal"

lemma try_hardware_send_returns:
  "sends_return w \<Longrightarrow> try_hardware_send fd pkt w =
     Some (tx_result_of (fst (try_result fd pkt w)), snd (try_result fd pkt w))"
  by (auto simp: try_hardware_send_def try_send_returns split: prod.split PacketTxTry.split)

text \<open>One iteration of the loop on a non-empty queue.\<close>

lemma process_queue_step:
  assumes inv: "zrb_inv 8192 (normal_queue sh)" and q: "queued sh = pkt # rest"
    and "sends_return w" "quiet sh"
    and tc: "try_consume (length pkt) (bucket sh) w = (ok, b, w1)"
    and res: "res = tx_result_of (fst (try_result fd pkt w1))"
  shows "process_queue fd sh w =
    (if \<not> ok then Some (sh\<lparr>bucket := b\<rparr>, w1)
     else let (sh', w') = result_handler res (length pkt) (sh\<lparr>bucket := b\<rparr>) (snd (try_result fd pkt w1)) in
       if res = Congested then Some (sh', w') else process_queue fd sh' w')"
proof -
  have first: "\<not> zrb_is_empty (normal_queue sh)" "zrb_front (normal_queue sh) = pkt"
    using zrb_first_items [OF inv] q by (auto simp: zrb_first_def split: if_splits)
  have le: "length pkt \<le> 2048" using front_le [OF inv] first(2) by simp
  obtain k where w1: "w1 = w\<lparr>clock_reads := k\<rparr>" using try_consume_world [OF tc] by blast
  have ret: "sends_return w1" using assms(3) by (simp add: w1 sends_return_def)
  have q2: "quiet (fst (result_handler r n (sh\<lparr>bucket := b\<rparr>) v))" for r n v
    using assms(4) by (cases r) (simp_all add: quiet_def)
  have q3: "quiet (sh\<lparr>bucket := c\<rparr>)" for c using assms(4) by (simp add: quiet_def)
  show ?thesis
    by (subst process_queue.simps)
      (simp add: first tc unat_size le try_hardware_send_returns [OF ret] res Let_def
        case_prod_unfold run_callback_quiet q2 q3)
qed

text \<open>What a drain does: it takes the first \<open>k\<close> packets off the queue and sends \<open>sent\<close> of them, in
  order; the others were refused by the hardware with an error.\<close>

definition drained :: "int \<Rightarrow> Shaper \<Rightarrow> World \<Rightarrow> Shaper \<Rightarrow> World \<Rightarrow> bytes list \<Rightarrow> bool" where
  "drained fd sh w sh' w' sent \<longleftrightarrow>
     zrb_inv 8192 (normal_queue sh') \<and> tx_callback sh' = tx_callback sh \<and> same_kernel w w' \<and>
     (\<exists>k. queued sh' = drop k (queued sh) \<and> subseq sent (take k (queued sh))) \<and>
     wire w' = wire w @ map (Pair fd) sent \<and>
     tel w' = (tel w)\<lparr>shaper_normal_tx_complete := shaper_normal_tx_complete (tel w) + of_nat (length sent)\<rparr> \<and>
     (bucket_ok (bucket sh) \<longrightarrow> bucket_ok (bucket sh')) \<and>
     (stamped (bucket sh) w \<longrightarrow> stamped (bucket sh') w') \<and>
     (steady (bucket sh) \<longrightarrow> steady (bucket sh') \<and>
        rate_bytes_per_sec (bucket sh') = rate_bytes_per_sec (bucket sh) \<and>
        capacity (bucket sh') = capacity (bucket sh) \<and>
        last_refill (bucket sh) \<le> last_refill (bucket sh') \<and>
        budget (bucket sh') + real (sum_list (map length sent)) \<le> budget (bucket sh))"

lemma drained_stop:
  assumes "zrb_inv 8192 (normal_queue sh)" "try_consume n (bucket sh) w = (ok, b, w1)" "\<not> ok"
  shows "drained fd sh w (sh\<lparr>bucket := b\<rparr>) w1 []"
proof -
  obtain k where "w1 = w\<lparr>clock_reads := k\<rparr>" using try_consume_world [OF assms(2)] by blast
  then show ?thesis
    using assms consume_steady [OF _ assms(2)] bucket_ok_consume [of "bucket sh" n w]
      stamped_consume [OF _ assms(2)]
    unfolding drained_def
    by (auto simp: same_kernel_def intro!: exI [of _ 0])
qed

lemma pop_queued:
  assumes "zrb_inv 8192 (normal_queue sh)" "queued sh = pkt # rest"
  shows "zrb_items 8192 (zrb_pop 8192 (normal_queue sh)) = rest"
    "zrb_inv 8192 (zrb_pop 8192 (normal_queue sh))"
  using assms zrb_pop_items [OF assms(1)] zrb_inv_pop [OF assms(1)] by auto

lemma subseq_drop_step:
  assumes "queued sh = pkt # rest" "\<exists>k. q' = drop k rest \<and> subseq sent (take k rest)"
  shows "\<exists>k. q' = drop k (queued sh) \<and> subseq (pkt # sent) (take k (queued sh))"
    "\<exists>k. q' = drop k (queued sh) \<and> subseq sent (take k (queued sh))"
proof -
  obtain k where k: "q' = drop k rest" "subseq sent (take k rest)" using assms(2) by blast
  show "\<exists>k. q' = drop k (queued sh) \<and> subseq (pkt # sent) (take k (queued sh))"
    "\<exists>k. q' = drop k (queued sh) \<and> subseq sent (take k (queued sh))"
    using k assms(1) by (auto intro!: exI [of _ "Suc k"])
qed

lemma consume_then_send:
  assumes "atomic_sends w" "try_consume n b0 w = (ok, b, w1)" "try_result fd pkt w1 = (r, w2)"
  shows "wire w2 = wire w @ (if r = Complete then [(fd, pkt)] else []) \<and> tel w2 = tel w \<and> same_kernel w w2 \<and>
    (stamped b0 w \<longrightarrow> stamped b w2)"
proof -
  obtain k where w1: "w1 = w\<lparr>clock_reads := k\<rparr>" using try_consume_world [OF assms(2)] by blast
  have "atomic_sends w1" using assms(1) by (simp add: w1 atomic_sends_def)
  moreover have "stamped b0 w \<longrightarrow> stamped b w2"
    using stamped_consume [OF _ assms(2)] try_result_world(2,3) [of fd pkt w1]
    by (simp add: assms(3) stamped_def)
  ultimately show ?thesis
    using try_result_wire [of w1 fd pkt] try_result_world(1) [of fd pkt w1]
      same_kernel_try_result [of w1 fd pkt]
    unfolding assms(3) by (simp add: w1 same_kernel_def)
qed

lemma drained_success:
  assumes inv: "zrb_inv 8192 (normal_queue sh)" "queued sh = pkt # rest" and at: "atomic_sends w"
    and tc: "try_consume (length pkt) (bucket sh) w = (True, b, w1)"
    and tr: "try_result fd pkt w1 = (Complete, w2)"
    and rh: "result_handler Success n (sh\<lparr>bucket := b\<rparr>) w2 = (sh1, w3)"
    and dr: "drained fd sh1 w3 sh' w' sent"
  shows "drained fd sh w sh' w' (pkt # sent)"
proof -
  have w2: "wire w2 = wire w @ [(fd, pkt)]" "tel w2 = tel w" "same_kernel w w2"
    and stamp: "stamped (bucket sh) w \<longrightarrow> stamped b w2"
    using consume_then_send [OF at tc tr] by auto
  have sh1: "queued sh1 = rest" "tx_callback sh1 = tx_callback sh" "bucket sh1 = b"
    "wire w3 = wire w2" "same_kernel w2 w3" "tel w3 = (tel w)\<lparr>shaper_normal_tx_complete :=
       shaper_normal_tx_complete (tel w) + 1\<rparr>"
    using rh pop_queued [OF inv] w2(2) by (auto simp: same_kernel_def)
  have stamp3: "stamped (bucket sh) w \<longrightarrow> stamped (bucket sh1) w3"
    using rh stamp by (auto simp: stamped_def)
  have ok: "bucket_ok (bucket sh) \<longrightarrow> bucket_ok b" using bucket_ok_consume [of "bucket sh" "length pkt" w] tc by simp
  show ?thesis
    using dr subseq_drop_step(1) [OF inv(2), of "queued sh'" sent] sh1 w2 ok consume_steady [OF _ tc] stamp3
    unfolding drained_def by (auto intro: same_kernel_trans)
qed

lemma drained_fatal:
  assumes inv: "zrb_inv 8192 (normal_queue sh)" "queued sh = pkt # rest" and at: "atomic_sends w"
    and tc: "try_consume (length pkt) (bucket sh) w = (True, b, w1)"
    and tr: "try_result fd pkt w1 = (Error, w2)"
    and rh: "result_handler Fatal (length pkt) (sh\<lparr>bucket := b\<rparr>) w2 = (sh1, w3)"
    and dr: "drained fd sh1 w3 sh' w' sent"
  shows "drained fd sh w sh' w' sent"
proof -
  have w2: "wire w2 = wire w" "tel w2 = tel w" "same_kernel w w2"
    and stamp: "stamped (bucket sh) w \<longrightarrow> stamped b w2"
    using consume_then_send [OF at tc tr] by auto
  have sh1: "queued sh1 = rest" "tx_callback sh1 = tx_callback sh" "bucket sh1 = refund (length pkt) b" "w3 = w2"
    using rh pop_queued [OF inv] by auto
  have ok: "bucket_ok (bucket sh) \<longrightarrow> bucket_ok (refund (length pkt) b)"
    using bucket_ok_consume [of "bucket sh" "length pkt" w] bucket_ok_refund tc by simp
  have st: "steady (bucket sh) \<Longrightarrow> steady (refund (length pkt) b) \<and>
      rate_bytes_per_sec (refund (length pkt) b) = rate_bytes_per_sec (bucket sh) \<and>
      capacity (refund (length pkt) b) = capacity (bucket sh) \<and>
      last_refill (bucket sh) \<le> last_refill (refund (length pkt) b) \<and>
      budget (refund (length pkt) b) \<le> budget (bucket sh)"
    using consume_steady [OF _ tc] refund_steady [of b "length pkt"] by fastforce
  show ?thesis
    using dr subseq_drop_step(2) [OF inv(2), of "queued sh'" sent] sh1 w2 ok st stamp
    unfolding drained_def by (auto intro: same_kernel_trans simp: stamped_refund)
qed

lemma drained_congested:
  assumes inv: "zrb_inv 8192 (normal_queue sh)" and at: "atomic_sends w"
    and tc: "try_consume (length pkt) (bucket sh) w = (True, b, w1)"
    and tr: "try_result fd pkt w1 = (Busy, w2)"
  shows "drained fd sh w (sh\<lparr>bucket := refund (length pkt) b\<rparr>) w2 []"
proof -
  have w2: "wire w2 = wire w" "tel w2 = tel w" "same_kernel w w2"
    and stamp: "stamped (bucket sh) w \<longrightarrow> stamped b w2"
    using consume_then_send [OF at tc tr] by auto
  have "bucket_ok (bucket sh) \<longrightarrow> bucket_ok (refund (length pkt) b)"
    using bucket_ok_consume [of "bucket sh" "length pkt" w] bucket_ok_refund tc by simp
  moreover have "steady (bucket sh) \<Longrightarrow> budget (refund (length pkt) b) \<le> budget (bucket sh)"
    using consume_steady [OF _ tc] refund_steady [of b "length pkt"] by fastforce
  ultimately show ?thesis
    using inv w2 stamp consume_steady [OF _ tc] refund_steady [of b "length pkt"]
    unfolding drained_def by (auto intro!: exI [of _ 0] simp: stamped_refund)
qed

lemma drained_refl: "zrb_inv 8192 (normal_queue sh) \<Longrightarrow> drained fd sh w sh w []"
  by (auto simp: drained_def intro!: exI [of _ 0])

lemma process_queue_drained:
  assumes "zrb_inv 8192 (normal_queue sh)" "sends_return w" "atomic_sends w" "quiet sh"
  shows "\<exists>sh' w' sent. process_queue fd sh w = Some (sh', w') \<and> drained fd sh w sh' w' sent"
  using assms
proof (induction "queued sh" arbitrary: sh w)
  case Nil
  then have "zrb_is_empty (normal_queue sh)"
    using zrb_first_items [OF Nil.prems(1)] by (simp add: zrb_first_def split: if_splits)
  then have "process_queue fd sh w = Some (sh, w)" by (simp add: process_queue.simps)
  then show ?case using drained_refl [OF Nil.prems(1)] by blast
next
  case (Cons pkt rest)
  obtain ok b w1 where tc: "try_consume (length pkt) (bucket sh) w = (ok, b, w1)" by (metis surj_pair)
  obtain r w2 where tr: "try_result fd pkt w1 = (r, w2)" by fastforce
  note q = Cons.hyps(2) [symmetric] and inv = Cons.prems(1)
  note step = process_queue_step [OF inv q Cons.prems(2,4) tc refl, of fd]
  show ?case
  proof (cases ok)
    case False
    then show ?thesis using step drained_stop [OF inv tc] by auto
  next
    case True
    then have tc: "try_consume (length pkt) (bucket sh) w = (True, b, w1)" using tc by simp
    have w2: "same_kernel w w2" using consume_then_send [OF Cons.prems(3) tc tr] by blast
    obtain sh1 w3 where rh: "result_handler (tx_result_of r) (length pkt) (sh\<lparr>bucket := b\<rparr>) w2 = (sh1, w3)"
      by fastforce
    have "same_kernel w w3" "tx_callback sh1 = tx_callback sh"
      using rh w2 by (cases r; auto simp: same_kernel_def)+
    then have w3: "sends_return w3" "atomic_sends w3" "quiet sh1"
      using Cons.prems same_kernel_returns same_kernel_atomic by (auto simp: quiet_def)
    show ?thesis
    proof (cases r)
      case Busy
      then show ?thesis
        using step True tr drained_congested [OF inv Cons.prems(3) tc] by (auto simp: Let_def)
    next
      case Complete
      then have "queued sh1 = rest" "zrb_inv 8192 (normal_queue sh1)"
        using rh pop_queued [OF inv q] by auto
      then obtain sh' w' sent where d: "process_queue fd sh1 w3 = Some (sh', w')" "drained fd sh1 w3 sh' w' sent"
        using Cons.hyps(1) w3 by blast
      have "process_queue fd sh w = Some (sh', w')"
        using step True tr rh Complete d(1) by (auto simp: Let_def)
      then show ?thesis
        using drained_success [OF inv q Cons.prems(3) tc tr [unfolded Complete]
            rh [unfolded Complete tx_result_of.simps] d(2)] by blast
    next
      case Error
      then have "queued sh1 = rest" "zrb_inv 8192 (normal_queue sh1)"
        using rh pop_queued [OF inv q] by auto
      then obtain sh' w' sent where d: "process_queue fd sh1 w3 = Some (sh', w')" "drained fd sh1 w3 sh' w' sent"
        using Cons.hyps(1) w3 by blast
      have "process_queue fd sh w = Some (sh', w')"
        using step True tr rh Error d(1) by (auto simp: Let_def)
      then show ?thesis
        using drained_fatal [OF inv q Cons.prems(3) tc tr [unfolded Error]
            rh [unfolded Error tx_result_of.simps] d(2)] by blast
    qed
  qed
qed

section \<open>The trace of a drain\<close>

text \<open>What the kernel says to a packet that is offered to it.\<close>

fun tx_outcome :: "send_ret \<Rightarrow> TxResult" where
  "tx_outcome (Sent n) = Success"
| "tx_outcome (Errno e) = (if e = EAGAIN \<or> e = ENOBUFS then Congested else Fatal)"

text \<open>The packets at the front of \<open>q\<close> are offered to the kernel one after the other, starting with its call number \<open>n\<close>; an
  interrupted call is repeated.  \<open>rs\<close> are the outcomes and \<open>n'\<close> is the number of the next call.\<close>

inductive answered :: "World \<Rightarrow> nat \<Rightarrow> bytes list \<Rightarrow> TxResult list \<Rightarrow> nat \<Rightarrow> bool" for w where
  answered_nil: "answered w n q [] n"
| answered_cons: "(\<And>i. n \<le> i \<Longrightarrow> i < j \<Longrightarrow> send_answer w i (length pkt) = Errno EINTR) \<Longrightarrow> n \<le> j \<Longrightarrow>
    send_answer w j (length pkt) \<noteq> Errno EINTR \<Longrightarrow> answered w (Suc j) q rs n' \<Longrightarrow>
    answered w n (pkt # q) (tx_outcome (send_answer w j (length pkt)) # rs) n'"

lemma answered_kernel:
  assumes "answered w n q rs n'" "same_kernel w v"
  shows "answered v n q rs n'"
  using assms(1)
proof (induction rule: answered.induct)
  case (answered_cons n j pkt q rs n')
  then show ?case using answered.answered_cons [of n j v pkt q rs n'] assms(2) by (simp add: same_kernel_def)
qed (rule answered.answered_nil)

text \<open>A run of the shaper in terms of these outcomes: it offers packets until one is refused for congestion, the bucket has too few
  tokens for the next one or the queue is empty; a packet leaves the queue when the kernel has taken it or has
  refused it for good, and those it has taken are on the wire.\<close>

definition sent_of :: "bytes list \<Rightarrow> TxResult list \<Rightarrow> bytes list" where
  "sent_of q rs = map fst (filter (\<lambda>(pkt, r). r = Success) (zip q rs))"

definition traced :: "int \<Rightarrow> Shaper \<Rightarrow> World \<Rightarrow> Shaper \<Rightarrow> World \<Rightarrow> TxResult list \<Rightarrow> bool" where
  "traced fd sh w sh' w' rs \<longleftrightarrow>
     answered w (sends w) (queued sh) rs (sends w') \<and> Congested \<notin> set (butlast rs) \<and>
     queued sh' = drop (length (filter (\<lambda>r. r \<noteq> Congested) rs)) (queued sh) \<and>
     wire w' = wire w @ map (Pair fd) (sent_of (queued sh) rs) \<and>
     tel w' = (tel w)\<lparr>shaper_normal_tx_complete := shaper_normal_tx_complete (tel w) + of_nat (length (sent_of (queued sh) rs))\<rparr> \<and>
     (queued sh' = [] \<or> rs \<noteq> [] \<and> last rs = Congested \<or> tokens (bucket sh') < real (length (hd (queued sh'))))"

lemma try_result_answered:
  assumes "sends_return w" "atomic_sends w" "try_result fd pkt w = (r, w')" "answered w (sends w') q rs n"
  shows "answered w (sends w) (pkt # q) (tx_result_of r # rs) n"
proof -
  let ?k = "sends w + interrupts w (length pkt)"
  have k: "send_answer w ?k (length pkt) \<noteq> Errno EINTR" "sends w' = Suc ?k"
    using answer_after_interrupts(1) [OF assms(1)] assms(3) by (auto simp: try_result_def Let_def split: send_ret.splits)
  have "tx_result_of r = tx_outcome (send_answer w ?k (length pkt))"
    using assms(2,3) by (auto simp: try_result_def atomic_sends_def Let_def split: send_ret.splits)
  moreover have "send_answer w i (length pkt) = Errno EINTR" if "sends w \<le> i" "i < ?k" for i
    using answer_after_interrupts(2) [OF assms(1), of "i - sends w" "length pkt"] that by simp
  ultimately show ?thesis using answered_cons [of "sends w" ?k w pkt q rs n] k assms(4) by simp
qed

lemma consume_refused: "try_consume n b w = (False, b', w') \<Longrightarrow> tokens b' < real n"
  by (auto simp: try_consume_def Let_def split: prod.splits if_splits)

lemma process_queue_traced:
  assumes "zrb_inv 8192 (normal_queue sh)" "sends_return w" "atomic_sends w" "quiet sh"
  shows "\<exists>sh' w' rs. process_queue fd sh w = Some (sh', w') \<and> traced fd sh w sh' w' rs"
  using assms
proof (induction "queued sh" arbitrary: sh w)
  case Nil
  then have "zrb_is_empty (normal_queue sh)"
    using zrb_first_items [OF Nil.prems(1)] by (simp add: zrb_first_def split: if_splits)
  then have "process_queue fd sh w = Some (sh, w)" by (simp add: process_queue.simps)
  then show ?case using Nil by (intro exI [of _ sh] exI [of _ w] exI [of _ "[]"]) (simp add: traced_def sent_of_def answered_nil)
next
  case (Cons pkt rest)
  obtain ok b w1 where tc: "try_consume (length pkt) (bucket sh) w = (ok, b, w1)" by (metis surj_pair)
  obtain r w2 where tr: "try_result fd pkt w1 = (r, w2)" by fastforce
  note q = Cons.hyps(2) [symmetric] and inv = Cons.prems(1)
  note step = process_queue_step [OF inv q Cons.prems(2,4) tc refl, of fd]
  obtain c where w1: "w1 = w\<lparr>clock_reads := c\<rparr>" using try_consume_world [OF tc] by blast
  show ?case
  proof (cases ok)
    case False
    then show ?thesis
      using step consume_refused [of "length pkt" "bucket sh" w b w1] tc q
      by (intro exI [of _ "sh\<lparr>bucket := b\<rparr>"] exI [of _ w1] exI [of _ "[]"]) (simp add: traced_def sent_of_def w1 answered_nil)
  next
    case True
    have w2: "wire w2 = wire w @ (if r = Complete then [(fd, pkt)] else [])" "tel w2 = tel w" "same_kernel w w2"
      using consume_then_send [OF Cons.prems(3) tc tr] by auto
    have ans: "answered w (sends w) (pkt # qs) (tx_result_of r # rs) n" if "answered w (sends w2) qs rs n" for qs rs n
      using try_result_answered [of w1 fd pkt r w2 qs rs n] answered_kernel that tr Cons.prems(2,3)
      by (simp add: w1 sends_return_def atomic_sends_def same_kernel_def)
    obtain sh1 w3 where rh: "result_handler (tx_result_of r) (length pkt) (sh\<lparr>bucket := b\<rparr>) w2 = (sh1, w3)"
      by fastforce
    have w3: "same_kernel w w3" "tx_callback sh1 = tx_callback sh" "sends w3 = sends w2" "wire w3 = wire w2"
      using rh w2 by (cases r; auto simp: same_kernel_def)+
    show ?thesis
    proof (cases "r = Busy")
      case Busy: True
      then show ?thesis
        using step True tr rh w2 ans [OF answered_nil] q
        by (intro exI [of _ sh1] exI [of _ w3] exI [of _ "[Congested]"]) (auto simp: traced_def sent_of_def Let_def)
    next
      case False
      have "queued sh1 = rest" "zrb_inv 8192 (normal_queue sh1)"
        using rh pop_queued [OF inv q] False by (cases r; auto)+
      then obtain sh' w' rs where d: "process_queue fd sh1 w3 = Some (sh', w')" "traced fd sh1 w3 sh' w' rs" "queued sh1 = rest"
        using Cons.hyps(1) w3 Cons.prems same_kernel_returns same_kernel_atomic by (metis quiet_def)
      have "tel w3 = (if r = Complete then (tel w)\<lparr>shaper_normal_tx_complete := shaper_normal_tx_complete (tel w) + 1\<rparr> else tel w)"
        using rh w2(2) False by (cases r) auto
      moreover have "answered w (sends w) (pkt # rest) (tx_result_of r # rs) (sends w')"
        using ans d(2,3) w3(1,3) answered_kernel [of w3] by (simp add: traced_def same_kernel_def)
      ultimately have "traced fd sh w sh' w' (tx_result_of r # rs)"
        using d(2,3) q w2 w3 False by (cases r) (auto simp: traced_def sent_of_def)
      then show ?thesis using step True tr rh False d(1) by (cases r) (auto simp: Let_def)
    qed
  qed
qed

section \<open>Properties of the shaper\<close>

text \<open>C16: What one run of the shaper does.  It returns, whatever the queue holds and whatever the kernel answers.  It offers the packets
  at the front of the queue to the kernel one by one, in order, repeating only interrupted calls; exactly those the
  kernel takes are put on the wire, each whole, and counted.  A packet leaves the queue only when the kernel has taken it or
  refused it with an error other than congestion; all others keep their place.  The run ends only when
  the queue is empty, when the last packet offered was refused for congestion, or when the bucket does not cover the next
  packet.\<close>

theorem process_queue_sends_in_order:
  assumes "zrb_inv 8192 (normal_queue sh)" "sends_return w" "atomic_sends w" "quiet sh"
  shows "\<exists>sh' w' rs. process_queue fd sh w = Some (sh', w') \<and>
    answered w (sends w) (queued sh) rs (sends w') \<and> Congested \<notin> set (butlast rs) \<and>
    queued sh' = drop (length (filter (\<lambda>r. r \<noteq> Congested) rs)) (queued sh) \<and>
    wire w' = wire w @ map (Pair fd) (sent_of (queued sh) rs) \<and>
    shaper_normal_tx_complete (tel w') = shaper_normal_tx_complete (tel w) + of_nat (length (sent_of (queued sh) rs)) \<and>
    (queued sh' = [] \<or> rs \<noteq> [] \<and> last rs = Congested \<or> tokens (bucket sh') < real (length (hd (queued sh'))))"
  using process_queue_traced [OF assms, of fd] unfolding traced_def by fastforce

text \<open>Enqueueing accounts for every packet: it is appended to the queue when it fits into a slot and
  fewer than 8192 are waiting; otherwise the queue is unchanged and the counter for
  oversized packets, or the one for overflow, is incremented.\<close>

theorem enqueue_normal_accounts:
  assumes "zrb_inv 8192 (normal_queue sh)" "enqueue_normal pkt sh w = (sh', w')"
  shows "zrb_inv 8192 (normal_queue sh') \<and> wire w' = wire w \<and> bucket sh' = bucket sh \<and>
    (if length pkt \<le> 2048 \<and> length (queued sh) < 8192
     then queued sh' = queued sh @ [pkt] \<and> w' = w
     else queued sh' = queued sh \<and>
       (if length pkt > 2048
        then shaper_oversized_drops (tel w') = shaper_oversized_drops (tel w) + 1
        else shaper_queue_overflow_drops (tel w') = shaper_queue_overflow_drops (tel w) + 1))"
proof -
  have "length (queued sh) \<le> 8192" using assms(1) by (simp add: zrb_items_def zrb_inv_def)
  moreover have "fst (zrb_push 8192 (normal_queue sh) pkt) \<longleftrightarrow> length pkt \<le> 2048 \<and> length (queued sh) \<noteq> 8192"
    by (auto simp: zrb_push_def Let_def zrb_items_def)
  ultimately show ?thesis
    using assms(2) zrb_push_items [OF assms(1), of pkt] zrb_inv_push [OF assms(1), of pkt]
    by (auto simp: enqueue_normal_def Let_def case_prod_unfold split: if_splits)
qed

datatype shaper_op = Enqueue bytes | Drain

fun shaper_exec :: "int \<Rightarrow> shaper_op \<Rightarrow> Shaper \<times> World \<Rightarrow> (Shaper \<times> World) option" where
  "shaper_exec fd (Enqueue pkt) (sh, w) = Some (enqueue_normal pkt sh w)"
| "shaper_exec fd Drain (sh, w) = process_queue fd sh w"

fun shaper_run :: "int \<Rightarrow> shaper_op list \<Rightarrow> Shaper \<times> World \<Rightarrow> (Shaper \<times> World) option" where
  "shaper_run fd [] s = Some s"
| "shaper_run fd (op # ops) s = do { s \<leftarrow> shaper_exec fd op s; shaper_run fd ops s }"

definition shaper_ok :: "Shaper \<Rightarrow> World \<Rightarrow> bool" where
  "shaper_ok sh w \<longleftrightarrow> zrb_inv 8192 (normal_queue sh) \<and> sends_return w \<and> atomic_sends w \<and> quiet sh \<and>
     bucket_ok (bucket sh) \<and> steady (bucket sh) \<and> stamped (bucket sh) w"

text \<open>One step of the rate argument: what was sent is paid for by the budget.\<close>

definition paid :: "Shaper \<Rightarrow> World \<Rightarrow> Shaper \<Rightarrow> World \<Rightarrow> nat \<Rightarrow> bool" where
  "paid sh w sh' w' n \<longleftrightarrow> shaper_ok sh' w' \<and> clock w' = clock w \<and>
     rate_bytes_per_sec (bucket sh') = rate_bytes_per_sec (bucket sh) \<and>
     capacity (bucket sh') = capacity (bucket sh) \<and>
     budget (bucket sh') + real n \<le> budget (bucket sh)"

text \<open>The bytes of a piece of the log.\<close>

definition total_bytes :: "(int \<times> bytes) list \<Rightarrow> nat" where
  "total_bytes es = sum_list (map (\<lambda>e. length (snd e)) es)"

lemma total_bytes_simps [simp]:
  "total_bytes [] = 0" "total_bytes (a @ b) = total_bytes a + total_bytes b"
  "total_bytes (map (Pair fd) xs) = sum_list (map length xs)"
  by (simp_all add: total_bytes_def comp_def)

lemma shaper_exec_paid:
  assumes "shaper_ok sh w"
  shows "\<exists>sh' w' new. shaper_exec fd op (sh, w) = Some (sh', w') \<and> wire w' = wire w @ new \<and>
    paid sh w sh' w' (total_bytes new)"
proof (cases op)
  case (Enqueue pkt)
  obtain sh' w' where eq: "enqueue_normal pkt sh w = (sh', w')" by fastforce
  have "wire w' = wire w" "bucket sh' = bucket sh" "same_kernel w w'" "clock_reads w' = clock_reads w"
    "tx_callback sh' = tx_callback sh" "zrb_inv 8192 (normal_queue sh')"
    using eq assms zrb_inv_push [of 8192 "normal_queue sh" pkt]
    by (auto simp: enqueue_normal_def Let_def case_prod_unfold same_kernel_def shaper_ok_def split: if_splits)
  moreover from this have "shaper_ok sh' w'"
    using assms same_kernel_returns same_kernel_atomic
    by (auto simp: shaper_ok_def quiet_def stamped_def same_kernel_def)
  ultimately show ?thesis
    using eq Enqueue by (auto simp: paid_def same_kernel_def intro!: exI [of _ "[]"])
next
  case Drain
  obtain sh' w' sent where d: "process_queue fd sh w = Some (sh', w')" "drained fd sh w sh' w' sent"
    using process_queue_drained assms unfolding shaper_ok_def by blast
  then have "paid sh w sh' w' (total_bytes (map (Pair fd) sent))"
    using assms same_kernel_returns same_kernel_atomic
    unfolding paid_def drained_def shaper_ok_def quiet_def  total_bytes_simps
    by (auto simp: same_kernel_def)
  then show ?thesis using d Drain by (auto simp: drained_def)
qed

lemma shaper_run_paid:
  assumes "shaper_ok sh w"
  shows "\<exists>sh' w' new. shaper_run fd ops (sh, w) = Some (sh', w') \<and> wire w' = wire w @ new \<and>
    paid sh w sh' w' (total_bytes new)"
  using assms
proof (induction ops arbitrary: sh w)
  case Nil
  then show ?case by (auto simp: paid_def intro!: exI [of _ "[]"])
next
  case (Cons op ops)
  obtain sh1 w1 new1 where 1: "shaper_exec fd op (sh, w) = Some (sh1, w1)" "wire w1 = wire w @ new1"
    "paid sh w sh1 w1 (total_bytes new1)"
    using shaper_exec_paid [OF Cons.prems] by blast
  obtain sh2 w2 new2 where 2: "shaper_run fd ops (sh1, w1) = Some (sh2, w2)" "wire w2 = wire w1 @ new2"
    "paid sh1 w1 sh2 w2 (total_bytes new2)"
    using Cons.IH [of sh1 w1] 1(3) unfolding paid_def by blast
  have "paid sh w sh2 w2 (total_bytes (new1 @ new2))"
    using 1(3) 2(3) by (auto simp: paid_def)
  then show ?case using 1 2 by (intro exI [of _ sh2] exI [of _ w2] exI [of _ "new1 @ new2"]) simp
qed

lemma shaper_new_ok:
  assumes "0 \<le> limit" "sends_return w" "atomic_sends w" "Shaper_new limit w = (sh, w')"
  shows "shaper_ok sh w' \<and> wire w' = wire w \<and> clock w' = clock w \<and>
    rate_bytes_per_sec (bucket sh) = limit * 125000 \<and> capacity (bucket sh) = max 15000 (limit * 12500) \<and>
    tokens (bucket sh) = capacity (bucket sh) \<and> last_refill (bucket sh) = clock w (clock_reads w)"
proof -
  have "quiet sh" "zrb_inv 8192 (normal_queue sh)"
    using assms(4) by (auto simp: Shaper_new_def Let_def case_prod_unfold quiet_def)
  then show ?thesis
    using assms
    by (auto simp: Shaper_new_def TokenBucket_new_def apply_new_rate_def steady_now_def Let_def shaper_ok_def
        bucket_ok_def steady_def stamped_def sends_return_def atomic_sends_def)
qed

text \<open>C8: The rate limit.  Over every sequence of enqueue and drain operations on a new shaper of
  \<open>limit\<close> megabits per second, the operations return and the bytes handed to the hardware up to a
  time \<open>T\<close> are at most one burst (15000 bytes or 100 ms worth) plus the rate times the time since
  construction.\<close>

theorem shaper_rate_limit:
  assumes "0 \<le> limit" "sends_return w" "atomic_sends w" "Shaper_new limit w = (sh, w1)"
  shows "\<exists>sh' w' new. shaper_run fd ops (sh, w1) = Some (sh', w') \<and> wire w' = wire w @ new \<and>
    (\<forall>T. (\<forall>k < clock_reads w'. clock w k \<le> T) \<longrightarrow>
       real (total_bytes new) \<le>
         max 15000 (limit * 12500) + limit * 125000 * real_of_int (T - clock w (clock_reads w)) / 1000000000)"
proof -
  note new = shaper_new_ok [OF assms]
  obtain sh' w' new where r: "shaper_run fd ops (sh, w1) = Some (sh', w')" "wire w' = wire w1 @ new"
    and p: "paid sh w1 sh' w' (total_bytes new)"
    using shaper_run_paid new by blast
  have "real (total_bytes new) \<le>
      max 15000 (limit * 12500) + limit * 125000 * real_of_int (T - clock w (clock_reads w)) / 1000000000"
    if T: "\<forall>k < clock_reads w'. clock w k \<le> T" for T
  proof -
    have last: "last_refill (bucket sh') \<le> T"
      using p new T by (auto simp: paid_def shaper_ok_def stamped_def)
    have "0 \<le> tokens (bucket sh')" using p by (simp add: paid_def shaper_ok_def bucket_ok_def)
    then have "real (total_bytes new) \<le> capacity (bucket sh)
        + limit * 125000 * real_of_int (last_refill (bucket sh')) / 1000000000
        - limit * 125000 * real_of_int (clock w (clock_reads w)) / 1000000000"
      using p new by (auto simp: paid_def budget_def)
    moreover have "limit * 125000 * real_of_int (last_refill (bucket sh')) \<le> limit * 125000 * real_of_int T"
      using last assms(1) by (intro mult_left_mono) auto
    ultimately show ?thesis using new by (simp add: algebra_simps diff_divide_distrib)
  qed
  then show ?thesis using r new by auto
qed

lemma refill_tokens:
  assumes "steady b" "bucket_ok b"
  shows "tokens (fst (refill b w)) =
    min (capacity b) (tokens b + max 0 (real_of_int (clock w (clock_reads w) - last_refill b) / 1000000000
       * rate_bytes_per_sec b))"
  using assms by (auto simp: refill_def steady_def bucket_ok_def steady_now_def Let_def split: if_splits)

lemma try_consume_ok:
  "real n \<le> tokens (fst (refill b w)) \<Longrightarrow>
     \<exists>b' w'. try_consume n b w = (True, b', w') \<and> tokens b' = tokens (fst (refill b w)) - real n"
  by (auto simp: try_consume_def Let_def case_prod_unfold)

text \<open>No starvation: a request of at most 15000 bytes (every queued packet is smaller) is granted once
  the clock has advanced by its size divided by the rate since the last refill.\<close>

theorem token_bucket_admits:
  assumes "bucket_ok b" "steady b" "n \<le> 15000"
    and "real n * 1000000000 \<le> rate_bytes_per_sec b * real_of_int (clock w (clock_reads w) - last_refill b)"
  shows "fst (try_consume n b w)"
proof -
  let ?d = "real_of_int (clock w (clock_reads w) - last_refill b)"
  have "real n \<le> capacity b" using assms(1,3) by (simp add: bucket_ok_def)
  moreover have "real n \<le> tokens b + max 0 (?d / 1000000000 * rate_bytes_per_sec b)"
    using assms(1,4) by (auto simp: bucket_ok_def field_simps max_def)
  ultimately have "real n \<le> tokens (fst (refill b w))"
    unfolding refill_tokens [OF assms(2,1)] by (rule min.boundedI)
  then show ?thesis using try_consume_ok by fastforce
qed

text \<open>With working hardware and enough tokens for what is waiting, one drain sends the whole queue in
  order and leaves it empty.\<close>

theorem process_queue_empties:
  assumes "zrb_inv 8192 (normal_queue sh)" "quiet sh" "\<forall>k s. send_answer w k s = Sent s"
    and "bucket_ok (bucket sh)" "steady (bucket sh)"
    and "real (sum_list (map length (queued sh))) \<le> tokens (bucket sh)"
  shows "\<exists>sh' w'. process_queue fd sh w = Some (sh', w') \<and> queued sh' = [] \<and>
    wire w' = wire w @ map (Pair fd) (queued sh)"
  using assms
proof (induction "queued sh" arbitrary: sh w)
  case Nil
  then have "zrb_is_empty (normal_queue sh)"
    using zrb_first_items [OF Nil.prems(1)] by (simp add: zrb_first_def split: if_splits)
  then show ?case using Nil.hyps by (auto simp: process_queue.simps)
next
  case (Cons pkt rest)
  note q = Cons.hyps(2) [symmetric] and inv = Cons.prems(1)
  have ret: "sends_return w" "atomic_sends w"
    using Cons.prems(3) by (auto simp: sends_return_def atomic_sends_def)
  have "tokens (bucket sh) \<le> tokens (fst (refill (bucket sh) w))"
    using Cons.prems(4) by (auto simp: refill_tokens [OF Cons.prems(5,4)] bucket_ok_def)
  moreover have "real (length pkt) + real (sum_list (map length rest)) \<le> tokens (bucket sh)"
    using Cons.prems(6) q by simp
  ultimately obtain b w1 where tc: "try_consume (length pkt) (bucket sh) w = (True, b, w1)"
    and b: "real (sum_list (map length rest)) \<le> tokens b"
    using try_consume_ok [of "length pkt" "bucket sh" w] by fastforce
  obtain k where w1: "w1 = w\<lparr>clock_reads := k\<rparr>" using try_consume_world [OF tc] by blast
  obtain r w2 where tr: "try_result fd pkt w1 = (r, w2)" by fastforce
  have r: "r = Complete" using tr Cons.prems(3) by (auto simp: try_result_def Let_def w1)
  note w2 = consume_then_send [OF ret(2) tc tr]
  define sh1 where "sh1 = sh\<lparr>bucket := b, normal_queue := zrb_pop 8192 (normal_queue sh)\<rparr>"
  define w3 where "w3 = w2\<lparr>tel := (tel w2)\<lparr>shaper_normal_tx_complete := shaper_normal_tx_complete (tel w2) + 1\<rparr>\<rparr>"
  have step: "process_queue fd sh w = process_queue fd sh1 w3"
    using process_queue_step [OF inv q ret(1) Cons.prems(2) tc refl, of fd] tr r
    by (simp add: Let_def sh1_def w3_def)
  have rest: "queued sh1 = rest" "zrb_inv 8192 (normal_queue sh1)"
    using pop_queued [OF inv q] by (simp_all add: sh1_def)
  have hyps: "quiet sh1" "\<forall>k s. send_answer w3 k s = Sent s" "bucket_ok (bucket sh1)" "steady (bucket sh1)"
    using Cons.prems w2 consume_steady [OF Cons.prems(5) tc] bucket_ok_consume [OF Cons.prems(4), of "length pkt" w] tc
    by (auto simp: sh1_def w3_def quiet_def same_kernel_def)
  have "\<exists>sh' w'. process_queue fd sh1 w3 = Some (sh', w') \<and> queued sh' = [] \<and>
      wire w' = wire w3 @ map (Pair fd) (queued sh1)"
    using Cons.hyps(1) [OF rest(1) [symmetric] rest(2) hyps] b rest(1) by (simp add: sh1_def)
  then show ?case using step q rest w2 r by (auto simp: w3_def)
qed

section \<open>A sample shaper\<close>

definition demo_shaper :: Shaper where
  "demo_shaper = fst (enqueue_normal [1, 2, 3] (fst (Shaper_new 8 demo_world)) demo_world)"

lemma demo_shaper_ok: "shaper_ok (fst (Shaper_new 8 demo_world)) (snd (Shaper_new 8 demo_world))"
  using shaper_new_ok [OF _ demo_world_ok] by (metis prod.collapse zero_le_numeral)

lemma demo_shaper_queue:
  "zrb_inv 8192 (normal_queue demo_shaper)" "queued demo_shaper = [[1, 2, 3]]" "quiet demo_shaper"
  "bucket_ok (bucket demo_shaper)" "steady (bucket demo_shaper)" "tokens (bucket demo_shaper) = 100000"
proof -
  let ?sh = "fst (Shaper_new 8 demo_world)"
  have q: "normal_queue ?sh = zrb_empty" by (simp add: Shaper_new_def Let_def case_prod_unfold)
  have push: "fst (zrb_push 8192 zrb_empty [1, 2, 3])" by (simp add: zrb_push_def zrb_empty_def Let_def)
  have sh: "demo_shaper = ?sh\<lparr>normal_queue := snd (zrb_push 8192 zrb_empty [1, 2, 3])\<rparr>"
    using push by (simp add: demo_shaper_def enqueue_normal_def Let_def case_prod_unfold q)
  show "zrb_inv 8192 (normal_queue demo_shaper)" by (simp add: sh zrb_inv_push)
  show "queued demo_shaper = [[1, 2, 3]]"
    using zrb_push_items [of 8192 zrb_empty "[1, 2, 3]"] push by (simp add: sh)
  show "quiet demo_shaper" "bucket_ok (bucket demo_shaper)" "steady (bucket demo_shaper)"
    using demo_shaper_ok by (auto simp: shaper_ok_def sh quiet_def)
  show "tokens (bucket demo_shaper) = 100000"
    by (simp add: sh Shaper_new_def TokenBucket_new_def apply_new_rate_def steady_now_def Let_def)
qed

theorem process_queue_sends_in_order_witness:
  "\<exists>sh' w'. process_queue 3 demo_shaper (demo_world\<lparr>send_answer := \<lambda>k s. Sent s\<rparr>) = Some (sh', w') \<and>
    wire w' = [(3, [1, 2, 3])] \<and> queued sh' = []"
proof -
  let ?w = "demo_world\<lparr>send_answer := \<lambda>k s. Sent s\<rparr>"
  have w: "sends_return ?w" "atomic_sends ?w" by (auto simp: sends_return_def atomic_sends_def)
  obtain sh' w' rs where p: "process_queue 3 demo_shaper ?w = Some (sh', w')"
    and a: "answered ?w (sends ?w) [[1, 2, 3]] rs (sends w')"
    and r: "queued sh' = drop (length (filter (\<lambda>r. r \<noteq> Congested) rs)) [[1, 2, 3]]"
      "wire w' = wire ?w @ map (Pair 3) (sent_of [[1, 2, 3]] rs)"
    using process_queue_sends_in_order [OF demo_shaper_queue(1) w demo_shaper_queue(3), of 3] demo_shaper_queue(2) by auto
  have "queued sh' = []"
    using process_queue_empties [OF demo_shaper_queue(1,3) _ demo_shaper_queue(4,5), of ?w 3] p
    by (simp add: demo_shaper_queue(2,6))
  then have "rs \<noteq> []" using r(1) by auto
  with a have "rs = [Success]" by (auto elim!: answered.cases)
  then show ?thesis using p r by (simp add: sent_of_def demo_world_def)
qed

theorem enqueue_normal_accounts_witness:
  "\<exists>sh' w'. enqueue_normal [4] demo_shaper demo_world = (sh', w') \<and> queued sh' = [[1, 2, 3], [4]]"
proof -
  obtain sh' w' where eq: "enqueue_normal [4] demo_shaper demo_world = (sh', w')" by fastforce
  from enqueue_normal_accounts [OF demo_shaper_queue(1) eq] eq show ?thesis
    by (simp add: demo_shaper_queue(2))
qed

theorem shaper_rate_limit_witness:
  "\<exists>sh' w' new. shaper_run 3 [Enqueue [1, 2], Drain] (Shaper_new 8 demo_world) = Some (sh', w') \<and>
    wire w' = new \<and> real (total_bytes new) \<le> 100000"
proof -
  obtain sh w1 where new: "Shaper_new 8 demo_world = (sh, w1)" by fastforce
  have c: "clock demo_world k = 0" "wire demo_world = []" for k by (simp_all add: demo_world_def)
  from shaper_rate_limit [OF _ demo_world_ok new, of 3 "[Enqueue [1, 2], Drain]"] show ?thesis
    by (auto simp: new c dest: spec [of _ 0])
qed

theorem token_bucket_admits_witness:
  "fst (try_consume 1500 ((bucket demo_shaper)\<lparr>tokens := 0\<rparr>) (demo_world\<lparr>clock := \<lambda>k. 2000000\<rparr>))"
proof -
  have b: "last_refill (bucket demo_shaper) = 0" "rate_bytes_per_sec (bucket demo_shaper) = 1000000"
    by (simp_all add: demo_shaper_def enqueue_normal_def Shaper_new_def TokenBucket_new_def apply_new_rate_def
        steady_now_def demo_world_def Let_def case_prod_unfold)
  have "bucket_ok ((bucket demo_shaper)\<lparr>tokens := 0\<rparr>)" "steady ((bucket demo_shaper)\<lparr>tokens := 0\<rparr>)"
    using demo_shaper_queue(4,5) by (simp_all add: bucket_ok_def steady_def)
  then show ?thesis
    by (rule token_bucket_admits) (simp_all add: b)
qed

theorem process_queue_empties_witness:
  "\<exists>sh' w'. process_queue 3 demo_shaper (demo_world\<lparr>send_answer := \<lambda>k s. Sent s\<rparr>) = Some (sh', w') \<and>
    queued sh' = [] \<and> wire w' = [(3, [1, 2, 3])]"
  using process_queue_empties [OF demo_shaper_queue(1,3) _ demo_shaper_queue(4,5),
      of "demo_world\<lparr>send_answer := \<lambda>k s. Sent s\<rparr>" 3]
  by (simp add: demo_shaper_queue(2,6)) (simp add: demo_world_def)
end
