(* ===== verification/Headers_Util.thy ===== *)
theory Headers_Util
  imports Prelude
begin

text \<open>
  The wire formats and the packet parser of \<^verbatim>\<open>include/Headers_util.hpp\<close>.  A packed header struct
  is a base offset into the frame's bytes and one accessor per field; a pointer of
  \<^verbatim>\<open>ParsedPacket\<close> is an optional offset into \<open>raw_span\<close>, \<open>None\<close> for \<^verbatim>\<open>nullptr\<close>, so that a
  store through a pointer changes the frame itself, as it does in the code.
  The lemmas show that every pointer the parser hands out lies inside the span, header
  included, and characterise when it hands one out.
\<close>

section \<open>Wire formats\<close>

definition eth_proto_wire_to_host :: "u16 \<Rightarrow> u16" where
  "eth_proto_wire_to_host be = push_bit 8 be OR drop_bit 8 be"

datatype Priority = High | Normal

fun prio_index :: "Priority \<Rightarrow> nat" where
  "prio_index High = 0"
| "prio_index Normal = 1"

text \<open>\<^verbatim>\<open>sizeof\<close> of the packed headers.\<close>

abbreviation (input) sizeof_EthernetHeader :: nat where "sizeof_EthernetHeader \<equiv> 14"
abbreviation (input) sizeof_IPv4Header :: nat where "sizeof_IPv4Header \<equiv> 20"
abbreviation (input) sizeof_UDPHeader :: nat where "sizeof_UDPHeader \<equiv> 8"
abbreviation (input) sizeof_TCPHeader :: nat where "sizeof_TCPHeader \<equiv> 20"
abbreviation (input) sizeof_IcmpEchoHeader :: nat where "sizeof_IcmpEchoHeader \<equiv> 8"

text \<open>Field offsets: Ethernet \<^verbatim>\<open>dest[6], src[6], proto\<close>.\<close>

abbreviation (input) eth_dest_off :: "nat \<Rightarrow> nat" where "eth_dest_off e \<equiv> e"
abbreviation (input) eth_src_off :: "nat \<Rightarrow> nat" where "eth_src_off e \<equiv> e + 6"
abbreviation (input) eth_proto_off :: "nat \<Rightarrow> nat" where "eth_proto_off e \<equiv> e + 12"

text \<open>IPv4 \<^verbatim>\<open>ver_ihl, tos, tot_len, id, frag_off, ttl, protocol, check, saddr, daddr\<close>.\<close>

abbreviation (input) ip_ver_ihl_off :: "nat \<Rightarrow> nat" where "ip_ver_ihl_off i \<equiv> i"
abbreviation (input) ip_tos_off :: "nat \<Rightarrow> nat" where "ip_tos_off i \<equiv> i + 1"
abbreviation (input) ip_tot_len_off :: "nat \<Rightarrow> nat" where "ip_tot_len_off i \<equiv> i + 2"
abbreviation (input) ip_id_off :: "nat \<Rightarrow> nat" where "ip_id_off i \<equiv> i + 4"
abbreviation (input) ip_frag_off_off :: "nat \<Rightarrow> nat" where "ip_frag_off_off i \<equiv> i + 6"
abbreviation (input) ip_ttl_off :: "nat \<Rightarrow> nat" where "ip_ttl_off i \<equiv> i + 8"
abbreviation (input) ip_protocol_off :: "nat \<Rightarrow> nat" where "ip_protocol_off i \<equiv> i + 9"
abbreviation (input) ip_check_off :: "nat \<Rightarrow> nat" where "ip_check_off i \<equiv> i + 10"
abbreviation (input) ip_saddr_off :: "nat \<Rightarrow> nat" where "ip_saddr_off i \<equiv> i + 12"
abbreviation (input) ip_daddr_off :: "nat \<Rightarrow> nat" where "ip_daddr_off i \<equiv> i + 16"

text \<open>UDP \<^verbatim>\<open>source, dest, len, check\<close>; TCP \<^verbatim>\<open>source, dest, seq, ack_seq, res1_doff_flags,
  window, check, urg_ptr\<close>; ICMP echo \<^verbatim>\<open>type, code, check, id, sequence\<close>.\<close>

abbreviation (input) l4_source_off :: "nat \<Rightarrow> nat" where "l4_source_off u \<equiv> u"
abbreviation (input) l4_dest_off :: "nat \<Rightarrow> nat" where "l4_dest_off u \<equiv> u + 2"
abbreviation (input) udp_len_off :: "nat \<Rightarrow> nat" where "udp_len_off u \<equiv> u + 4"
abbreviation (input) udp_check_off :: "nat \<Rightarrow> nat" where "udp_check_off u \<equiv> u + 6"
abbreviation (input) tcp_flags_off :: "nat \<Rightarrow> nat" where "tcp_flags_off t \<equiv> t + 12"
abbreviation (input) tcp_check_off :: "nat \<Rightarrow> nat" where "tcp_check_off t \<equiv> t + 16"
abbreviation (input) icmp_type_off :: "nat \<Rightarrow> nat" where "icmp_type_off c \<equiv> c"
abbreviation (input) icmp_code_off :: "nat \<Rightarrow> nat" where "icmp_code_off c \<equiv> c + 1"
abbreviation (input) icmp_check_off :: "nat \<Rightarrow> nat" where "icmp_check_off c \<equiv> c + 2"
abbreviation (input) icmp_id_off :: "nat \<Rightarrow> nat" where "icmp_id_off c \<equiv> c + 4"
abbreviation (input) icmp_sequence_off :: "nat \<Rightarrow> nat" where "icmp_sequence_off c \<equiv> c + 6"

section \<open>The parsed packet\<close>

record ParsedPacket =
  raw_span :: bytes
  eth :: "nat option"
  ipv4 :: "nat option"
  l4_protocol :: u8
  ihl :: nat
  l4_offset :: nat
  l4_header :: "nat option"

definition udp :: "ParsedPacket \<Rightarrow> nat option" where
  "udp p = (if l4_protocol p = 17 then l4_header p else None)"

definition tcp :: "ParsedPacket \<Rightarrow> nat option" where
  "tcp p = (if l4_protocol p = 6 then l4_header p else None)"

definition icmp_echo :: "ParsedPacket \<Rightarrow> nat option" where
  "icmp_echo p = (if l4_protocol p = 1 then l4_header p else None)"

definition is_valid_ipv4 :: "ParsedPacket \<Rightarrow> bool" where
  "is_valid_ipv4 p \<longleftrightarrow> ipv4 p \<noteq> None"

definition blank_packet :: "bytes \<Rightarrow> ParsedPacket" where
  "blank_packet span =
     \<lparr>raw_span = span, eth = None, ipv4 = None, l4_protocol = 0, ihl = 0, l4_offset = 0,
      l4_header = None\<rparr>"

definition parse :: "bytes \<Rightarrow> ParsedPacket" where
  "parse span =
     (let p = blank_packet span in
      if length span < sizeof_EthernetHeader then p
      else let p = p\<lparr>eth := Some 0\<rparr> in
      if eth_proto_wire_to_host (ld16 span (eth_proto_off 0)) \<noteq> 0x0800 then p
      else if length span < sizeof_EthernetHeader + sizeof_IPv4Header then p
      else
        let ip = sizeof_EthernetHeader;
            hl = unat (span ! ip_ver_ihl_off ip AND 0x0F) * 4;
            off = sizeof_EthernetHeader + hl;
            p = p\<lparr>ipv4 := Some ip, ihl := hl, l4_offset := off\<rparr> in
        if length span < off then p
        else
          let proto = span ! ip_protocol_off ip;
              p = p\<lparr>l4_protocol := proto\<rparr> in
          if proto = 17 \<and> length span \<ge> off + sizeof_UDPHeader then p\<lparr>l4_header := Some off\<rparr>
          else if proto = 6 \<and> length span \<ge> off + sizeof_TCPHeader then p\<lparr>l4_header := Some off\<rparr>
          else if proto = 1 \<and> length span \<ge> off + sizeof_IcmpEchoHeader then p\<lparr>l4_header := Some off\<rparr>
          else p)"

section \<open>What the parser guarantees\<close>

lemma eth_proto_is_ntohs: "eth_proto_wire_to_host x = ntohs x"
  unfolding eth_proto_wire_to_host_def by (rule shift_swap_is_ntohs)

lemma blank_packet_simps [simp]:
  "raw_span (blank_packet s) = s" "eth (blank_packet s) = None" "ipv4 (blank_packet s) = None"
  "l4_protocol (blank_packet s) = 0" "ihl (blank_packet s) = 0" "l4_offset (blank_packet s) = 0"
  "l4_header (blank_packet s) = None"
  by (simp_all add: blank_packet_def)

lemma raw_span_parse [simp]: "raw_span (parse s) = s"
  by (simp add: parse_def Let_def)

text \<open>An IPv4 frame, as \<^verbatim>\<open>ParsedPacket::parse\<close> recognises it.\<close>

definition ipv4_frame :: "bytes \<Rightarrow> bool" where
  "ipv4_frame s \<longleftrightarrow> 34 \<le> length s \<and> ntohs (ld16 s 12) = 0x0800"

definition frame_l4_off :: "bytes \<Rightarrow> nat" where
  "frame_l4_off s = 14 + unat (s ! 14 AND 0x0F) * 4"

lemma ipv4_parse: "ipv4 (parse s) = (if ipv4_frame s then Some 14 else None)"
  by (simp add: parse_def Let_def ipv4_frame_def eth_proto_is_ntohs)

lemma eth_parse: "eth (parse s) = (if length s < 14 then None else Some 0)"
  by (simp add: parse_def Let_def)

lemma is_valid_ipv4_parse [simp]: "is_valid_ipv4 (parse s) = ipv4_frame s"
  by (simp add: is_valid_ipv4_def ipv4_parse)

lemma l4_protocol_parse:
  "l4_protocol (parse s) = (if ipv4_frame s \<and> frame_l4_off s \<le> length s then s ! 23 else 0)"
  by (auto simp: parse_def Let_def ipv4_frame_def frame_l4_off_def eth_proto_is_ntohs not_less)

lemma l4_offset_parse: "l4_offset (parse s) = (if ipv4_frame s then frame_l4_off s else 0)"
  by (auto simp: parse_def Let_def ipv4_frame_def frame_l4_off_def eth_proto_is_ntohs not_less)

lemma udp_parse:
  "udp (parse s) =
     (if ipv4_frame s \<and> s ! 23 = 17 \<and> frame_l4_off s + 8 \<le> length s
      then Some (frame_l4_off s) else None)"
  by (auto simp: parse_def Let_def ipv4_frame_def frame_l4_off_def eth_proto_is_ntohs udp_def
      not_less)

lemma tcp_parse:
  "tcp (parse s) =
     (if ipv4_frame s \<and> s ! 23 = 6 \<and> frame_l4_off s + 20 \<le> length s
      then Some (frame_l4_off s) else None)"
  by (auto simp: parse_def Let_def ipv4_frame_def frame_l4_off_def eth_proto_is_ntohs tcp_def
      not_less)

lemma icmp_echo_parse:
  "icmp_echo (parse s) =
     (if ipv4_frame s \<and> s ! 23 = 1 \<and> frame_l4_off s + 8 \<le> length s
      then Some (frame_l4_off s) else None)"
  by (auto simp: parse_def Let_def ipv4_frame_def frame_l4_off_def eth_proto_is_ntohs
      icmp_echo_def not_less)

lemmas parse_simps = ipv4_parse eth_parse l4_protocol_parse l4_offset_parse udp_parse tcp_parse
  icmp_echo_parse

text \<open>A pointer with room for \<open>n\<close> bytes in a span.\<close>

definition ptr_ok :: "bytes \<Rightarrow> nat option \<Rightarrow> nat \<Rightarrow> bool" where
  "ptr_ok s po n = (case po of None \<Rightarrow> True | Some a \<Rightarrow> a + n \<le> length s)"

lemma ptr_ok_None [simp]: "ptr_ok s None n"
  by (simp add: ptr_ok_def)

lemma ptr_ok_Some [simp]: "ptr_ok s (Some a) n \<longleftrightarrow> a + n \<le> length s"
  by (simp add: ptr_ok_def)

text \<open>C10: Memory safety of the parser: for every frame, each pointer of the parsed packet
  (Ethernet, IPv4, UDP, TCP and ICMP header) is null or addresses a header that lies
  entirely inside the frame.\<close>

theorem parse_in_bounds:
  "ptr_ok s (eth (parse s)) sizeof_EthernetHeader \<and>
   ptr_ok s (ipv4 (parse s)) sizeof_IPv4Header \<and>
   ptr_ok s (udp (parse s)) sizeof_UDPHeader \<and>
   ptr_ok s (tcp (parse s)) sizeof_TCPHeader \<and>
   ptr_ok s (icmp_echo (parse s)) sizeof_IcmpEchoHeader"
  by (simp add: parse_simps ipv4_frame_def)

end
