(* ===== verification/Processor.thy ===== *)
theory Processor
  imports Headers_Util
begin

text \<open>
  The traffic classifier of \<^verbatim>\<open>include/Processor.hpp\<close>: the flow key, the table of protocol handlers
  and \<^verbatim>\<open>HeuristicProcessor::process\<close>.  The main result characterises exactly which frames are
  given high priority.
\<close>

definition net16_to_host :: "u16 \<Rightarrow> u16" where
  "net16_to_host be = push_bit 8 be OR drop_bit 8 be"

record FlowKey =
  fk_saddr :: u32
  fk_daddr :: u32
  fk_sport :: u16
  fk_dport :: u16

text \<open>A handler reads the mutable global \<^verbatim>\<open>Config::LARGE_PACKET_THRESHOLD_BYTES\<close>, its first argument
  here.\<close>

type_synonym ProtocolHandler = "u32 \<Rightarrow> ParsedPacket \<Rightarrow> Priority"

definition handle_udp :: ProtocolHandler where
  "handle_udp large_threshold parsed =
     (case udp parsed of
        None \<Rightarrow> Normal
      | Some u \<Rightarrow>
          let dport = net16_to_host (ld16 (raw_span parsed) (l4_dest_off u));
              sport = net16_to_host (ld16 (raw_span parsed) (l4_source_off u)) in
          if dport = 53 \<or> sport = 53 then High
          else if length (raw_span parsed) < unat large_threshold then High else Normal)"

definition handle_tcp :: ProtocolHandler where
  "handle_tcp large_threshold parsed =
     (if length (raw_span parsed) < unat large_threshold then High else Normal)"

definition handle_icmp :: ProtocolHandler where
  "handle_icmp large_threshold parsed = High"

definition handle_default :: ProtocolHandler where
  "handle_default large_threshold parsed =
     (if length (raw_span parsed) < unat large_threshold then High else Normal)"

text \<open>The constructor fills a 256-entry table indexed by the protocol byte.\<close>

definition protocol_handlers :: "u8 \<Rightarrow> ProtocolHandler" where
  "protocol_handlers = (\<lambda>_. handle_default)(17 := handle_udp, 6 := handle_tcp, 1 := handle_icmp)"

definition process :: "u32 \<Rightarrow> ParsedPacket \<Rightarrow> Priority" where
  "process large_threshold parsed =
     (if \<not> is_valid_ipv4 parsed then Normal
      else protocol_handlers (l4_protocol parsed) large_threshold parsed)"

section \<open>The classification\<close>

lemma net16_to_host_is_ntohs: "net16_to_host x = ntohs x"
  unfolding net16_to_host_def by (rule shift_swap_is_ntohs)

lemmas handler_defs = handle_udp_def handle_tcp_def handle_icmp_def handle_default_def
  net16_to_host_is_ntohs

text \<open>The documented policy on a frame: ICMP, DNS and small packets are urgent.  A frame whose
  header length field points beyond its end has no protocol for the parser, and a UDP frame too
  short for its header is not urgent.\<close>

definition urgent :: "u32 \<Rightarrow> bytes \<Rightarrow> bool" where
  "urgent thr s \<longleftrightarrow>
     (let proto = (if frame_l4_off s \<le> length s then s ! 23 else 0);
          u = frame_l4_off s in
      if proto = 1 then True
      else if proto = 17 then
        u + 8 \<le> length s \<and>
        (ntohs (ld16 s (u + 2)) = 53 \<or> ntohs (ld16 s u) = 53 \<or> length s < unat thr)
      else length s < unat thr)"

text \<open>The classifier gives a frame high priority exactly when the frame is IPv4 and is ICMP, a
  complete UDP datagram to or from port 53, or shorter than the large-packet threshold (for UDP
  also complete); every other frame is Normal.\<close>

lemma process_High_iff: "process thr (parse s) = High \<longleftrightarrow> ipv4_frame s \<and> urgent thr s"
proof (cases "ipv4_frame s")
  case True
  then show ?thesis
    by (auto simp: process_def protocol_handlers_def handler_defs parse_simps urgent_def Let_def)
qed (simp add: process_def)

end
