(* ===== verification/Events.thy ===== *)
theory Events
  imports Scheduler Processor
begin

text \<open>
  The event callbacks of \<^verbatim>\<open>EventCallbacks_util.hpp\<close>, the telemetry subscriber of \<^verbatim>\<open>App.cpp\<close> and the shutdown
  latch of \<^verbatim>\<open>Lifecycle.hpp\<close>.  A subscriber is a record of functions on the world; a null pointer is \<open>None\<close>.
\<close>

section \<open>Subscribers and the registry\<close>

record PacketObserver =
  on_frame :: "bytes \<Rightarrow> World \<Rightarrow> World"
  on_packet :: "ParsedPacket \<Rightarrow> Priority \<Rightarrow> World \<Rightarrow> World"
  on_batch :: "BatchStats \<Rightarrow> int \<Rightarrow> World \<Rightarrow> World"
  on_tx_result :: "TxResult \<Rightarrow> nat \<Rightarrow> World \<Rightarrow> World"

record CallbackRegistry =
  observers :: "nat \<Rightarrow> PacketObserver option"
  observer_count :: nat
  frame_cb :: "(bytes \<Rightarrow> World \<Rightarrow> World) option"
  packet_cb :: "(ParsedPacket \<Rightarrow> Priority \<Rightarrow> World \<Rightarrow> World) option"
  batch_cb :: "(BatchStats \<Rightarrow> int \<Rightarrow> World \<Rightarrow> World) option"

definition MAX_OBSERVERS :: nat where
  "MAX_OBSERVERS = 8"

definition CallbackRegistry_init :: CallbackRegistry where
  "CallbackRegistry_init =
     \<lparr>observers = (\<lambda>_. None), observer_count = 0, frame_cb = None, packet_cb = None, batch_cb = None\<rparr>"

definition register_observer :: "PacketObserver option \<Rightarrow> CallbackRegistry \<Rightarrow> CallbackRegistry" where
  "register_observer observer r =
     (if observer \<noteq> None \<and> observer_count r < MAX_OBSERVERS
      then r\<lparr>observers := (observers r)(observer_count r := observer), observer_count := observer_count r + 1\<rparr>
      else r)"

definition set_frame_callback :: "(bytes \<Rightarrow> World \<Rightarrow> World) option \<Rightarrow> CallbackRegistry \<Rightarrow> CallbackRegistry" where
  "set_frame_callback cb r = r\<lparr>frame_cb := cb\<rparr>"

definition set_packet_callback :: "(ParsedPacket \<Rightarrow> Priority \<Rightarrow> World \<Rightarrow> World) option \<Rightarrow> CallbackRegistry \<Rightarrow> CallbackRegistry" where
  "set_packet_callback cb r = r\<lparr>packet_cb := cb\<rparr>"

definition set_batch_callback :: "(BatchStats \<Rightarrow> int \<Rightarrow> World \<Rightarrow> World) option \<Rightarrow> CallbackRegistry \<Rightarrow> CallbackRegistry" where
  "set_batch_callback cb r = r\<lparr>batch_cb := cb\<rparr>"

text \<open>The registered subscribers, in order of registration.\<close>

definition subscribers :: "CallbackRegistry \<Rightarrow> PacketObserver list" where
  "subscribers r = map (\<lambda>i. the (observers r i)) [0..<observer_count r]"

definition dispatch_frame :: "CallbackRegistry \<Rightarrow> bytes \<Rightarrow> World \<Rightarrow> World" where
  "dispatch_frame r frame w =
     (let w = fold (\<lambda>ob. on_frame ob frame) (subscribers r) w
      in case frame_cb r of None \<Rightarrow> w | Some cb \<Rightarrow> cb frame w)"

definition dispatch_packet :: "CallbackRegistry \<Rightarrow> ParsedPacket \<Rightarrow> Priority \<Rightarrow> World \<Rightarrow> World" where
  "dispatch_packet r pkt priority w =
     (let w = fold (\<lambda>ob. on_packet ob pkt priority) (subscribers r) w
      in case packet_cb r of None \<Rightarrow> w | Some cb \<Rightarrow> cb pkt priority w)"

definition dispatch_batch :: "CallbackRegistry \<Rightarrow> BatchStats \<Rightarrow> int \<Rightarrow> World \<Rightarrow> World" where
  "dispatch_batch r stats core w =
     (let w = fold (\<lambda>ob. on_batch ob stats core) (subscribers r) w
      in case batch_cb r of None \<Rightarrow> w | Some cb \<Rightarrow> cb stats core w)"

definition dispatch_tx_result :: "CallbackRegistry \<Rightarrow> TxResult \<Rightarrow> nat \<Rightarrow> World \<Rightarrow> World" where
  "dispatch_tx_result r result n w = fold (\<lambda>ob. on_tx_result ob result n) (subscribers r) w"

definition TelemetryObserver :: PacketObserver where
  "TelemetryObserver =
     \<lparr>on_frame = (\<lambda>_ w. w), on_packet = (\<lambda>_ _ w. w),
      on_batch = (\<lambda>stats core w. w\<lparr>tel := commit_batch stats core (tel w)\<rparr>),
      on_tx_result = (\<lambda>_ _ w. w)\<rparr>"

section \<open>Registration\<close>

text \<open>A registry never holds a null subscriber among those it calls, and at most eight.\<close>

definition registry_ok :: "CallbackRegistry \<Rightarrow> bool" where
  "registry_ok r \<longleftrightarrow> observer_count r \<le> MAX_OBSERVERS \<and> (\<forall>i < observer_count r. observers r i \<noteq> None)"

lemma registry_ok_init: "registry_ok CallbackRegistry_init"
  by (simp add: registry_ok_def CallbackRegistry_init_def)

lemma registry_ok_register: "registry_ok r \<Longrightarrow> registry_ok (register_observer ob r)"
  by (auto simp: registry_ok_def register_observer_def less_Suc_eq)

lemma subscribers_register:
  "subscribers (register_observer (Some ob) r) =
     (if observer_count r < MAX_OBSERVERS then subscribers r @ [ob] else subscribers r)"
  by (auto simp: subscribers_def register_observer_def)

text \<open>The registries of the application: the telemetry subscriber alone.\<close>

definition app_events :: CallbackRegistry where
  "app_events = register_observer (Some TelemetryObserver) CallbackRegistry_init"

lemma app_events_dispatch [simp]:
  "dispatch_frame app_events fr w = w" "dispatch_packet app_events pkt pr w = w" "dispatch_tx_result app_events res n w = w"
  "dispatch_batch app_events st core w = w\<lparr>tel := commit_batch st core (tel w)\<rparr>"
  by (simp_all add: app_events_def dispatch_frame_def dispatch_packet_def dispatch_tx_result_def dispatch_batch_def
      register_observer_def CallbackRegistry_init_def subscribers_def TelemetryObserver_def MAX_OBSERVERS_def)

section \<open>Shutdown\<close>

record Lifecycle =
  started :: bool
  complete :: bool

definition Lifecycle_init :: Lifecycle where
  "Lifecycle_init = \<lparr>started = False, complete = False\<rparr>"

definition begin_stop :: "Lifecycle \<Rightarrow> bool \<times> Lifecycle" where
  "begin_stop l = (\<not> started l, l\<lparr>started := True\<rparr>)"

definition mark_complete :: "Lifecycle \<Rightarrow> Lifecycle" where
  "mark_complete l = l\<lparr>complete := True\<rparr>"

text \<open>The condition \<^verbatim>\<open>wait\<close> waits for.\<close>

definition wait_done :: "Lifecycle \<Rightarrow> bool" where
  "wait_done l \<longleftrightarrow> complete l"

end
