(* ===== verification/Types_Util.thy ===== *)
theory Types_Util
  imports Prelude
begin

text \<open>
  IPv4 addresses (\<^verbatim>\<open>Types_util.hpp\<close>, \<^verbatim>\<open>Types_util.cpp\<close>) and their dotted-decimal text
  (\<^verbatim>\<open>parse_ip_str\<close> and \<^verbatim>\<open>ip_to_str\<close> of \<^verbatim>\<open>Config.hpp\<close>).  \<^verbatim>\<open>IPv4Net\<close> and \<^verbatim>\<open>IPv4Host\<close> are both the raw 32-bit
  word; the conversion between them is the byte swap.  \<open>inet_pton\<close> follows the C library: four
  decimal numbers up to 255 without superfluous zeros, separated by dots, read one character
  at a time.  The main results are the two round trips between addresses and text.
\<close>

section \<open>Addresses\<close>

definition to_host :: "u32 \<Rightarrow> u32" where
  "to_host net = ntohl net"

definition to_net :: "u32 \<Rightarrow> u32" where
  "to_net host = htonl host"

definition pool_advance :: "u32 \<Rightarrow> u32 \<Rightarrow> u32" where
  "pool_advance base_net offset = to_net (to_host base_net + offset)"

section \<open>Text\<close>

text \<open>A C string ends at its first NUL.\<close>

definition c_str :: "string \<Rightarrow> string" where
  "c_str s = takeWhile (\<lambda>c. c \<noteq> CHR 0x00) s"

definition is_digit :: "char \<Rightarrow> bool" where
  "is_digit c \<longleftrightarrow> 48 \<le> (of_char c :: nat) \<and> (of_char c :: nat) \<le> 57"

definition digit_val :: "char \<Rightarrow> nat" where
  "digit_val c = of_char c - 48"

definition digit_char :: "nat \<Rightarrow> char" where
  "digit_char d = char_of (48 + d)"

text \<open>\<open>octs\<close> are the numbers read so far, \<open>cur\<close> the one being read.\<close>

fun pton_loop :: "string \<Rightarrow> nat list \<Rightarrow> nat option \<Rightarrow> nat list option" where
  "pton_loop [] octs cur =
     (case cur of None \<Rightarrow> None | Some v \<Rightarrow> if length octs = 3 then Some (octs @ [v]) else None)"
| "pton_loop (c # s) octs cur =
     (if is_digit c then
        (case cur of
           None \<Rightarrow> if length octs \<ge> 4 then None else pton_loop s octs (Some (digit_val c))
         | Some v \<Rightarrow>
             if v = 0 then None
             else if v * 10 + digit_val c > 255 then None
             else pton_loop s octs (Some (v * 10 + digit_val c)))
      else if c = CHR ''.'' then
        (case cur of
           None \<Rightarrow> None
         | Some v \<Rightarrow> if length octs = 3 then None else pton_loop s (octs @ [v]) None)
      else None)"

text \<open>The bytes of \<^verbatim>\<open>in_addr\<close> in memory order, read as a word.\<close>

definition addr_of_octets :: "nat list \<Rightarrow> u32" where
  "addr_of_octets os =
     mk32 (mk16 (of_nat (os ! 3)) (of_nat (os ! 2))) (mk16 (of_nat (os ! 1)) (of_nat (os ! 0)))"

definition inet_pton :: "string \<Rightarrow> u32 option" where
  "inet_pton s = map_option addr_of_octets (pton_loop (c_str s) [] None)"

definition try_parse_ipv4 :: "string \<Rightarrow> u32 option" where
  "try_parse_ipv4 s = inet_pton s"

definition parse_ipv4 :: "string \<Rightarrow> u32" where
  "parse_ipv4 s = (case try_parse_ipv4 s of None \<Rightarrow> 0 | Some out \<Rightarrow> out)"

definition parse_ip_str :: "string \<Rightarrow> string + u32" where
  "parse_ip_str ip_sv =
     (if ip_sv = [] then Inl ''empty IPv4 string''
      else if length ip_sv > 15 then Inl ''IPv4 string too long''
      else case inet_pton ip_sv of
        None \<Rightarrow> Inl ''invalid IPv4 address''
      | Some a \<Rightarrow> Inr a)"

text \<open>Decimal output of an unsigned number.\<close>

fun dec :: "nat \<Rightarrow> string" where
  "dec n = (if n < 10 then [digit_char n] else dec (n div 10) @ [digit_char (n mod 10)])"

declare dec.simps [simp del]

definition ip_to_str :: "u32 \<Rightarrow> string" where
  "ip_to_str ip =
     dec (unat (ip AND 0xFF)) @ ''.'' @ dec (unat (drop_bit 8 ip AND 0xFF)) @ ''.'' @
     dec (unat (drop_bit 16 ip AND 0xFF)) @ ''.'' @ dec (unat (drop_bit 24 ip AND 0xFF))"

section \<open>Digits\<close>

lemma of_char_digit_char: "d < 10 \<Longrightarrow> (of_char (digit_char d) :: nat) = 48 + d"
  by (simp add: digit_char_def)

lemma digit_char_digit [simp]: "d < 10 \<Longrightarrow> is_digit (digit_char d)"
  by (simp add: is_digit_def of_char_digit_char)

lemma digit_val_digit_char [simp]: "d < 10 \<Longrightarrow> digit_val (digit_char d) = d"
  by (simp add: digit_val_def of_char_digit_char)

lemma digit_char_digit_val: "is_digit c \<Longrightarrow> digit_char (digit_val c) = c"
  by (auto simp: is_digit_def digit_char_def digit_val_def)

lemma digit_val_less: "is_digit c \<Longrightarrow> digit_val c < 10"
  by (auto simp: is_digit_def digit_val_def)

lemma digit_char_eval:
  "digit_char 0 = CHR ''0''" "digit_char (Suc 0) = CHR ''1''" "digit_char 2 = CHR ''2''" "digit_char 3 = CHR ''3''"
  "digit_char 4 = CHR ''4''" "digit_char 5 = CHR ''5''" "digit_char 6 = CHR ''6''"
  "digit_char 7 = CHR ''7''" "digit_char 8 = CHR ''8''" "digit_char 9 = CHR ''9''"
  by (simp_all add: digit_char_def char_of_def bit_0)

lemma dec_digits: "c \<in> set (dec n) \<Longrightarrow> is_digit c"
proof (induction n rule: dec.induct)
  case (1 n)
  then show ?case by (auto simp: dec.simps [of n] split: if_splits)
qed

lemma dec_nonempty [simp]: "dec n \<noteq> []"
  by (simp add: dec.simps [of n])

lemma dec_snoc: "v \<noteq> 0 \<Longrightarrow> d < 10 \<Longrightarrow> dec (v * 10 + d) = dec v @ [digit_char d]"
  by (simp add: dec.simps [of "v * 10 + d"])

lemma is_digit_not_special [simp]:
  "\<not> is_digit (CHR ''.'')" "\<not> is_digit (CHR 0x00)" "\<not> is_digit (CHR 0x0A)" "\<not> is_digit (CHR 0x0D)"
  by (simp_all add: is_digit_def)

section \<open>Round trips\<close>

lemma pton_dec:
  assumes "n \<le> 255" "length octs < 4"
  shows "pton_loop (dec n @ s) octs None = pton_loop s octs (Some n)"
  using assms
proof (induction n arbitrary: s rule: dec.induct)
  case (1 n)
  show ?case
  proof (cases "n < 10")
    case True
    then show ?thesis using "1.prems" by (simp add: dec.simps [of n])
  next
    case False
    then have "pton_loop (dec (n div 10) @ digit_char (n mod 10) # s) octs None =
        pton_loop (digit_char (n mod 10) # s) octs (Some (n div 10))"
      using "1.IH" "1.prems" by simp
    moreover have "n div 10 \<noteq> 0" "n div 10 * 10 + n mod 10 = n" using False by auto
    ultimately show ?thesis using False "1.prems" by (simp add: dec.simps [of n])
  qed
qed

text \<open>The text read so far.\<close>

definition read_text :: "nat list \<Rightarrow> nat option \<Rightarrow> string" where
  "read_text octs cur = concat (map (\<lambda>v. dec v @ ''.'') octs) @ (case cur of None \<Rightarrow> [] | Some v \<Rightarrow> dec v)"

lemma pton_canonical:
  assumes "pton_loop s octs cur = Some os" "\<forall>v \<in> set octs. v \<le> 255" "\<forall>v. cur = Some v \<longrightarrow> v \<le> 255"
  shows "length os = 4 \<and> (\<forall>v \<in> set os. v \<le> 255) \<and>
    read_text octs cur @ s = read_text (butlast os) (Some (last os))"
  using assms
proof (induction s octs cur rule: pton_loop.induct)
  case (1 octs cur)
  then show ?case by (auto split: option.splits if_splits)
next
  case (2 c s octs cur)
  show ?case
  proof (cases "is_digit c")
    case digit: True
    show ?thesis
    proof (cases cur)
      case None
      have "read_text octs (Some (digit_val c)) @ s = read_text octs cur @ c # s"
        using digit digit_val_less [OF digit] None
        by (simp add: read_text_def dec.simps [of "digit_val c"] digit_char_digit_val)
      then show ?thesis using 2 None digit digit_val_less [OF digit] by (auto split: if_splits)
    next
      case (Some v)
      then have v: "v \<noteq> 0" "v * 10 + digit_val c \<le> 255"
        using "2.prems"(1) digit by (auto split: if_splits)
      have "read_text octs (Some (v * 10 + digit_val c)) @ s = read_text octs cur @ c # s"
        using dec_snoc [OF v(1) digit_val_less [OF digit]] Some digit
        by (simp add: read_text_def digit_char_digit_val)
      then show ?thesis using 2 Some digit v by (auto split: if_splits)
    qed
  next
    case False
    then obtain v where "c = CHR ''.''" "cur = Some v" "length octs \<noteq> 3"
      using "2.prems"(1) by (auto split: if_splits option.splits)
    then show ?thesis using 2 False by (auto simp: read_text_def)
  qed
qed


text \<open>The four bytes of an address.\<close>

lemma mask8: "(x :: u32) AND 0xFF = take_bit 8 x"
  by (simp add: take_bit_eq_mask mask_eq_exp_minus_1)

lemma octet_words:
  "(ip :: u32) AND 0xFF = ucast (lo8 (lo16 ip))" "drop_bit 8 ip AND 0xFF = ucast (hi8 (lo16 ip))"
  "drop_bit 16 ip AND 0xFF = ucast (lo8 (hi16 ip))" "drop_bit 24 ip AND 0xFF = ucast (hi8 (hi16 ip))"
  unfolding mask8 by (rule bit_word_eqI; auto simp: bit_simps lo8_def hi8_def lo16_def hi16_def)+

lemma unat_ucast_u8_u32 [simp]: "unat (ucast (x :: u8) :: u32) = unat x"
  using unat_u8_less [of x] by (simp add: unsigned_ucast_eq take_bit_nat_eq_self del: unat_u8_less)

definition octets :: "u32 \<Rightarrow> nat list" where
  "octets ip = [unat (lo8 (lo16 ip)), unat (hi8 (lo16 ip)), unat (lo8 (hi16 ip)), unat (hi8 (hi16 ip))]"

lemma ip_to_str_octets: "ip_to_str ip = read_text (butlast (octets ip)) (Some (last (octets ip)))"
  unfolding ip_to_str_def octet_words(2-4) unfolding octet_words(1)
  by (simp add: read_text_def octets_def)

lemma addr_of_octets_octets [simp]: "addr_of_octets (octets ip) = ip"
  by (simp add: addr_of_octets_def octets_def)

lemma octets_addr_of_octets:
  assumes "length os = 4" "\<forall>v \<in> set os. v \<le> 255"
  shows "octets (addr_of_octets os) = os"
proof -
  obtain a b c d where os: "os = [a, b, c, d]"
    using assms(1) by (auto simp: numeral_eq_Suc length_Suc_conv)
  have "unat (of_nat v :: u8) = v" if "v \<le> 255" for v
    using that by (simp add: unat_of_nat take_bit_eq_mod)
  then show ?thesis using assms(2) by (simp add: os octets_def addr_of_octets_def)
qed

lemma octets_le: "v \<in> set (octets ip) \<Longrightarrow> v \<le> 255"
  using unat_u8_less by (fastforce simp: octets_def less_Suc_eq_le [symmetric])

lemma ip_to_str_no_nul: "c_str (ip_to_str ip) = ip_to_str ip"
proof -
  have "c \<noteq> CHR 0x00" if "c \<in> set (ip_to_str ip)" for c
    using that dec_digits by (fastforce simp: ip_to_str_def)
  then show ?thesis by (simp add: c_str_def takeWhile_eq_all_conv)
qed

lemma pton_ip_to_str: "pton_loop (ip_to_str ip) [] None = Some (octets ip)"
proof -
  have le: "unat (x :: u8) \<le> 255" for x using unat_u8_less [of x] by linarith
  show ?thesis
    unfolding ip_to_str_octets
    by (simp add: octets_def read_text_def pton_dec pton_dec [where s = "[]", simplified] le)
qed

lemma length_dec: "n \<le> 255 \<Longrightarrow> length (dec n) \<le> 3"
  by (simp add: dec.simps)

lemma length_ip_to_str: "length (ip_to_str ip) \<le> 15" "ip_to_str ip \<noteq> []"
proof -
  have "length (dec (unat x)) \<le> 3" for x :: u8
    using unat_u8_less [of x] by (intro length_dec) linarith
  from add_mono [OF add_mono [OF this this] add_mono [OF this this]]
  have "length (dec (unat (lo8 (lo16 ip)))) + length (dec (unat (hi8 (lo16 ip)))) +
      (length (dec (unat (lo8 (hi16 ip)))) + length (dec (unat (hi8 (hi16 ip))))) \<le> 12" by simp
  then show "length (ip_to_str ip) \<le> 15"
    by (simp add: ip_to_str_octets octets_def read_text_def)
  show "ip_to_str ip \<noteq> []" by (simp add: ip_to_str_def)
qed

lemma parse_ip_to_str: "parse_ip_str (ip_to_str ip) = Inr ip"
  using length_ip_to_str [of ip]
  by (simp add: parse_ip_str_def inet_pton_def ip_to_str_no_nul pton_ip_to_str)

lemma inet_pton_canonical:
  assumes "inet_pton s = Some ip"
  shows "c_str s = ip_to_str ip"
proof -
  obtain os where os: "pton_loop (c_str s) [] None = Some os" "ip = addr_of_octets os"
    using assms by (auto simp: inet_pton_def)
  from pton_canonical [OF os(1)] have
    "length os = 4" "\<forall>v \<in> set os. v \<le> 255" "c_str s = read_text (butlast os) (Some (last os))"
    by (auto simp: read_text_def)
  then show ?thesis using octets_addr_of_octets os(2) by (simp add: ip_to_str_octets)
qed

text \<open>Addresses and their text round-trip: printing an address and parsing the text gives the
  address back; and a text without NUL is accepted only if it is exactly what is printed for the
  address it denotes, so every address has one accepted spelling.\<close>

theorem ip_text_round_trip:
  "parse_ip_str (ip_to_str ip) = Inr ip \<and>
   (CHR 0x00 \<notin> set s \<and> parse_ip_str s = Inr ip \<longrightarrow> s = ip_to_str ip)"
proof -
  have "s = ip_to_str ip" if "CHR 0x00 \<notin> set s" "parse_ip_str s = Inr ip"
  proof -
    have "inet_pton s = Some ip" using that(2) by (auto simp: parse_ip_str_def split: if_splits option.splits)
    moreover have "c_str s = s" using that(1) by (auto simp: c_str_def takeWhile_eq_all_conv)
    ultimately show ?thesis using inet_pton_canonical by metis
  qed
  then show ?thesis using parse_ip_to_str by blast
qed

theorem ip_text_round_trip_witness:
  "parse_ip_str (ip_to_str 0x010CA8C0) = Inr 0x010CA8C0 \<and> ip_to_str 0x010CA8C0 = ''192.168.12.1''"
  using ip_text_round_trip [of "0x010CA8C0" "''192.168.12.1''"]
  by (simp add: ip_to_str_def dec.simps digit_char_eval)

section \<open>Pools of addresses\<close>

lemma to_host_pool_advance: "to_host (pool_advance base n) = to_host base + n"
  by (simp add: to_host_def pool_advance_def to_net_def)

lemma to_net_to_host [simp]: "to_net (to_host x) = x" "to_host (to_net x) = x"
  by (simp_all add: to_net_def to_host_def)

lemma to_host_eq_iff [simp]: "to_host x = to_host y \<longleftrightarrow> x = y"
  by (simp add: to_host_def)

end
