(* ===== verification/Network_Util.thy ===== *)
theory Network_Util
  imports Types_Util
begin

text \<open>
  The interface helpers of \<^verbatim>\<open>Network_util.cpp\<close>: interface queries and settings through ioctls, and
  the parsers of \<^verbatim>\<open>/proc/net/route\<close> and \<^verbatim>\<open>/proc/net/arp\<close>.  The kernel is a record of answers, each a
  function of the number of the system call, so nothing is assumed about how they change; what the
  program asks the kernel to change is appended to a log.  \<^verbatim>\<open>close\<close> has no effect the program can see.
\<close>

section \<open>The kernel\<close>

datatype net_effect =
    Set_addr string u32 | Set_mask string u32 | Set_flags string u16 | Ethtool string nat | Datagram u32 nat

record Net =
  calls :: nat
  socket_answer :: "nat \<Rightarrow> bool"
  ifaddr_answer :: "nat \<Rightarrow> string \<Rightarrow> u32 option"
  ifmask_answer :: "nat \<Rightarrow> string \<Rightarrow> u32 option"
  ifhw_answer :: "nat \<Rightarrow> string \<Rightarrow> (nat \<times> bytes) option"
  ifflags_answer :: "nat \<Rightarrow> string \<Rightarrow> u16 option"
  set_answer :: "nat \<Rightarrow> bool"
  route_file :: "nat \<Rightarrow> string option"
  arp_file :: "nat \<Rightarrow> string option"
  strerror :: "nat \<Rightarrow> string"
  effects :: "net_effect list"

definition net_ask :: "(Net \<Rightarrow> nat \<Rightarrow> 'a) \<Rightarrow> Net \<Rightarrow> 'a \<times> Net" where
  "net_ask f k = (f k (calls k), k\<lparr>calls := Suc (calls k)\<rparr>)"

text \<open>A request that changes something is logged, whether it succeeds or not.\<close>

definition net_set :: "net_effect \<Rightarrow> Net \<Rightarrow> bool \<times> Net" where
  "net_set e k = (set_answer k (calls k), k\<lparr>calls := Suc (calls k), effects := effects k @ [e]\<rparr>)"

text \<open>The interface name as it arrives in \<^verbatim>\<open>ifr_name\<close>.\<close>

definition ifr_name :: "string \<Rightarrow> string" where
  "ifr_name iface = c_str (take 15 iface)"

abbreviation inet_ntop :: "u32 \<Rightarrow> string" where
  "inet_ntop \<equiv> ip_to_str"

section \<open>Interface queries\<close>

lemma top_bit_u32: "(m :: u32) AND 0x80000000 \<noteq> 0 \<longleftrightarrow> 2147483648 \<le> unat m"
proof -
  have "m AND 2 ^ 31 \<noteq> 0 \<longleftrightarrow> bit (unat m) 31"
    by (simp only: and_exp_eq_0_iff_not_bit bit_unsigned_iff not_not) simp
  also have "\<dots> \<longleftrightarrow> odd (unat m div 2 ^ 31)" by (rule bit_iff_odd)
  also have "\<dots> \<longleftrightarrow> 2 ^ 31 \<le> unat m"
  proof -
    define x where "x = unat m div 2 ^ 31"
    have "x < 2" unfolding x_def using unsigned_less [of m] by (simp add: less_mult_imp_div_less)
    moreover have "x = 0 \<longleftrightarrow> \<not> 2 ^ 31 \<le> unat m" unfolding x_def by (simp add: div_eq_0_iff not_le)
    ultimately show ?thesis unfolding x_def [symmetric] by (auto simp: less_2_cases_iff)
  qed
  finally show ?thesis by simp
qed

lemma unat_shl_top:
  assumes "2147483648 \<le> unat (m :: u32)"
  shows "unat (2 * m) = 2 * (unat m - 2147483648)"
proof -
  have "unat (2 * m) = 2 * unat m mod 4294967296"
    by (simp add: unat_word_ariths)
  also have "2 * unat m = 2 * (unat m - 2147483648) + 4294967296" using assms by simp
  finally show ?thesis using unat_u32_less [of m] by (simp del: unat_u32_less)
qed

function prefix_loop :: "u32 \<Rightarrow> int \<Rightarrow> u32 \<times> int" where
  "prefix_loop m prefix =
     (if m AND 0x80000000 \<noteq> 0 then prefix_loop (push_bit 1 m) (prefix + 1) else (m, prefix))"
  by pat_completeness auto

termination
proof (relation "measure (\<lambda>(m, p). unat m)")
  fix m :: u32 and p :: int
  assume "m AND 0x80000000 \<noteq> 0"
  then have top: "2147483648 \<le> unat m" by (simp only: top_bit_u32)
  moreover have "unat (push_bit 1 m) = 2 * (unat m - 2147483648)"
    using unat_shl_top [OF top] by (simp add: mult.commute)
  ultimately show "((push_bit 1 m, p + 1), m, p) \<in> measure (\<lambda>(m, p). unat m)"
    using unat_u32_less [of m] by (simp del: unat_u32_less push_bit_Suc)
qed simp

declare prefix_loop.simps [simp del]

definition get_iface_ipv4_prefix_len :: "string \<Rightarrow> Net \<Rightarrow> int \<times> Net" where
  "get_iface_ipv4_prefix_len iface k =
     (case net_ask socket_answer k of
        (False, k) \<Rightarrow> (- 1, k)
      | (True, k) \<Rightarrow>
          (case net_ask (\<lambda>k n. ifmask_answer k n (ifr_name iface)) k of
             (None, k) \<Rightarrow> (- 1, k)
           | (Some s_addr, k) \<Rightarrow>
               let m = ntohl s_addr in
               if m = 0 then (- 1, k)
               else let (m, prefix) = prefix_loop m 0 in
               if m \<noteq> 0 then (- 1, k) else (prefix, k)))"

definition get_local_ip :: "string \<Rightarrow> Net \<Rightarrow> string \<times> Net" where
  "get_local_ip iface k =
     (case net_ask socket_answer k of
        (False, k) \<Rightarrow> ([], k)
      | (True, k) \<Rightarrow>
          (case net_ask (\<lambda>k n. ifaddr_answer k n (ifr_name iface)) k of
             (None, k) \<Rightarrow> ([], k)
           | (Some addr, k) \<Rightarrow> (inet_ntop addr, k)))"

text \<open>\<^verbatim>\<open>ARPHRD_ETHER\<close> is 1.\<close>

definition get_iface_hwaddr :: "string \<Rightarrow> Net \<Rightarrow> bytes option \<times> Net" where
  "get_iface_hwaddr iface k =
     (case net_ask socket_answer k of
        (False, k) \<Rightarrow> (None, k)
      | (True, k) \<Rightarrow>
          (case net_ask (\<lambda>k n. ifhw_answer k n (ifr_name iface)) k of
             (None, k) \<Rightarrow> (None, k)
           | (Some (family, sa_data), k) \<Rightarrow>
               if family \<noteq> 1 then (None, k) else (Some (take 6 sa_data), k)))"

section \<open>Scanning text\<close>

definition is_space :: "char \<Rightarrow> bool" where
  "is_space c \<longleftrightarrow> c = CHR '' '' \<or> 9 \<le> (of_char c :: nat) \<and> (of_char c :: nat) \<le> 13"

text \<open>The conversions \<^verbatim>\<open>%Ns\<close>, separated by blanks in the format: the words read before the first
  failure.\<close>

fun scan_words :: "nat list \<Rightarrow> string \<Rightarrow> string list" where
  "scan_words [] s = []"
| "scan_words (n # ns) s =
     (let s = dropWhile is_space s;
          w = take n (takeWhile (\<lambda>c. \<not> is_space c) s) in
      if w = [] then [] else w # scan_words ns (drop (length w) s))"

definition hex_val :: "char \<Rightarrow> nat option" where
  "hex_val c =
     (let v = of_char c :: nat in
      if 48 \<le> v \<and> v \<le> 57 then Some (v - 48)
      else if 97 \<le> v \<and> v \<le> 102 then Some (v - 87)
      else if 65 \<le> v \<and> v \<le> 70 then Some (v - 55)
      else None)"

text \<open>The conversion \<^verbatim>\<open>%x\<close>: blanks, a sign, the prefix \<^verbatim>\<open>0x\<close>, digits.  The digits are read as a 64-bit
  number, at most \<^verbatim>\<open>ULONG_MAX\<close>, of which the variable takes the low 32 bits.\<close>

definition scan_hex :: "string \<Rightarrow> (u32 \<times> string) option" where
  "scan_hex s =
     (let s = dropWhile is_space s;
          (neg, s) = (case s of c # s' \<Rightarrow> if c = CHR ''-'' then (True, s') else if c = CHR ''+'' then (False, s') else (False, s)
                      | [] \<Rightarrow> (False, s));
          (zero, s) = (case s of c # s' \<Rightarrow> if c = CHR ''0'' then
                                 (True, case s' of x # s'' \<Rightarrow> if x = CHR ''x'' \<or> x = CHR ''X'' then s'' else s' | [] \<Rightarrow> s')
                               else (False, s)
                       | [] \<Rightarrow> (False, s));
          ds = takeWhile (\<lambda>c. hex_val c \<noteq> None) s;
          v = foldl (\<lambda>v c. v * 16 + the (hex_val c)) 0 ds in
      if \<not> zero \<and> ds = [] then None
      else Some (if v \<ge> 2 ^ 64 then - 1 else if neg then - of_nat v else of_nat v, drop (length ds) s))"

text \<open>\<^verbatim>\<open>while (line < end && *line != '\n') ++line; if (line < end) ++line;\<close>\<close>

definition next_line :: "string \<Rightarrow> string" where
  "next_line s = drop 1 (dropWhile (\<lambda>c. c \<noteq> CHR 0x0A) s)"

lemma length_next_line: "s \<noteq> [] \<Longrightarrow> length (next_line s) < length s"
  using length_dropWhile_le [of "\<lambda>c. c \<noteq> CHR 0x0A" s] unfolding next_line_def
  by (cases s) (auto simp: less_Suc_eq_le)

section \<open>The routing table\<close>

definition zero_dest :: string where
  "zero_dest = ''00000000''"

function gateway_loop :: "string \<Rightarrow> string" where
  "gateway_loop line =
     (if line = [] then []
      else
        case scan_words [31, 15, 15] (c_str line) of
          [iface, dest, gw] \<Rightarrow>
            if dest = zero_dest then
              (case scan_hex gw of
                 Some (addr, r) \<Rightarrow> inet_ntop addr
               | None \<Rightarrow> gateway_loop (next_line line))
            else gateway_loop (next_line line)
        | _ \<Rightarrow> gateway_loop (next_line line))"
  by pat_completeness auto
termination
  by (relation "measure length") (auto simp: length_next_line)

declare gateway_loop.simps [simp del]

definition get_gateway_ip :: "Net \<Rightarrow> string \<times> Net" where
  "get_gateway_ip k =
     (case net_ask route_file k of
        (None, k) \<Rightarrow> ([], k)
      | (Some data, k) \<Rightarrow>
          let buf = take 2047 data in
          if buf = [] then ([], k) else (gateway_loop (next_line buf), k))"

function iface_gateway_loop :: "string \<Rightarrow> string \<Rightarrow> string" where
  "iface_gateway_loop iface line =
     (if line = [] then []
      else
        case scan_words [31, 15, 15] (c_str line) of
          [ifn, dest, gw] \<Rightarrow>
            if iface = ifn \<and> dest = zero_dest then
              (case scan_hex gw of
                 Some (addr, r) \<Rightarrow>
                   if addr \<noteq> 0 then inet_ntop addr else iface_gateway_loop iface (next_line line)
               | None \<Rightarrow> iface_gateway_loop iface (next_line line))
            else iface_gateway_loop iface (next_line line)
        | _ \<Rightarrow> iface_gateway_loop iface (next_line line))"
  by pat_completeness auto
termination
  by (relation "measure (\<lambda>(i, l). length l)") (auto simp: length_next_line)

declare iface_gateway_loop.simps [simp del]

definition get_default_gateway_for_iface :: "string \<Rightarrow> Net \<Rightarrow> string \<times> Net" where
  "get_default_gateway_for_iface iface k =
     (case net_ask route_file k of
        (None, k) \<Rightarrow> ([], k)
      | (Some data, k) \<Rightarrow>
          let buf = take 2047 data in
          if buf = [] then ([], k) else (iface_gateway_loop iface (next_line buf), k))"

section \<open>The ARP table\<close>

record ArpTableRow =
  row_ip :: u32
  row_mac :: bytes

fun scan_mac :: "nat \<Rightarrow> string \<Rightarrow> bytes option" where
  "scan_mac 0 s = None"
| "scan_mac (Suc n) s =
     (case scan_hex s of
        None \<Rightarrow> None
      | Some (v, s) \<Rightarrow>
          if n = 0 then Some [ucast v]
          else (case s of c # s \<Rightarrow> if c = CHR '':'' then map_option ((#) (ucast v)) (scan_mac n s) else None
                | [] \<Rightarrow> None))"

definition parse_mac_colon :: "string \<Rightarrow> bytes option" where
  "parse_mac_colon s = (if length s < 17 then None else scan_mac 6 (c_str (take 23 s)))"

definition arp_row :: "string \<Rightarrow> ArpTableRow option" where
  "arp_row line =
     (case scan_words [31, 7, 7, 19] (c_str line) of
        [ip, hw, flags, mac_str] \<Rightarrow>
          if flags \<noteq> ''0x0'' then
            (case inet_pton ip of
               None \<Rightarrow> None
             | Some addr \<Rightarrow>
                 (case parse_mac_colon mac_str of
                    None \<Rightarrow> None
                  | Some mac \<Rightarrow> Some \<lparr>row_ip = addr, row_mac = mac\<rparr>))
          else None
      | _ \<Rightarrow> None)"

function arp_loop :: "nat \<Rightarrow> string \<Rightarrow> ArpTableRow list" where
  "arp_loop room line =
     (if line = [] \<or> room = 0 then []
      else
        case arp_row line of
          Some row \<Rightarrow> row # arp_loop (room - 1) (next_line line)
        | None \<Rightarrow> arp_loop room (next_line line))"
  by pat_completeness auto
termination
  by (relation "measure (\<lambda>(r, l). length l)") (auto simp: length_next_line)

declare arp_loop.simps [simp del]

definition read_arp_table :: "nat \<Rightarrow> Net \<Rightarrow> ArpTableRow list \<times> Net" where
  "read_arp_table max_out k =
     (if max_out = 0 then ([], k)
      else case net_ask arp_file k of
        (None, k) \<Rightarrow> ([], k)
      | (Some data, k) \<Rightarrow>
          let buf = take 65535 data in
          if buf = [] then ([], k) else (arp_loop max_out (next_line buf), k))"

section \<open>Settings\<close>

definition force_arp_resolution :: "string \<Rightarrow> Net \<Rightarrow> Net" where
  "force_arp_resolution target_ip k =
     (case net_ask socket_answer k of
        (False, k) \<Rightarrow> k
      | (True, k) \<Rightarrow> snd (net_set (Datagram (case inet_pton target_ip of None \<Rightarrow> 0 | Some a \<Rightarrow> a) 33434) k))"

text \<open>\<^verbatim>\<open>ETHTOOL_SGRO, ETHTOOL_SGSO, ETHTOOL_STSO, ETHTOOL_SSG\<close>, each with the value 0.\<close>

definition offload_cmds :: "nat list" where
  "offload_cmds = [0x2C, 0x24, 0x1F, 0x19]"

definition set_offload :: "string \<Rightarrow> nat \<Rightarrow> bool \<times> Net \<Rightarrow> bool \<times> Net" where
  "set_offload iface cmd s =
     (case s of (success, k) \<Rightarrow>
        (case net_set (Ethtool (ifr_name iface) cmd) k of (ok, k) \<Rightarrow> (success \<and> ok, k)))"

definition disable_hardware_offloads :: "string \<Rightarrow> Net \<Rightarrow> bool \<times> Net" where
  "disable_hardware_offloads iface k =
     (case net_ask socket_answer k of
        (False, k) \<Rightarrow> (False, k)
      | (True, k) \<Rightarrow> fold (set_offload iface) offload_cmds (True, k))"

text \<open>\<^verbatim>\<open>IFNAMSIZ\<close> is 16, \<^verbatim>\<open>IFF_UP\<close> is 1.\<close>

definition set_iface_ipv4_and_prefix :: "string \<Rightarrow> string \<Rightarrow> int \<Rightarrow> Net \<Rightarrow> bool \<times> Net" where
  "set_iface_ipv4_and_prefix iface ipv4 prefix_len k =
     (if prefix_len \<le> 0 \<or> prefix_len > 32 then (False, k)
      else if length iface \<ge> 16 then (False, k)
      else case net_ask socket_answer k of
        (False, k) \<Rightarrow> (False, k)
      | (True, k) \<Rightarrow>
          (case inet_pton ipv4 of
             None \<Rightarrow> (False, k)
           | Some addr \<Rightarrow>
               (case net_set (Set_addr (ifr_name iface) addr) k of
                  (False, k) \<Rightarrow> (False, k)
                | (True, k) \<Rightarrow>
                    let mask_h = push_bit (nat (32 - prefix_len)) 0xFFFFFFFF in
                    (case net_set (Set_mask (ifr_name iface) (htonl mask_h)) k of
                       (False, k) \<Rightarrow> (False, k)
                     | (True, k) \<Rightarrow>
                         (case net_ask (\<lambda>k n. ifflags_answer k n (ifr_name iface)) k of
                            (None, k) \<Rightarrow> (True, k)
                          | (Some flags, k) \<Rightarrow> (True, snd (net_set (Set_flags (ifr_name iface) (flags OR 1)) k)))))))"

section \<open>Subnets\<close>

fun prefix_bits :: "nat \<Rightarrow> nat \<Rightarrow> u32 \<Rightarrow> u32 \<Rightarrow> nat" where
  "prefix_bits 0 p ha hb = p"
| "prefix_bits (Suc n) p ha hb =
     (if drop_bit (31 - p) ha AND 1 \<noteq> drop_bit (31 - p) hb AND 1 then p else prefix_bits n (p + 1) ha hb)"

definition infer_prefix_covering_pool :: "u32 \<Rightarrow> u32 \<Rightarrow> int" where
  "infer_prefix_covering_pool a b =
     (let ha = ntohl a; hb = ntohl b;
          (ha, hb) = (if ha > hb then (hb, ha) else (ha, hb)) in
      if ha = hb then 32 else int (prefix_bits 32 0 ha hb))"

definition ipv4_in_subnet :: "u32 \<Rightarrow> int \<Rightarrow> u32 \<Rightarrow> bool" where
  "ipv4_in_subnet ip prefix_len anchor =
     (if prefix_len < 0 \<or> prefix_len > 32 then False
      else
        let hi = ntohl ip; ha = ntohl anchor;
            mask = (if prefix_len = 0 then 0 else push_bit (nat (32 - prefix_len)) 0xFFFFFFFF)
        in hi AND mask = ha AND mask)"

end
