(* ===== verification/Network_Correct.thy ===== *)
theory Network_Correct
  imports Network_Util
begin

text \<open>
  Correctness of the interface helpers: subnets as intervals and the prefix derived for a pool, netmasks
  and the prefix length read from them, and the ARP parser on the table as the kernel prints it.
\<close>

section \<open>Prefixes and subnets\<close>

lemma mask_eq_iff:
  "(x :: u32) AND push_bit n 0xFFFFFFFF = y AND push_bit n 0xFFFFFFFF \<longleftrightarrow> drop_bit n x = drop_bit n y"
proof -
  have m: "(0xFFFFFFFF :: u32) = - 1" by simp
  show ?thesis
  proof
    assume eq: "x AND push_bit n 0xFFFFFFFF = y AND push_bit n 0xFFFFFFFF"
    show "drop_bit n x = drop_bit n y"
    proof (rule bit_word_eqI)
      fix i assume "i < LENGTH(32)"
      have "bit (x AND push_bit n (- 1)) (n + i) = bit (y AND push_bit n (- 1)) (n + i)" using eq m by simp
      then show "bit (drop_bit n x) i = bit (drop_bit n y) i"
        by (cases "n + i < 32") (auto simp: bit_simps dest: bit_imp_le_length)
    qed
  next
    assume eq: "drop_bit n x = drop_bit n y"
    show "x AND push_bit n 0xFFFFFFFF = y AND push_bit n 0xFFFFFFFF"
    proof (rule bit_word_eqI)
      fix i assume "i < LENGTH(32)"
      have "bit (drop_bit n x) (i - n) = bit (drop_bit n y) (i - n)" using eq by simp
      then show "bit (x AND push_bit n 0xFFFFFFFF) i = bit (y AND push_bit n 0xFFFFFFFF) i"
        unfolding m by (auto simp: bit_simps)
    qed
  qed
qed

lemma drop_bit_u32_eq_iff: "drop_bit n (x :: u32) = drop_bit n y \<longleftrightarrow> unat x div 2 ^ n = unat y div 2 ^ n"
proof -
  have "unat (drop_bit n z) = unat z div 2 ^ n" for z :: u32
    unfolding unat_drop_bit_eq by (simp add: drop_bit_eq_div)
  then show ?thesis by (metis unsigned_word_eqI)
qed

text \<open>Membership of a subnet, on host-order numbers.\<close>

lemma in_subnet_iff:
  assumes "p \<le> 32"
  shows "ipv4_in_subnet ip (int p) anchor \<longleftrightarrow>
    unat (ntohl ip) div 2 ^ (32 - p) = unat (ntohl anchor) div 2 ^ (32 - p)"
proof (cases "p = 0")
  case True
  have "unat (x :: u32) div 4294967296 = 0" for x by (simp add: div_eq_0_iff)
  then show ?thesis using True by (simp add: ipv4_in_subnet_def)
next
  case False
  then show ?thesis
    using assms by (simp add: ipv4_in_subnet_def Let_def mask_eq_iff drop_bit_u32_eq_iff nat_diff_distrib)
qed

lemma low_bit_eq: "drop_bit k (x :: u32) AND 1 = drop_bit k y AND 1 \<longleftrightarrow> bit x k = bit y k"
  by (simp add: and_one_eq bit_iff_odd_drop_bit mod_2_eq_odd)

lemma prefix_bits_spec:
  assumes "p + n = 32"
  shows "prefix_bits n p x y \<ge> p \<and> prefix_bits n p x y \<le> 32 \<and>
    (\<forall>i. p \<le> i \<and> i < prefix_bits n p x y \<longrightarrow> bit x (31 - i) = bit y (31 - i)) \<and>
    (prefix_bits n p x y < 32 \<longrightarrow> bit x (31 - prefix_bits n p x y) \<noteq> bit y (31 - prefix_bits n p x y))"
  using assms
proof (induction n arbitrary: p)
  case (Suc n)
  show ?case
  proof (cases "bit x (31 - p) = bit y (31 - p)")
    case True
    let ?r = "prefix_bits n (p + 1) x y"
    have r: "prefix_bits (Suc n) p x y = ?r" using True by (simp add: low_bit_eq)
    have IH: "p + 1 \<le> ?r" "?r \<le> 32" "\<forall>i. p + 1 \<le> i \<and> i < ?r \<longrightarrow> bit x (31 - i) = bit y (31 - i)"
      "?r < 32 \<longrightarrow> bit x (31 - ?r) \<noteq> bit y (31 - ?r)"
      using Suc.IH [of "p + 1"] Suc.prems by auto
    have "bit x (31 - i) = bit y (31 - i)" if "p \<le> i" "i < ?r" for i
      using IH(3) True that by (cases "i = p") auto
    then show ?thesis unfolding r using IH(1,2,4) by auto
  next
    case False
    then show ?thesis using Suc.prems by (auto simp: low_bit_eq)
  qed
qed auto


lemma infer_prefix_agree:
  assumes "unat (ntohl a) < unat (ntohl b)"
  obtains p where "infer_prefix_covering_pool a b = int p" "p < 32"
    "unat (ntohl a) div 2 ^ (32 - p) = unat (ntohl b) div 2 ^ (32 - p)"
    "unat (ntohl a) div 2 ^ (31 - p) \<noteq> unat (ntohl b) div 2 ^ (31 - p)"
proof -
  let ?x = "ntohl a" and ?y = "ntohl b"
  define p where "p = prefix_bits 32 0 ?x ?y"
  have lt: "?x < ?y" using assms by (simp add: word_less_nat_alt)
  then have p: "infer_prefix_covering_pool a b = int p"
    by (auto simp: infer_prefix_covering_pool_def Let_def p_def)
  have spec: "p \<le> 32" "\<forall>i < p. bit ?x (31 - i) = bit ?y (31 - i)" "p < 32 \<longrightarrow> bit ?x (31 - p) \<noteq> bit ?y (31 - p)"
    using prefix_bits_spec [of 0 32 ?x ?y] unfolding p_def by auto
  have high: "bit ?x j = bit ?y j" if "32 - p \<le> j" for j
  proof (cases "j < 32")
    case True
    then show ?thesis using spec(2) [rule_format, of "31 - j"] that by auto
  next
    case False
    then show ?thesis by (auto dest: bit_imp_le_length)
  qed
  have "p \<noteq> 32"
  proof
    assume "p = 32"
    then have "?x = ?y" using high by (intro bit_word_eqI) simp
    then show False using lt by simp
  qed
  moreover have "drop_bit (32 - p) ?x = drop_bit (32 - p) ?y"
    using high by (intro bit_word_eqI) (simp add: bit_drop_bit_eq)
  moreover have "drop_bit (31 - p) ?x \<noteq> drop_bit (31 - p) ?y"
  proof
    assume "drop_bit (31 - p) ?x = drop_bit (31 - p) ?y"
    then have "bit (drop_bit (31 - p) ?x) 0 = bit (drop_bit (31 - p) ?y) 0" by simp
    then show False using spec \<open>p \<noteq> 32\<close> by (simp add: bit_drop_bit_eq)
  qed
  ultimately show thesis using that [OF p] spec(1) by (simp add: drop_bit_u32_eq_iff)
qed

lemma infer_prefix_covers:
  assumes "unat (ntohl a) \<le> unat (ntohl b)" "p = infer_prefix_covering_pool a b"
  shows "0 \<le> p \<and> p \<le> 32 \<and>
    (\<forall>x. unat (ntohl a) \<le> unat (ntohl x) \<and> unat (ntohl x) \<le> unat (ntohl b) \<longrightarrow> ipv4_in_subnet x p a) \<and>
    \<not> (p < 32 \<and> ipv4_in_subnet b (p + 1) a)"
proof (cases "unat (ntohl a) = unat (ntohl b)")
  case True
  then have "ntohl a = ntohl b" by (rule unsigned_word_eqI)
  then have "p = 32" using assms(2) by (simp add: infer_prefix_covering_pool_def)
  then show ?thesis using True in_subnet_iff [of 32] by simp
next
  case False
  then have "unat (ntohl a) < unat (ntohl b)" using assms(1) by simp
  then obtain q where q: "p = int q" "q < 32"
    "unat (ntohl a) div 2 ^ (32 - q) = unat (ntohl b) div 2 ^ (32 - q)"
    "unat (ntohl a) div 2 ^ (31 - q) \<noteq> unat (ntohl b) div 2 ^ (31 - q)"
    using infer_prefix_agree assms(2) by metis
  have "ipv4_in_subnet x p a" if "unat (ntohl a) \<le> unat (ntohl x)" "unat (ntohl x) \<le> unat (ntohl b)" for x
    using div_le_mono [OF that(1), of "2 ^ (32 - q)"] div_le_mono [OF that(2), of "2 ^ (32 - q)"] q
    by (simp add: in_subnet_iff)
  moreover have "\<not> ipv4_in_subnet b (p + 1) a"
    using in_subnet_iff [of "q + 1" b a] q by (simp add: algebra_simps)
  ultimately show ?thesis using q(1,2) by auto
qed

text \<open>The prefix the program derives for a DHCP pool is the longest one that works: every address
  between the two ends of the pool lies in the subnet of that length around the first address, and with one more
  bit the last address would not.\<close>

theorem infer_prefix_longest:
  assumes "unat (ntohl a) \<le> unat (ntohl b)" "p = infer_prefix_covering_pool a b"
  shows "0 \<le> p \<and> p \<le> 32 \<and>
    (\<forall>x. unat (ntohl a) \<le> unat (ntohl x) \<and> unat (ntohl x) \<le> unat (ntohl b) \<longrightarrow> ipv4_in_subnet x p a) \<and>
    \<not> (p < 32 \<and> ipv4_in_subnet b (p + 1) a)"
  by (rule infer_prefix_covers [OF assms])

lemma prefix_bits_numeral:
  "prefix_bits (numeral n) p ha hb =
     (if drop_bit (31 - p) ha AND 1 \<noteq> drop_bit (31 - p) hb AND 1 then p else prefix_bits (pred_numeral n) (p + 1) ha hb)"
  by (simp only: numeral_eq_Suc prefix_bits.simps)

theorem infer_prefix_longest_witness:
  "infer_prefix_covering_pool 0x010000A0 0x010000B8 = 3 \<and> ipv4_in_subnet 0x020000B0 3 0x010000A0"
proof -
  have "prefix_bits 32 0 0xA0000001 0xB8000001 = 3"
    by (simp add: prefix_bits_numeral)
  then have p: "infer_prefix_covering_pool 0x010000A0 0x010000B8 = 3"
    by (simp add: infer_prefix_covering_pool_def word_eval Let_def)
  show ?thesis using infer_prefix_longest [of "0x010000A0" "0x010000B8" 3] p by (simp add: word_eval)
qed

section \<open>Netmasks\<close>

definition netmask :: "nat \<Rightarrow> u32" where
  "netmask p = push_bit (32 - p) 0xFFFFFFFF"

lemma bit_netmask: "p \<le> 32 \<Longrightarrow> bit (netmask p) i \<longleftrightarrow> 32 - p \<le> i \<and> i < 32"
proof -
  have m: "(0xFFFFFFFF :: u32) = - 1" by simp
  show "p \<le> 32 \<Longrightarrow> ?thesis" unfolding netmask_def m by (auto simp: bit_simps)
qed

lemma top_bit_iff: "(m :: u32) AND 0x80000000 \<noteq> 0 \<longleftrightarrow> bit m 31"
proof -
  have "m AND 2 ^ 31 \<noteq> 0 \<longleftrightarrow> bit m 31" by (simp only: and_exp_eq_0_iff_not_bit not_not)
  then show ?thesis by simp
qed

lemma prefix_loop_shift:
  "\<exists>j \<le> 32. prefix_loop m q = (push_bit j m, q + int j) \<and> (\<forall>i < j. bit m (31 - i)) \<and> \<not> bit (push_bit j m) 31"
proof (induction m q rule: prefix_loop.induct)
  case (1 m q)
  show ?case
  proof (cases "bit m 31")
    case True
    then obtain j where j: "j \<le> 32" "prefix_loop (push_bit 1 m) (q + 1) = (push_bit j (push_bit 1 m), q + 1 + int j)"
      "\<forall>i < j. bit (push_bit 1 m) (31 - i)" "\<not> bit (push_bit j (push_bit 1 m)) 31"
      using 1 top_bit_iff [of m] by blast
    have "j \<noteq> 32"
    proof
      assume "j = 32"
      then have "bit (push_bit 1 m) 0" using j(3) [rule_format, of 31] by simp
      then show False by (simp only: bit_push_bit_iff) simp
    qed
    then have "j < 32" using j(1) by simp
    have "bit m (31 - i)" if "i < Suc j" for i
    proof (cases i)
      case 0
      then show ?thesis using True by simp
    next
      case (Suc i')
      then have "bit (push_bit 1 m) (31 - i')" using j(3) that by simp
      then have "bit m (31 - i' - 1)" by (simp only: bit_push_bit_iff)
      then show ?thesis using Suc by simp
    qed
    moreover have "prefix_loop m q = (push_bit (Suc j) m, q + int (Suc j))"
      using True j(2) top_bit_iff [of m] by (subst prefix_loop.simps) (simp add: algebra_simps)
    ultimately show ?thesis using j(4) \<open>j < 32\<close> by (intro exI [of _ "Suc j"]) simp
  next
    case False
    then show ?thesis using top_bit_iff [of m] by (intro exI [of _ 0]) (simp add: prefix_loop.simps)
  qed
qed

text \<open>The loop ends with zero exactly on the netmasks.\<close>

lemma prefix_loop_netmask:
  assumes "prefix_loop m 0 = (m', q)"
  shows "0 \<le> q" "q \<le> 32" "m' = 0 \<longleftrightarrow> m = netmask (nat q)"
    "p \<le> 32 \<Longrightarrow> m = netmask p \<Longrightarrow> q = int p"
proof -
  obtain j where j: "j \<le> 32" "m' = push_bit j m" "q = int j" "\<forall>i < j. bit m (31 - i)" "\<not> bit (push_bit j m) 31"
    using prefix_loop_shift [of m 0] assms by auto
  then show "0 \<le> q" "q \<le> 32" by auto
  have "push_bit j m = 0 \<longleftrightarrow> (\<forall>i < 32 - j. \<not> bit m i)"
  proof
    assume z: "push_bit j m = 0"
    show "\<forall>i < 32 - j. \<not> bit m i"
    proof (intro allI impI)
      fix i assume "i < 32 - j"
      moreover have "\<not> bit (push_bit j m) (i + j)" by (simp add: z)
      ultimately show "\<not> bit m i" by (simp add: bit_simps)
    qed
  next
    assume "\<forall>i < 32 - j. \<not> bit m i"
    then show "push_bit j m = 0" by (intro bit_word_eqI) (auto simp: bit_simps)
  qed
  also have "\<dots> \<longleftrightarrow> m = netmask j"
  proof
    assume low: "\<forall>i < 32 - j. \<not> bit m i"
    show "m = netmask j"
    proof (rule bit_word_eqI)
      fix i assume "i < LENGTH(32)"
      then show "bit m i = bit (netmask j) i"
        using low j(4) [rule_format, of "31 - i"] by (cases "i < 32 - j") (auto simp: bit_netmask [OF j(1)])
    qed
  next
    assume "m = netmask j"
    then show "\<forall>i < 32 - j. \<not> bit m i" by (simp add: bit_netmask [OF j(1)])
  qed
  finally show "m' = 0 \<longleftrightarrow> m = netmask (nat q)" using j by simp
  assume p: "p \<le> 32" "m = netmask p"
  have "\<not> j < p" using j(1,5) p by (auto simp: bit_push_bit_iff bit_netmask)
  moreover have "\<not> p < j" using j(4) [rule_format, of p] j(1) p by (auto simp: bit_netmask)
  ultimately show "q = int p" using j(3) by simp
qed

lemma netmask_inj: "p \<le> 32 \<Longrightarrow> q \<le> 32 \<Longrightarrow> netmask p = netmask q \<Longrightarrow> p = q"
proof -
  assume le: "p \<le> 32" "q \<le> 32" and eq: "netmask p = netmask q"
  have "32 - p \<le> i \<longleftrightarrow> 32 - q \<le> i" if "i < 32" for i
    using bit_netmask [OF le(1), of i] bit_netmask [OF le(2), of i] eq that by simp
  from this [of "32 - p"] this [of "32 - q"] show ?thesis using le by (cases "p = 0"; cases "q = 0") auto
qed

text \<open>The prefix length read from an interface is right: a mask of \<open>p\<close> leading ones gives \<open>p\<close>, and
  every other mask, the empty one included, is reported as an error.\<close>

theorem prefix_len_correct:
  assumes "socket_answer k (calls k)" "ifmask_answer k (Suc (calls k)) (ifr_name iface) = Some s"
  shows "(\<forall>p. 1 \<le> p \<and> p \<le> 32 \<longrightarrow> (fst (get_iface_ipv4_prefix_len iface k) = int p \<longleftrightarrow> ntohl s = netmask p)) \<and>
    (fst (get_iface_ipv4_prefix_len iface k) = - 1 \<longleftrightarrow> (\<forall>p. 1 \<le> p \<and> p \<le> 32 \<longrightarrow> ntohl s \<noteq> netmask p))"
proof -
  obtain m q where l: "prefix_loop (ntohl s) 0 = (m, q)" by fastforce
  have r: "fst (get_iface_ipv4_prefix_len iface k) = (if ntohl s = 0 \<or> m \<noteq> 0 then - 1 else q)"
    using assms by (simp add: get_iface_ipv4_prefix_len_def net_ask_def l)
  note L = prefix_loop_netmask [OF l]
  have n0: "netmask p = 0 \<longleftrightarrow> p = 0" if "p \<le> 32" for p
    using that bit_netmask [OF that, of 31] by (cases "p = 0") (auto simp: netmask_def push_bit_eq_mult)
  show ?thesis
  proof (cases "\<exists>p. 1 \<le> p \<and> p \<le> 32 \<and> ntohl s = netmask p")
    case True
    then obtain p where p: "1 \<le> p" "p \<le> 32" "ntohl s = netmask p" by blast
    then have q: "q = int p" "m = 0" "ntohl s \<noteq> 0" using L(3,4) n0 by auto
    then show ?thesis using r p netmask_inj [OF p(2)] by auto
  next
    case False
    then have "ntohl s = 0 \<or> m \<noteq> 0" using L(1-3) n0 [of "nat q"] by (metis One_nat_def Suc_leI nat_le_iff not_gr_zero numeral_eq_iff of_nat_numeral)
    then show ?thesis using r False by auto
  qed
qed

text \<open>A kernel with two interfaces.\<close>

definition demo_net :: Net where
  "demo_net = \<lparr>calls = 0, socket_answer = \<lambda>_. True,
     ifaddr_answer = \<lambda>_ n. if n = ''eth0'' then Some 0x0A0200C0 else if n = ''eth1'' then Some 0x010CA8C0 else None,
     ifmask_answer = \<lambda>_ n. Some 0x00FFFFFF, ifhw_answer = \<lambda>_ n. Some (1, [2, 0, 0, 0, 0, if n = ''eth0'' then 1 else 2]),
     ifflags_answer = \<lambda>_ _. Some 0x1000, set_answer = \<lambda>_. True, route_file = \<lambda>_. None, arp_file = \<lambda>_. None,
     strerror = \<lambda>_. [], effects = []\<rparr>"

theorem prefix_len_correct_witness: "fst (get_iface_ipv4_prefix_len ''eth0'' demo_net) = 24"
proof -
  have "fst (get_iface_ipv4_prefix_len ''eth0'' demo_net) = int 24 \<longleftrightarrow> ntohl 0x00FFFFFF = netmask 24"
    by (rule prefix_len_correct [THEN conjunct1, rule_format]) (simp_all add: demo_net_def)
  then show ?thesis by (simp add: netmask_def word_eval)
qed

section \<open>The ARP table as the kernel prints it\<close>

definition hex_char :: "nat \<Rightarrow> char" where
  "hex_char d = char_of (if d < 10 then 48 + d else 87 + d)"

definition hex2 :: "u8 \<Rightarrow> string" where
  "hex2 b = [hex_char (unat b div 16), hex_char (unat b mod 16)]"

fun mac_text :: "bytes \<Rightarrow> string" where
  "mac_text [] = []"
| "mac_text [b] = hex2 b"
| "mac_text (b # c # bs) = hex2 b @ '':'' @ mac_text (c # bs)"

lemma of_char_hex_char: "d < 16 \<Longrightarrow> (of_char (hex_char d) :: nat) = (if d < 10 then 48 + d else 87 + d)"
  by (simp add: hex_char_def)

lemma char_neqI: "(of_char c :: nat) \<noteq> of_char d \<Longrightarrow> c \<noteq> d"
  by blast

lemma hex_char_props:
  assumes "d < 16"
  shows "hex_val (hex_char d) = Some d" "\<not> is_space (hex_char d)" "hex_char d \<noteq> CHR ''-''" "hex_char d \<noteq> CHR ''+''"
    "hex_char d \<noteq> CHR ''x''" "hex_char d \<noteq> CHR ''X''" "hex_char d = CHR ''0'' \<longleftrightarrow> d = 0"
    "hex_char d \<noteq> CHR '':''" "hex_char d \<noteq> CHR 0x00" "hex_char d \<noteq> CHR 0x0A"
proof -
  note v = of_char_hex_char [OF assms]
  show "hex_val (hex_char d) = Some d" using assms by (auto simp: hex_val_def v)
  show "\<not> is_space (hex_char d)" using assms char_neqI [of "hex_char d" "CHR '' ''"] by (auto simp: is_space_def v)
  show "hex_char d \<noteq> CHR ''-''" "hex_char d \<noteq> CHR ''+''" "hex_char d \<noteq> CHR ''x''" "hex_char d \<noteq> CHR ''X''"
    "hex_char d \<noteq> CHR '':''" "hex_char d \<noteq> CHR 0x00" "hex_char d \<noteq> CHR 0x0A"
    using assms by (intro char_neqI; auto simp: v)+
  show "hex_char d = CHR ''0'' \<longleftrightarrow> d = 0"
  proof
    assume "hex_char d = CHR ''0''"
    then have "(of_char (hex_char d) :: nat) = 48" by simp
    then show "d = 0" using assms by (auto simp: v split: if_splits)
  next
    assume "d = 0"
    then have "(of_char (hex_char d) :: nat) = of_char (CHR ''0'')" using of_char_hex_char [of 0] by simp
    then show "hex_char d = CHR ''0''" by (simp only: of_char_eq_iff)
  qed
qed

lemma nibbles: "unat (b :: u8) div 16 < 16" "unat b mod 16 < 16" "unat b div 16 * 16 + unat b mod 16 = unat b"
  using unat_u8_less [of b] by (simp_all add: less_mult_imp_div_less)

lemma scan_hex_two:
  assumes "hex_val a = Some x" "hex_val c = Some y" "\<not> is_space a" "a \<noteq> CHR ''-''" "a \<noteq> CHR ''+''"
    and "c \<noteq> CHR ''x''" "c \<noteq> CHR ''X''" "a = CHR ''0'' \<longleftrightarrow> x = 0" "x * 16 + y < 2 ^ 64"
    and "takeWhile (\<lambda>c. hex_val c \<noteq> None) r = []"
  shows "scan_hex (a # c # r) = Some (of_nat (x * 16 + y), r)"
proof (cases "a = CHR ''0''")
  case True
  then show ?thesis using assms by (simp add: scan_hex_def Let_def)
next
  case False
  then show ?thesis using assms by (simp add: scan_hex_def Let_def)
qed

lemma scan_hex_hex2:
  assumes "r = [] \<or> hd r = CHR '':''"
  shows "scan_hex (hex2 b @ r) = Some (ucast b, r)"
proof -
  note h = hex_char_props [OF nibbles(1) [of b]] and l = hex_char_props [OF nibbles(2) [of b]]
  have r: "takeWhile (\<lambda>c. hex_val c \<noteq> None) r = []" using assms by (cases r) (auto simp: hex_val_def)
  have lt: "unat b < 2 ^ 64" using less_trans [OF unat_u8_less [of b], of "2 ^ 64"] by simp
  have "scan_hex (hex_char (unat b div 16) # hex_char (unat b mod 16) # r) =
      Some (of_nat (unat b div 16 * 16 + unat b mod 16), r)"
    using lt by (intro scan_hex_two h(1-4,7) l(1,5,6) r) (simp only: nibbles(3))
  then show ?thesis by (simp add: hex2_def)
qed

lemma ucast_u8_u32_u8: "ucast (ucast (b :: u8) :: u32) = b"
  by (rule bit_word_eqI) (simp add: bit_simps)

lemma hex2_chars: "c \<in> set (hex2 b) \<Longrightarrow> \<not> is_space c \<and> c \<noteq> CHR 0x00 \<and> c \<noteq> CHR 0x0A"
  using hex_char_props(2,9,10) [OF nibbles(1) [of b]] hex_char_props(2,9,10) [OF nibbles(2) [of b]]
  by (auto simp: hex2_def)

lemma scan_mac_text: "length m = n \<Longrightarrow> m \<noteq> [] \<Longrightarrow> scan_mac n (mac_text m) = Some m"
proof (induction m arbitrary: n rule: mac_text.induct)
  case (2 b)
  then show ?case using scan_hex_hex2 [of "[]" b] by (cases n) (simp_all add: ucast_u8_u32_u8)
next
  case (3 b c bs)
  then obtain n' where n: "n = Suc n'" "n' = length (c # bs)" by (cases n) simp_all
  then have "scan_mac n' (mac_text (c # bs)) = Some (c # bs)" using 3 by simp
  then show ?case using n scan_hex_hex2 [of "CHR '':'' # mac_text (c # bs)" b] by (simp add: ucast_u8_u32_u8)
qed simp

lemma length_mac_text: "m \<noteq> [] \<Longrightarrow> length (mac_text m) = 3 * length m - 1"
  by (induction m rule: mac_text.induct) (auto simp: hex2_def)

lemma mac_text_chars: "c \<in> set (mac_text m) \<Longrightarrow> \<not> is_space c \<and> c \<noteq> CHR 0x00 \<and> c \<noteq> CHR 0x0A"
proof (induction m rule: mac_text.induct)
  case (3 b d bs)
  then have "c \<in> set (hex2 b) \<or> c = CHR '':'' \<or> c \<in> set (mac_text (d # bs))" by auto
  moreover have "\<not> is_space (CHR '':'')" by (simp add: is_space_def)
  ultimately show ?case using 3(1) hex2_chars by auto
qed (auto dest: hex2_chars)

lemma parse_mac_text: "length m = 6 \<Longrightarrow> parse_mac_colon (mac_text m) = Some m"
proof -
  assume m: "length m = 6"
  then have ne: "m \<noteq> []" by auto
  have "length (mac_text m) = 17" using length_mac_text [OF ne] m by simp
  moreover have "c_str (mac_text m) = mac_text m"
    unfolding c_str_def using mac_text_chars by (simp add: takeWhile_eq_all_conv)
  moreover have "scan_mac 6 (mac_text m) = Some m" by (rule scan_mac_text [OF m ne])
  ultimately show ?thesis by (simp add: parse_mac_colon_def)
qed

definition blanks :: "nat \<Rightarrow> string" where
  "blanks n = replicate n (CHR '' '')"

record KernelArpEntry =
  ent_ip :: u32
  ent_flags :: nat
  ent_mac :: bytes
  ent_dev :: string

text \<open>A line of the table: the address padded to 17 columns, the hardware type, the flags, the hardware address,
  the mask and the device.\<close>

definition arp_line :: "KernelArpEntry \<Rightarrow> string" where
  "arp_line e =
     ip_to_str (ent_ip e) @ blanks (17 - length (ip_to_str (ent_ip e))) @
     ''0x1'' @ blanks 9 @ (''0x'' @ [hex_char (ent_flags e)]) @ blanks 9 @
     mac_text (ent_mac e) @ blanks 5 @ ''*'' @ blanks 8 @ ent_dev e @ [CHR 0x0A]"

definition arp_header :: string where
  "arp_header = ''IP address       HW type     Flags       HW address            Mask     Device'' @ [CHR 0x0A]"

definition arp_text :: "KernelArpEntry list \<Rightarrow> string" where
  "arp_text es = arp_header @ concat (map arp_line es)"

definition entry_ok :: "KernelArpEntry \<Rightarrow> bool" where
  "entry_ok e \<longleftrightarrow> ent_flags e < 16 \<and> length (ent_mac e) = 6 \<and> CHR 0x0A \<notin> set (ent_dev e) \<and> CHR 0x00 \<notin> set (ent_dev e)"

definition arp_rows :: "KernelArpEntry list \<Rightarrow> ArpTableRow list" where
  "arp_rows es = map (\<lambda>e. \<lparr>row_ip = ent_ip e, row_mac = ent_mac e\<rparr>) (filter (\<lambda>e. ent_flags e \<noteq> 0) es)"

lemma scan_word:
  assumes "w \<noteq> []" "\<forall>c \<in> set w. \<not> is_space c" "length w \<le> n" "is_space c"
  shows "scan_words (n # ns) (w @ c # r) = w # scan_words ns (c # r)"
proof -
  have d: "dropWhile is_space (w @ c # r) = w @ c # r" using assms by (cases w) auto
  have t: "takeWhile (\<lambda>c. \<not> is_space c) (w @ c # r) = w" using assms by (simp add: takeWhile_append2 takeWhile_append)
  have "0 < n" using assms(1,3) by (cases w) auto
  then show ?thesis using assms(1,3) by (simp add: d t Let_def)
qed

lemma scan_blanks: "scan_words ns (blanks n @ r) = scan_words ns r"
  by (cases ns) (simp_all add: blanks_def is_space_def dropWhile_append)

lemma ip_to_str_chars: "c \<in> set (ip_to_str ip) \<Longrightarrow> \<not> is_space c \<and> c \<noteq> CHR 0x00 \<and> c \<noteq> CHR 0x0A"
proof -
  have digit: "\<not> is_space c" if "is_digit c" for c using that by (auto simp: is_digit_def is_space_def)
  have "\<not> is_space (CHR ''.'')" by (simp add: is_space_def)
  moreover assume "c \<in> set (ip_to_str ip)"
  then have "is_digit c \<or> c = CHR ''.''" using dec_digits by (auto simp: ip_to_str_def)
  ultimately show ?thesis using digit [of c] by auto
qed

lemma blanks_Suc: "blanks (Suc n) = CHR '' '' # blanks n"
  by (simp add: blanks_def)

lemma is_space_blank [simp]: "is_space (CHR '' '')"
  by (simp add: is_space_def)

lemma scan_word_blanks:
  assumes "w \<noteq> []" "\<forall>c \<in> set w. \<not> is_space c" "length w \<le> n" "0 < m"
  shows "scan_words (n # ns) (w @ blanks m @ r) = w # scan_words ns r"
proof (cases m)
  case (Suc m')
  have "scan_words (n # ns) (w @ blanks m @ r) = w # scan_words ns (blanks m @ r)"
    using scan_word [OF assms(1-3), of "CHR '' ''"] by (simp add: Suc blanks_Suc)
  then show ?thesis by (simp only: scan_blanks)
qed (use assms in simp)

lemma c_str_append: "CHR 0x00 \<notin> set s \<Longrightarrow> c_str (s @ r) = s @ c_str r"
  unfolding c_str_def by (rule takeWhile_append2) auto

lemma arp_line_words:
  assumes "entry_ok e" "15 \<le> n"
  shows "scan_words [n, 7, 7, 19] (arp_line e @ r) =
    [ip_to_str (ent_ip e), ''0x1'', ''0x'' @ [hex_char (ent_flags e)], mac_text (ent_mac e)]"
proof -
  have f: "ent_flags e < 16" and m: "length (ent_mac e) = 6" using assms by (auto simp: entry_ok_def)
  have sp: "\<not> is_space (CHR ''0'')" "\<not> is_space (CHR ''x'')" "\<not> is_space (CHR ''1'')" by (simp_all add: is_space_def)
  have lm: "length (mac_text (ent_mac e)) = 17" using m by (subst length_mac_text) auto
  then have nm: "mac_text (ent_mac e) \<noteq> []" by auto
  have 1: "scan_words (n # ns) (ip_to_str (ent_ip e) @ blanks (17 - length (ip_to_str (ent_ip e))) @ s) =
      ip_to_str (ent_ip e) # scan_words ns s" for ns s
    using length_ip_to_str [of "ent_ip e"] ip_to_str_chars assms(2) by (intro scan_word_blanks) auto
  have 2: "scan_words (7 # ns) (''0x1'' @ blanks 9 @ s) = ''0x1'' # scan_words ns s" for ns s
    by (intro scan_word_blanks) (simp_all add: sp)
  have 3: "scan_words (7 # ns) (''0x'' @ [hex_char (ent_flags e)] @ blanks 9 @ s) =
      (''0x'' @ [hex_char (ent_flags e)]) # scan_words ns s" for ns s
  proof -
    have "scan_words (7 # ns) ((''0x'' @ [hex_char (ent_flags e)]) @ blanks 9 @ s) =
        (''0x'' @ [hex_char (ent_flags e)]) # scan_words ns s"
      by (intro scan_word_blanks) (simp_all add: sp hex_char_props(2) [OF f])
    then show ?thesis by (simp only: append_assoc)
  qed
  have 4: "scan_words [19] (mac_text (ent_mac e) @ blanks 5 @ s) = [mac_text (ent_mac e)]" for s
  proof -
    have "scan_words [19] (mac_text (ent_mac e) @ blanks 5 @ s) = mac_text (ent_mac e) # scan_words [] s"
      using mac_text_chars by (intro scan_word_blanks nm) (simp_all add: lm)
    then show ?thesis by simp
  qed
  show ?thesis unfolding arp_line_def append_assoc 1 2 3 4 ..
qed


lemma arp_line_plain:
  assumes "entry_ok e"
  shows "CHR 0x00 \<notin> set (arp_line e)" "CHR 0x0A \<notin> set (butlast (arp_line e))"
    "arp_line e = butlast (arp_line e) @ [CHR 0x0A]"
proof -
  let ?b = "ip_to_str (ent_ip e) @ blanks (17 - length (ip_to_str (ent_ip e))) @ ''0x1'' @ blanks 9 @
    (''0x'' @ [hex_char (ent_flags e)]) @ blanks 9 @ mac_text (ent_mac e) @ blanks 5 @ ''*'' @ blanks 8 @ ent_dev e"
  have l: "arp_line e = ?b @ [CHR 0x0A]" by (simp add: arp_line_def)
  have f: "ent_flags e < 16" using assms by (simp add: entry_ok_def)
  have "CHR 0x00 \<notin> set ?b \<and> CHR 0x0A \<notin> set ?b"
    using assms hex_char_props(9,10) [OF f] ip_to_str_chars [of _ "ent_ip e"] mac_text_chars [of _ "ent_mac e"]
    by (auto simp: entry_ok_def blanks_def)
  moreover have "set (arp_line e) = insert (CHR 0x0A) (set ?b)" "butlast (arp_line e) = ?b"
    unfolding l by (auto simp only: set_append butlast_snoc) simp_all
  ultimately show "CHR 0x00 \<notin> set (arp_line e)" "CHR 0x0A \<notin> set (butlast (arp_line e))"
    "arp_line e = butlast (arp_line e) @ [CHR 0x0A]"
    using l by (simp_all only: insert_iff) simp_all
qed

lemma next_line_append: "CHR 0x0A \<notin> set s \<Longrightarrow> next_line ((s @ [CHR 0x0A]) @ r) = r"
  unfolding next_line_def by (subst append_assoc, subst dropWhile_append2) auto

lemma arp_row_line:
  assumes "entry_ok e"
  shows "arp_row (arp_line e @ r) =
    (if ent_flags e = 0 then None else Some \<lparr>row_ip = ent_ip e, row_mac = ent_mac e\<rparr>)"
proof -
  have f: "ent_flags e < 16" and m: "length (ent_mac e) = 6" using assms by (auto simp: entry_ok_def)
  have "c_str (arp_line e @ r) = arp_line e @ c_str r" using arp_line_plain(1) [OF assms] by (rule c_str_append)
  moreover have "inet_pton (ip_to_str (ent_ip e)) = Some (ent_ip e)"
    by (simp add: inet_pton_def ip_to_str_no_nul pton_ip_to_str)
  ultimately show ?thesis
    unfolding arp_row_def by (simp add: arp_line_words [OF assms] parse_mac_text [OF m] hex_char_props(7) [OF f] del: scan_words.simps)
qed

lemma arp_loop_text:
  assumes "\<forall>e \<in> set es. entry_ok e"
  shows "arp_loop n (concat (map arp_line es)) = take n (arp_rows es)"
  using assms
proof (induction es arbitrary: n)
  case Nil
  then show ?case by (simp add: arp_loop.simps arp_rows_def)
next
  case (Cons e es)
  have ok: "entry_ok e" using Cons.prems by simp
  have ne: "arp_line e @ concat (map arp_line es) \<noteq> []" by (simp add: arp_line_def)
  have "next_line (arp_line e @ concat (map arp_line es)) = concat (map arp_line es)"
    using next_line_append [OF arp_line_plain(2) [OF ok], of "concat (map arp_line es)"] arp_line_plain(3) [OF ok] by simp
  then have "arp_loop n (arp_line e @ concat (map arp_line es)) =
      (if n = 0 then [] else if ent_flags e = 0 then arp_loop n (concat (map arp_line es))
       else \<lparr>row_ip = ent_ip e, row_mac = ent_mac e\<rparr> # arp_loop (n - 1) (concat (map arp_line es)))"
    using ne by (subst arp_loop.simps) (simp add: arp_row_line [OF ok] del: append_is_Nil_conv)
  then show ?case
    using Cons.IH Cons.prems by (cases n) (simp_all add: arp_rows_def)
qed

text \<open>Reading the ARP table as the kernel prints it yields exactly its complete entries, in order, with
  their addresses, up to the capacity asked for; incomplete entries (flags 0) are left out.\<close>

theorem read_arp_table_rows:
  assumes "arp_file k (calls k) = Some (arp_text es)" "length (arp_text es) \<le> 65535" "\<forall>e \<in> set es. entry_ok e"
  shows "fst (read_arp_table max_out k) = take max_out (arp_rows es)"
proof -
  have "next_line (arp_text es) = concat (map arp_line es)"
    unfolding arp_text_def arp_header_def by (rule next_line_append) simp
  moreover have "arp_text es \<noteq> []" by (simp add: arp_text_def arp_header_def)
  ultimately show ?thesis
    using assms(1,2) arp_loop_text [OF assms(3)] by (simp add: read_arp_table_def net_ask_def)
qed

definition demo_arp :: "KernelArpEntry list" where
  "demo_arp = [\<lparr>ent_ip = 0x640CA8C0, ent_flags = 2, ent_mac = [2, 0, 0, 0, 0, 0x64], ent_dev = ''eth1''\<rparr>,
     \<lparr>ent_ip = 0x650CA8C0, ent_flags = 0, ent_mac = [0, 0, 0, 0, 0, 0], ent_dev = ''eth1''\<rparr>,
     \<lparr>ent_ip = 0x010200C0, ent_flags = 2, ent_mac = [2, 0, 0, 0, 0, 0xFE], ent_dev = ''eth0''\<rparr>]"

lemma demo_arp_ok: "\<forall>e \<in> set demo_arp. entry_ok e" "length (arp_text demo_arp) \<le> 65535" "length (arp_text demo_arp) \<le> 4095"
proof -
  show "\<forall>e \<in> set demo_arp. entry_ok e" by (simp add: demo_arp_def entry_ok_def)
  have "length (arp_line e) \<le> 80 + length (ent_dev e)" if "entry_ok e" for e
  proof -
    have "length (mac_text (ent_mac e)) = 17"
      using that length_mac_text [of "ent_mac e"] by (cases "ent_mac e") (auto simp: entry_ok_def)
    then show ?thesis using length_ip_to_str(1) [of "ent_ip e"] by (simp add: arp_line_def blanks_def)
  qed
  from this [of "demo_arp ! 0"] this [of "demo_arp ! 1"] this [of "demo_arp ! 2"] \<open>\<forall>e \<in> set demo_arp. entry_ok e\<close>
  show "length (arp_text demo_arp) \<le> 65535" "length (arp_text demo_arp) \<le> 4095" by (simp_all add: demo_arp_def arp_text_def arp_header_def)
qed

theorem read_arp_table_rows_witness:
  "fst (read_arp_table 128 (demo_net\<lparr>arp_file := \<lambda>_. Some (arp_text demo_arp)\<rparr>)) =
     [\<lparr>row_ip = 0x640CA8C0, row_mac = [2, 0, 0, 0, 0, 0x64]\<rparr>, \<lparr>row_ip = 0x010200C0, row_mac = [2, 0, 0, 0, 0, 0xFE]\<rparr>]"
proof -
  have "fst (read_arp_table 128 (demo_net\<lparr>arp_file := \<lambda>_. Some (arp_text demo_arp)\<rparr>)) = take 128 (arp_rows demo_arp)"
    using demo_arp_ok by (intro read_arp_table_rows) (simp_all add: demo_net_def)
  then show ?thesis by (simp add: demo_arp_def arp_rows_def)
qed

end
