(* ===== verification/Config.thy ===== *)
theory Config
  imports Types_Util
begin

text \<open>
  The runtime configuration of \<^verbatim>\<open>Config.hpp\<close> and the text format of \<^verbatim>\<open>Config.cpp\<close>.  The global
  variables are one record.  \<open>load_config\<close> takes what the system calls returned (no such file, an
  error, or the bytes of the one \<^verbatim>\<open>read\<close>), \<open>save_text\<close> is what the sequence of \<^verbatim>\<open>dprintf\<close> calls writes.
  The main result is that loading a saved configuration restores it.
\<close>

section \<open>State\<close>

record Config =
  g_iface_wan :: string
  g_iface_lan :: string
  SAVE_ON_EXIT :: bool
  enable_nat :: bool
  ROUTER_IP :: string
  APPLY_ROUTER_IP_TO_LAN :: bool
  LAN_PREFIX_LEN :: int
  DHCP_POOL_START :: string
  DHCP_POOL_END :: string
  DHCP_LEASE_DURATION :: int
  ENABLE_ACCELERATION :: bool
  LARGE_PACKET_THRESHOLD_BYTES :: u32

definition Config_defaults :: Config where
  "Config_defaults =
     \<lparr>g_iface_wan = ''eth0'', g_iface_lan = ''eth1'', SAVE_ON_EXIT = True, enable_nat = True,
      ROUTER_IP = ''192.168.12.1'', APPLY_ROUTER_IP_TO_LAN = True, LAN_PREFIX_LEN = 24,
      DHCP_POOL_START = ''192.168.12.50'', DHCP_POOL_END = ''192.168.12.255'',
      DHCP_LEASE_DURATION = 86400, ENABLE_ACCELERATION = True,
      LARGE_PACKET_THRESHOLD_BYTES = 1000\<rparr>"

section \<open>Parsing\<close>

definition dec_val :: "string \<Rightarrow> nat" where
  "dec_val ds = foldl (\<lambda>v c. v * 10 + digit_val c) 0 ds"

text \<open>\<^verbatim>\<open>std::from_chars\<close> reads the longest run of digits and leaves the result alone when there is none
  or when the value does not fit.\<close>

definition parse_u32 :: "string \<Rightarrow> u32" where
  "parse_u32 s =
     (let ds = takeWhile is_digit (c_str s) in
      if ds = [] then 0 else if dec_val ds \<ge> 2 ^ 32 then 0 else of_nat (dec_val ds))"

definition parse_kv :: "string \<Rightarrow> nat \<Rightarrow> nat \<Rightarrow> (string \<times> string) option" where
  "parse_kv line key_cap val_cap =
     (if CHR ''='' \<notin> set line then None
      else
        let klen = length (takeWhile (\<lambda>c. c \<noteq> CHR ''='') line);
            vlen = length line - klen - 1 in
        if klen = 0 \<or> klen \<ge> key_cap \<or> vlen \<ge> val_cap then None
        else Some (c_str (take klen line), c_str (drop (klen + 1) line)))"

definition parse_flag :: "string \<Rightarrow> bool" where
  "parse_flag val \<longleftrightarrow> val = ''true'' \<or> val = ''1''"

definition apply_kv :: "string \<Rightarrow> string \<Rightarrow> Config \<Rightarrow> Config" where
  "apply_kv key val cfg =
     (if key = ''IFACE_WAN'' then cfg\<lparr>g_iface_wan := val\<rparr>
      else if key = ''IFACE_LAN'' then cfg\<lparr>g_iface_lan := val\<rparr>
      else if key = ''ROUTER_IP'' then cfg\<lparr>ROUTER_IP := val\<rparr>
      else if key = ''APPLY_ROUTER_IP_TO_LAN'' then cfg\<lparr>APPLY_ROUTER_IP_TO_LAN := parse_flag val\<rparr>
      else if key = ''LAN_PREFIX_LEN'' then cfg\<lparr>LAN_PREFIX_LEN := sint (parse_u32 val)\<rparr>
      else if key = ''ENABLE_ACCELERATION'' then cfg\<lparr>ENABLE_ACCELERATION := parse_flag val\<rparr>
      else if key = ''LARGE_PACKET_THRESHOLD''
      then cfg\<lparr>LARGE_PACKET_THRESHOLD_BYTES := parse_u32 val\<rparr>
      else if key = ''enable_nat'' then cfg\<lparr>enable_nat := parse_flag val\<rparr>
      else if key = ''DHCP_POOL_START'' then cfg\<lparr>DHCP_POOL_START := val\<rparr>
      else if key = ''DHCP_POOL_END'' then cfg\<lparr>DHCP_POOL_END := val\<rparr>
      else if key = ''DHCP_LEASE_SECONDS''
      then cfg\<lparr>DHCP_LEASE_DURATION := int (unat (parse_u32 val))\<rparr>
      else cfg)"

text \<open>One line, without its newline.\<close>

definition load_line :: "string \<Rightarrow> Config \<Rightarrow> Config" where
  "load_line line cfg =
     (let line = (if line \<noteq> [] \<and> last line = CHR 0x0D then butlast line else line) in
      if line \<noteq> [] \<and> hd line \<noteq> CHR ''#'' then
        case parse_kv line 64 256 of None \<Rightarrow> cfg | Some (key, val) \<Rightarrow> apply_kv key val cfg
      else cfg)"

function load_lines :: "string \<Rightarrow> Config \<Rightarrow> Config" where
  "load_lines p cfg =
     (if p = [] then cfg
      else
        let line = takeWhile (\<lambda>c. c \<noteq> CHR 0x0A) p
        in load_lines (drop (length line + 1) p) (load_line line cfg))"
  by pat_completeness auto
termination
  by (relation "measure (\<lambda>(p, cfg). length p)") (auto simp: diff_less)

declare load_lines.simps [simp del]

datatype file_read = NoEntry | OpenError string | Data string

definition load_config :: "string \<Rightarrow> file_read \<Rightarrow> Config \<Rightarrow> string + Config" where
  "load_config path r cfg =
     (case r of
        NoEntry \<Rightarrow> Inr cfg
      | OpenError e \<Rightarrow> Inl (''cannot open '' @ path @ '': '' @ e)
      | Data buf \<Rightarrow> if take 8191 buf = [] then Inr cfg else Inr (load_lines (take 8191 buf) cfg))"

section \<open>Printing\<close>

definition dec_int :: "int \<Rightarrow> string" where
  "dec_int i = (if i < 0 then ''-'' @ dec (nat (- i)) else dec (nat i))"

definition show_flag :: "bool \<Rightarrow> string" where
  "show_flag v = (if v then ''true'' else ''false'')"

abbreviation nl :: string where "nl \<equiv> [CHR 0x0A]"

definition save_text :: "Config \<Rightarrow> string" where
  "save_text cfg =
     ''# Auto-saved on shutdown'' @ nl @
     ''IFACE_WAN='' @ c_str (g_iface_wan cfg) @ nl @
     ''IFACE_LAN='' @ c_str (g_iface_lan cfg) @ nl @
     ''ROUTER_IP='' @ c_str (ROUTER_IP cfg) @ nl @
     ''APPLY_ROUTER_IP_TO_LAN='' @ show_flag (APPLY_ROUTER_IP_TO_LAN cfg) @ nl @
     ''LAN_PREFIX_LEN='' @ dec_int (LAN_PREFIX_LEN cfg) @ nl @
     ''ENABLE_ACCELERATION='' @ show_flag (ENABLE_ACCELERATION cfg) @ nl @
     ''LARGE_PACKET_THRESHOLD='' @ dec (unat (LARGE_PACKET_THRESHOLD_BYTES cfg)) @ nl @
     ''enable_nat='' @ show_flag (enable_nat cfg) @ nl @
     ''DHCP_POOL_START='' @ c_str (DHCP_POOL_START cfg) @ nl @
     ''DHCP_POOL_END='' @ c_str (DHCP_POOL_END cfg) @ nl @
     ''DHCP_LEASE_SECONDS='' @ dec (unat (of_int (DHCP_LEASE_DURATION cfg) :: u32)) @ nl"

text \<open>The file after a successful save; \<open>Some e\<close> is a failure of \<^verbatim>\<open>open\<close>.\<close>

definition save_config :: "string \<Rightarrow> string option \<Rightarrow> Config \<Rightarrow> string + string" where
  "save_config path open_error cfg =
     (case open_error of
        Some e \<Rightarrow> Inl (''cannot write '' @ path @ '': '' @ e)
      | None \<Rightarrow> Inr (save_text cfg))"


section \<open>Numbers\<close>

lemma dec_val_snoc: "dec_val (ds @ [c]) = dec_val ds * 10 + digit_val c"
  by (simp add: dec_val_def)

lemma dec_val_dec [simp]: "dec_val (dec n) = n"
proof (induction n rule: dec.induct)
  case (1 n)
  show ?case
  proof (cases "n < 10")
    case True
    then show ?thesis by (simp add: dec.simps [of n] dec_val_def)
  next
    case False
    then show ?thesis using 1 by (simp add: dec.simps [of n] dec_val_snoc)
  qed
qed

lemma c_str_dec [simp]: "c_str (dec n) = dec n"
proof -
  have "CHR 0x00 \<notin> set (dec n)" using dec_digits by fastforce
  then show ?thesis by (auto simp: c_str_def takeWhile_eq_all_conv)
qed

lemma parse_u32_dec: "n < 2 ^ 32 \<Longrightarrow> parse_u32 (dec n) = of_nat n"
proof -
  have "takeWhile is_digit (dec n) = dec n"
    using dec_digits by (simp add: takeWhile_eq_all_conv)
  then show "n < 2 ^ 32 \<Longrightarrow> parse_u32 (dec n) = of_nat n"
    unfolding parse_u32_def by (simp only: c_str_dec Let_def dec_val_dec dec_nonempty) simp
qed

lemma length_dec_le: "0 < k \<Longrightarrow> n < 10 ^ k \<Longrightarrow> length (dec n) \<le> k"
proof (induction k arbitrary: n)
  case (Suc k)
  show ?case
  proof (cases "n < 10")
    case True
    then show ?thesis by (simp add: dec.simps [of n])
  next
    case False
    then have "0 < k" using Suc.prems by (cases k) auto
    moreover have "n div 10 < 10 ^ k" using Suc.prems by (simp add: div_less_iff_less_mult mult.commute)
    ultimately show ?thesis using Suc.IH False by (simp add: dec.simps [of n])
  qed
qed simp

section \<open>Lines\<close>

text \<open>Text that survives a line of the file.\<close>

definition plain :: "string \<Rightarrow> bool" where
  "plain s \<longleftrightarrow> CHR 0x00 \<notin> set s \<and> CHR 0x0A \<notin> set s \<and> (s \<noteq> [] \<longrightarrow> last s \<noteq> CHR 0x0D) \<and> length s < 256"

lemma c_str_plain: "CHR 0x00 \<notin> set s \<Longrightarrow> c_str s = s"
  by (auto simp: c_str_def takeWhile_eq_all_conv)

lemma load_lines_line:
  assumes "CHR 0x0A \<notin> set line"
  shows "load_lines (line @ nl @ rest) cfg = load_lines rest (load_line line cfg)"
proof -
  have "takeWhile (\<lambda>c. c \<noteq> CHR 0x0A) (line @ nl @ rest) = line"
    using takeWhile_neq [OF assms] by simp
  then show ?thesis
    unfolding load_lines.simps [of "line @ nl @ rest"] by (simp add: Let_def)
qed

lemma load_lines_Nil [simp]: "load_lines [] cfg = cfg"
  by (simp add: load_lines.simps)

definition key_ok :: "string \<Rightarrow> bool" where
  "key_ok key \<longleftrightarrow> key \<noteq> [] \<and> CHR ''='' \<notin> set key \<and> CHR 0x00 \<notin> set key \<and> CHR 0x0A \<notin> set key \<and>
     hd key \<noteq> CHR ''#'' \<and> length key < 64"

lemma parse_kv_line:
  assumes "key_ok key" "plain val"
  shows "parse_kv (key @ ''='' @ val) 64 256 = Some (key, val)"
proof -
  have "takeWhile (\<lambda>c. c \<noteq> CHR ''='') (key @ ''='' @ val) = key"
    using assms(1) takeWhile_neq [of "CHR ''=''" key val] by (simp add: key_ok_def)
  then show ?thesis
    using assms by (simp add: parse_kv_def Let_def key_ok_def plain_def c_str_plain)
qed

lemma load_line_kv:
  assumes "key_ok key" "plain val"
  shows "load_line (key @ ''='' @ val) cfg = apply_kv key val cfg"
proof -
  have "last (key @ ''='' @ val) \<noteq> CHR 0x0D" "hd (key @ ''='' @ val) \<noteq> CHR ''#''"
    using assms by (auto simp: plain_def key_ok_def hd_append last_append)
  then show ?thesis using parse_kv_line [OF assms] by (simp add: load_line_def Let_def)
qed

lemma load_lines_kv:
  assumes "key_ok key" "plain val"
  shows "load_lines (key @ ''='' @ val @ nl @ rest) cfg = load_lines rest (apply_kv key val cfg)"
proof -
  have "CHR 0x0A \<notin> set (key @ ''='' @ val)" using assms by (auto simp: key_ok_def plain_def)
  from load_lines_line [OF this, of rest cfg] show ?thesis
    unfolding load_line_kv [OF assms] by simp
qed

lemma plain_dec: "n < 2 ^ 32 \<Longrightarrow> plain (dec n)"
proof -
  assume "n < 2 ^ 32"
  then have "length (dec n) \<le> 10" by (intro length_dec_le) simp_all
  moreover have "is_digit (last (dec n))" by (rule dec_digits [OF last_in_set [OF dec_nonempty]])
  then have "last (dec n) \<noteq> CHR 0x0D" by auto
  moreover have "CHR 0x00 \<notin> set (dec n)" "CHR 0x0A \<notin> set (dec n)" using dec_digits by fastforce+
  ultimately show "plain (dec n)" by (simp add: plain_def)
qed

lemma plain_flag: "plain (show_flag b)" "parse_flag (show_flag b) = b"
  by (simp_all add: plain_def show_flag_def parse_flag_def)

section \<open>Saving and loading\<close>

definition config_ok :: "Config \<Rightarrow> bool" where
  "config_ok cfg \<longleftrightarrow>
     plain (g_iface_wan cfg) \<and> plain (g_iface_lan cfg) \<and> plain (ROUTER_IP cfg) \<and>
     plain (DHCP_POOL_START cfg) \<and> plain (DHCP_POOL_END cfg) \<and>
     0 \<le> LAN_PREFIX_LEN cfg \<and> LAN_PREFIX_LEN cfg < 2 ^ 31 \<and>
     0 \<le> DHCP_LEASE_DURATION cfg \<and> DHCP_LEASE_DURATION cfg < 2 ^ 32"

lemma keys_ok:
  "key_ok ''IFACE_WAN''" "key_ok ''IFACE_LAN''" "key_ok ''ROUTER_IP''" "key_ok ''APPLY_ROUTER_IP_TO_LAN''"
  "key_ok ''LAN_PREFIX_LEN''" "key_ok ''ENABLE_ACCELERATION''" "key_ok ''LARGE_PACKET_THRESHOLD''"
  "key_ok ''enable_nat''" "key_ok ''DHCP_POOL_START''" "key_ok ''DHCP_POOL_END''" "key_ok ''DHCP_LEASE_SECONDS''"
  by (simp_all add: key_ok_def)

lemma load_lines_comment:
  "load_lines (''# Auto-saved on shutdown'' @ nl @ rest) cfg = load_lines rest cfg"
  by (subst load_lines_line) (simp_all add: load_line_def)

text \<open>Lines of the saved file, in order.\<close>

definition saved_pairs :: "Config \<Rightarrow> (string \<times> string) list" where
  "saved_pairs cfg =
     [(''IFACE_WAN'', g_iface_wan cfg), (''IFACE_LAN'', g_iface_lan cfg), (''ROUTER_IP'', ROUTER_IP cfg),
      (''APPLY_ROUTER_IP_TO_LAN'', show_flag (APPLY_ROUTER_IP_TO_LAN cfg)),
      (''LAN_PREFIX_LEN'', dec_int (LAN_PREFIX_LEN cfg)),
      (''ENABLE_ACCELERATION'', show_flag (ENABLE_ACCELERATION cfg)),
      (''LARGE_PACKET_THRESHOLD'', dec (unat (LARGE_PACKET_THRESHOLD_BYTES cfg))),
      (''enable_nat'', show_flag (enable_nat cfg)), (''DHCP_POOL_START'', DHCP_POOL_START cfg),
      (''DHCP_POOL_END'', DHCP_POOL_END cfg),
      (''DHCP_LEASE_SECONDS'', dec (unat (of_int (DHCP_LEASE_DURATION cfg) :: u32)))]"

definition pair_text :: "string \<times> string \<Rightarrow> string" where
  "pair_text kv = fst kv @ ''='' @ snd kv @ nl"

lemma save_text_pairs:
  assumes "config_ok cfg"
  shows "save_text cfg = ''# Auto-saved on shutdown'' @ nl @ concat (map pair_text (saved_pairs cfg))"
  using assms by (simp add: save_text_def saved_pairs_def pair_text_def config_ok_def plain_def c_str_plain)

lemma load_pairs:
  assumes "\<forall>kv \<in> set kvs. key_ok (fst kv) \<and> plain (snd kv)"
  shows "load_lines (concat (map pair_text kvs)) cfg = fold (\<lambda>kv. apply_kv (fst kv) (snd kv)) kvs cfg"
  using assms
proof (induction kvs arbitrary: cfg)
  case (Cons kv kvs)
  then show ?case
    using load_lines_kv [of "fst kv" "snd kv" "concat (map pair_text kvs)" cfg]
    by (simp add: pair_text_def [of kv])
qed simp

lemma saved_pairs_ok:
  assumes "config_ok cfg"
  shows "\<forall>kv \<in> set (saved_pairs cfg). key_ok (fst kv) \<and> plain (snd kv)"
proof -
  have "unat (x :: u32) < 2 ^ 32" for x by simp
  then have "plain (dec (unat x))" for x :: u32 by (rule plain_dec)
  moreover have "plain (dec_int (LAN_PREFIX_LEN cfg))"
    using assms plain_dec [of "nat (LAN_PREFIX_LEN cfg)"] by (simp add: config_ok_def dec_int_def nat_less_iff)
  ultimately show ?thesis
    using assms by (simp add: saved_pairs_def keys_ok plain_flag config_ok_def)
qed

lemma sint_of_nat_u32: "n < 2 ^ 31 \<Longrightarrow> sint (of_nat n :: u32) = int n"
  by (simp add: signed_of_nat signed_take_bit_int_eq_self)

lemma saved_numbers:
  assumes "config_ok cfg"
  shows "sint (parse_u32 (dec_int (LAN_PREFIX_LEN cfg))) = LAN_PREFIX_LEN cfg"
    "parse_u32 (dec (unat (LARGE_PACKET_THRESHOLD_BYTES cfg))) = LARGE_PACKET_THRESHOLD_BYTES cfg"
    "int (unat (parse_u32 (dec (unat (of_int (DHCP_LEASE_DURATION cfg) :: u32))))) = DHCP_LEASE_DURATION cfg"
proof -
  let ?n = "nat (LAN_PREFIX_LEN cfg)"
  have "?n < 2 ^ 31" "dec_int (LAN_PREFIX_LEN cfg) = dec ?n" "int ?n = LAN_PREFIX_LEN cfg"
    using assms by (auto simp: config_ok_def dec_int_def nat_less_iff)
  then show "sint (parse_u32 (dec_int (LAN_PREFIX_LEN cfg))) = LAN_PREFIX_LEN cfg"
    using parse_u32_dec [of ?n] sint_of_nat_u32 [of ?n] by simp
  have parse: "parse_u32 (dec (unat x)) = x" for x :: u32
    using parse_u32_dec [of "unat x"] by simp
  then show "parse_u32 (dec (unat (LARGE_PACKET_THRESHOLD_BYTES cfg))) = LARGE_PACKET_THRESHOLD_BYTES cfg" .
  have "int (unat (of_int (DHCP_LEASE_DURATION cfg) :: u32)) = DHCP_LEASE_DURATION cfg"
    using assms by (simp add: config_ok_def unsigned_of_int take_bit_int_eq_self)
  then show "int (unat (parse_u32 (dec (unat (of_int (DHCP_LEASE_DURATION cfg) :: u32))))) = DHCP_LEASE_DURATION cfg"
    by (simp only: parse)
qed

lemma load_saved_pairs:
  assumes "config_ok cfg"
  shows "fold (\<lambda>kv. apply_kv (fst kv) (snd kv)) (saved_pairs cfg) cfg0 = cfg\<lparr>SAVE_ON_EXIT := SAVE_ON_EXIT cfg0\<rparr>"
  using saved_numbers [OF assms]
  by (cases cfg; cases cfg0) (simp add: saved_pairs_def apply_kv_def plain_flag)

lemma length_saved_text:
  assumes "config_ok cfg"
  shows "length (save_text cfg) \<le> 8191"
proof -
  have "length (concat (map pair_text kvs)) \<le> 321 * length kvs"
    if "\<forall>kv \<in> set kvs. key_ok (fst kv) \<and> plain (snd kv)" for kvs
    using that by (induction kvs) (auto simp: pair_text_def key_ok_def plain_def)
  from this [OF saved_pairs_ok [OF assms]] show ?thesis
    by (simp add: save_text_pairs [OF assms] saved_pairs_def)
qed

lemma load_saved:
  assumes "config_ok cfg"
  shows "load_config path (Data (save_text cfg)) cfg0 = Inr (cfg\<lparr>SAVE_ON_EXIT := SAVE_ON_EXIT cfg0\<rparr>)"
proof -
  have "load_lines (save_text cfg) cfg0 = cfg\<lparr>SAVE_ON_EXIT := SAVE_ON_EXIT cfg0\<rparr>"
    unfolding save_text_pairs [OF assms] load_lines_comment load_pairs [OF saved_pairs_ok [OF assms]]
    by (rule load_saved_pairs [OF assms])
  moreover have "save_text cfg \<noteq> []" by (simp add: save_text_def)
  ultimately show ?thesis
    using length_saved_text [OF assms] by (simp add: load_config_def)
qed

text \<open>Saving and loading the configuration round-trips: when no text setting contains a NUL or a newline, ends
  in a carriage return or is longer than 255 characters, the prefix length is not negative and
  the lease time fits 32 bits, loading what was saved over any configuration restores every saved
  setting.\<close>

lemma config_save_load:
  assumes "config_ok cfg"
  shows "save_config path None cfg = Inr (save_text cfg) \<and>
    load_config path (Data (save_text cfg)) cfg0 = Inr (cfg\<lparr>SAVE_ON_EXIT := SAVE_ON_EXIT cfg0\<rparr>)"
  using load_saved [OF assms] by (simp add: save_config_def)

end
