(* ===== verification/ForwardingState.thy ===== *)
theory ForwardingState
  imports Network_Correct Config
begin

text \<open>
  The forwarding state of \<^verbatim>\<open>ForwardingState_util.cpp\<close>: the double-buffered snapshot of link-layer addresses
  used for rewriting Ethernet headers, and the lookup of the WAN address.
\<close>

section \<open>State\<close>

record ArpEntry =
  ip_nbo :: u32
  arp_mac :: bytes

record L2Snapshot =
  lan_hw :: bytes
  wan_hw :: bytes
  gw_hw :: bytes
  snap_wan_ip :: u32
  wan_prefix_len :: int
  arp :: "nat \<Rightarrow> ArpEntry"
  arp_count :: nat
  gw_hw_valid :: bool
  wan_cfg_valid :: bool
  default_gw_ip_configured :: bool
  ready :: bool

record ForwardingState =
  snaps :: "nat \<Rightarrow> L2Snapshot"
  active :: nat

definition MAX_ARP :: nat where
  "MAX_ARP = 128"

definition L2Snapshot_init :: L2Snapshot where
  "L2Snapshot_init =
     \<lparr>lan_hw = replicate 6 0, wan_hw = replicate 6 0, gw_hw = replicate 6 0, snap_wan_ip = 0, wan_prefix_len = - 1,
      arp = (\<lambda>_. \<lparr>ip_nbo = 0, arp_mac = replicate 6 0\<rparr>), arp_count = 0, gw_hw_valid = False,
      wan_cfg_valid = False, default_gw_ip_configured = False, ready = False\<rparr>"

definition ForwardingState_init :: ForwardingState where
  "ForwardingState_init = \<lparr>snaps = (\<lambda>_. L2Snapshot_init), active = 0\<rparr>"

section \<open>Operations\<close>

definition is_invalid_nat_wan :: "u32 \<Rightarrow> bool" where
  "is_invalid_nat_wan a = (if a = 0 then True else drop_bit 24 (ntohl a) = 127)"

definition resolve_nat_wan_ip :: "Config \<Rightarrow> Net \<Rightarrow> (string + u32) \<times> Net" where
  "resolve_nat_wan_ip cfg k =
     (let (s, k) = get_local_ip (g_iface_wan cfg) k in
      if s = [] then
        (Inl (''No IPv4 on WAN interface '' @ g_iface_wan cfg @
              '' (assign the WAN address with NetworkManager so the kernel owns it)''), k)
      else case parse_ip_str s of
        Inl e \<Rightarrow> (Inl (''WAN address parse failed: '' @ e), k)
      | Inr ip \<Rightarrow>
          if is_invalid_nat_wan ip then (Inl (''WAN interface has unusable address: '' @ s), k)
          else (Inr ip, k))"

definition snapshot :: "ForwardingState \<Rightarrow> L2Snapshot" where
  "snapshot st = snaps st (active st)"

definition resolve_mac_onlink :: "L2Snapshot \<Rightarrow> u32 \<Rightarrow> bytes option" where
  "resolve_mac_onlink snap dst_ip_nbo =
     map_option (\<lambda>i. arp_mac (arp snap i)) (find (\<lambda>i. ip_nbo (arp snap i) = dst_ip_nbo) [0..<arp_count snap])"

definition copy_arp :: "ArpTableRow list \<Rightarrow> L2Snapshot \<Rightarrow> L2Snapshot" where
  "copy_arp rows snap =
     (let ac = min (length rows) MAX_ARP;
          snap = snap\<lparr>arp_count := ac\<rparr>
      in snap\<lparr>arp := fold (\<lambda>i a. a(i := \<lparr>ip_nbo = row_ip (rows ! i), arp_mac = row_mac (rows ! i)\<rparr>))
                       [0..<ac] (arp snap)\<rparr>)"

definition find_gw_hw :: "string \<Rightarrow> ArpTableRow list \<Rightarrow> L2Snapshot \<Rightarrow> L2Snapshot" where
  "find_gw_hw gw_ip rows snap =
     (let snap = snap\<lparr>gw_hw_valid := False\<rparr> in
      if gw_ip \<noteq> [] then
        (case inet_pton gw_ip of
           None \<Rightarrow> snap
         | Some gw_nbo \<Rightarrow>
             (case find (\<lambda>r. row_ip r = gw_nbo) rows of
                None \<Rightarrow> snap
              | Some r \<Rightarrow> snap\<lparr>gw_hw := row_mac r, gw_hw_valid := True\<rparr>))
      else snap)"

definition refresh_l2 :: "Config \<Rightarrow> ForwardingState \<Rightarrow> Net \<Rightarrow> ForwardingState \<times> Net" where
  "refresh_l2 cfg st k =
     (let w = 1 - active st;
          snap = snaps st w;
          (lan, k) = get_iface_hwaddr (g_iface_lan cfg) k;
          snap = (case lan of None \<Rightarrow> snap | Some hw \<Rightarrow> snap\<lparr>lan_hw := hw\<rparr>);
          (wan, k) = get_iface_hwaddr (g_iface_wan cfg) k;
          snap = (case wan of None \<Rightarrow> snap | Some hw \<Rightarrow> snap\<lparr>wan_hw := hw\<rparr>);
          (pl, k) = get_iface_ipv4_prefix_len (g_iface_wan cfg) k;
          snap = snap\<lparr>wan_prefix_len := pl\<rparr>;
          (wip, k) = resolve_nat_wan_ip cfg k;
          snap = snap\<lparr>snap_wan_ip := (case wip of Inr ip \<Rightarrow> ip | Inl _ \<Rightarrow> 0)\<rparr>;
          snap = snap\<lparr>wan_cfg_valid := snap_wan_ip snap \<noteq> 0 \<and> \<not> is_invalid_nat_wan (snap_wan_ip snap) \<and>
                        wan_prefix_len snap \<ge> 0 \<and> wan_prefix_len snap \<le> 32\<rparr>;
          (gw_ip, k) = get_default_gateway_for_iface (g_iface_wan cfg) k;
          (gw_ip, k) = (if gw_ip = [] then get_gateway_ip k else (gw_ip, k));
          snap = snap\<lparr>default_gw_ip_configured := gw_ip \<noteq> []\<rparr>;
          k = (if gw_ip \<noteq> [] then force_arp_resolution gw_ip k else k);
          (rows, k) = read_arp_table MAX_ARP k;
          snap = find_gw_hw gw_ip rows snap;
          snap = copy_arp rows snap;
          snap = snap\<lparr>ready := lan \<noteq> None \<and> wan \<noteq> None \<and> (gw_hw_valid snap \<or> wan_cfg_valid snap)\<rparr>
      in (st\<lparr>snaps := (snaps st)(w := snap), active := w\<rparr>, k))"

section \<open>What a refresh publishes\<close>

lemma copy_arp_simps [simp]:
  "arp_count (copy_arp rows snap) = min (length rows) MAX_ARP"
  "i < min (length rows) MAX_ARP \<Longrightarrow> arp (copy_arp rows snap) i = \<lparr>ip_nbo = row_ip (rows ! i), arp_mac = row_mac (rows ! i)\<rparr>"
  "lan_hw (copy_arp rows snap) = lan_hw snap" "wan_hw (copy_arp rows snap) = wan_hw snap" "gw_hw (copy_arp rows snap) = gw_hw snap"
  "snap_wan_ip (copy_arp rows snap) = snap_wan_ip snap" "wan_prefix_len (copy_arp rows snap) = wan_prefix_len snap"
  "gw_hw_valid (copy_arp rows snap) = gw_hw_valid snap" "wan_cfg_valid (copy_arp rows snap) = wan_cfg_valid snap"
  "default_gw_ip_configured (copy_arp rows snap) = default_gw_ip_configured snap"
proof -
  have "fold (\<lambda>i a. a(i := f i)) [0..<n] a i = (if i < n then f i else a i)" for f :: "nat \<Rightarrow> ArpEntry" and n a i
    by (induction n) (auto simp: less_Suc_eq)
  then show "i < min (length rows) MAX_ARP \<Longrightarrow> arp (copy_arp rows snap) i = \<lparr>ip_nbo = row_ip (rows ! i), arp_mac = row_mac (rows ! i)\<rparr>"
    by (simp add: copy_arp_def Let_def)
qed (simp_all add: copy_arp_def Let_def)

lemma resolve_copied:
  "length rows \<le> MAX_ARP \<Longrightarrow> resolve_mac_onlink (copy_arp rows snap) ip = map_option row_mac (find (\<lambda>r. row_ip r = ip) rows)"
proof -
  assume le: "length rows \<le> MAX_ARP"
  then have n: "arp_count (copy_arp rows snap) = length rows"
    "\<And>i. i < length rows \<Longrightarrow> arp (copy_arp rows snap) i = \<lparr>ip_nbo = row_ip (rows ! i), arp_mac = row_mac (rows ! i)\<rparr>"
    by simp_all
  show ?thesis
  proof (cases "find (\<lambda>r. row_ip r = ip) rows")
    case None
    then have "find (\<lambda>i. ip_nbo (arp (copy_arp rows snap) i) = ip) [0..<length rows] = None"
      by (auto simp: find_upt_None n(2) find_None_iff)
    then show ?thesis using None by (simp only: resolve_mac_onlink_def n(1) option.map)
  next
    case (Some r)
    then obtain i where i: "i < length rows" "row_ip (rows ! i) = ip" "r = rows ! i" "\<forall>j < i. row_ip (rows ! j) \<noteq> ip"
      by (auto simp: find_Some_iff)
    then have "find (\<lambda>i. ip_nbo (arp (copy_arp rows snap) i) = ip) [0..<length rows] = Some i"
      by (auto simp: find_upt_Some n(2))
    then show ?thesis using Some i n(2) [OF i(1)] by (simp only: resolve_mac_onlink_def n(1) option.map ArpEntry.select_convs)
  qed
qed


text \<open>The calls leave the kernel's answers alone.\<close>

definition same_net :: "Net \<Rightarrow> Net \<Rightarrow> bool" where
  "same_net k k' \<longleftrightarrow> arp_file k' = arp_file k \<and> route_file k' = route_file k \<and> ifaddr_answer k' = ifaddr_answer k \<and>
     ifmask_answer k' = ifmask_answer k \<and> ifhw_answer k' = ifhw_answer k \<and> socket_answer k' = socket_answer k"

lemma same_net_refl [simp]: "same_net k k"
  by (simp add: same_net_def)

lemma same_net_trans: "same_net a b \<Longrightarrow> same_net b c \<Longrightarrow> same_net a c"
  by (simp add: same_net_def)

lemma same_net_ask [simp]: "same_net k (snd (net_ask f k))" "same_net k (snd (net_set e k))"
  by (simp_all add: same_net_def net_ask_def net_set_def)

lemma same_net_calls:
  "same_net k (snd (get_iface_hwaddr i k))" "same_net k (snd (get_iface_ipv4_prefix_len i k))"
  "same_net k (snd (get_local_ip i k))" "same_net k (snd (get_default_gateway_for_iface i k))"
  "same_net k (snd (get_gateway_ip k))" "same_net k (force_arp_resolution s k)"
  by (auto simp: get_iface_hwaddr_def get_iface_ipv4_prefix_len_def get_local_ip_def get_default_gateway_for_iface_def
      get_gateway_ip_def force_arp_resolution_def net_ask_def net_set_def same_net_def Let_def
      split: bool.split option.split prod.split)

lemma same_net_resolve: "same_net k (snd (resolve_nat_wan_ip cfg k))"
  using same_net_calls(3) [of k "g_iface_wan cfg"]
  by (auto simp: resolve_nat_wan_ip_def Let_def split: prod.split sum.split)

text \<open>The snapshot a refresh builds, in terms of what it read.\<close>

lemma refresh_l2_cases:
  assumes "refresh_l2 cfg st k = (st', k')"
  obtains rows snap lan wan gw k1 where
    "same_net k k1" "rows = fst (read_arp_table MAX_ARP k1)"
    "st' = st\<lparr>snaps := (snaps st)(1 - active st := (copy_arp rows (find_gw_hw gw rows snap))
        \<lparr>ready := lan \<noteq> None \<and> wan \<noteq> None \<and> (gw_hw_valid (find_gw_hw gw rows snap) \<or> wan_cfg_valid (find_gw_hw gw rows snap))\<rparr>),
        active := 1 - active st\<rparr>"
    "lan \<noteq> None \<Longrightarrow> lan_hw snap = the lan" "wan \<noteq> None \<Longrightarrow> wan_hw snap = the wan" "default_gw_ip_configured snap = (gw \<noteq> [])"
proof -
  obtain lan k2 where 1: "get_iface_hwaddr (g_iface_lan cfg) k = (lan, k2)" by fastforce
  obtain wan k3 where 2: "get_iface_hwaddr (g_iface_wan cfg) k2 = (wan, k3)" by fastforce
  obtain pl k4 where 3: "get_iface_ipv4_prefix_len (g_iface_wan cfg) k3 = (pl, k4)" by fastforce
  obtain wip k5 where 4: "resolve_nat_wan_ip cfg k4 = (wip, k5)" by fastforce
  obtain gw0 k6 where 5: "get_default_gateway_for_iface (g_iface_wan cfg) k5 = (gw0, k6)" by fastforce
  obtain gw k7 where 6: "(if gw0 = [] then get_gateway_ip k6 else (gw0, k6)) = (gw, k7)" by fastforce
  define k1 where "k1 = (if gw \<noteq> [] then force_arp_resolution gw k7 else k7)"
  obtain rows k9 where 7: "read_arp_table MAX_ARP k1 = (rows, k9)" by fastforce
  define snap where "snap = (case wan of None \<Rightarrow> id | Some hw \<Rightarrow> wan_hw_update (\<lambda>_. hw))
    ((case lan of None \<Rightarrow> id | Some hw \<Rightarrow> lan_hw_update (\<lambda>_. hw)) (snaps st (1 - active st)))"
  let ?s = "snap\<lparr>wan_prefix_len := pl, snap_wan_ip := (case wip of Inr ip \<Rightarrow> ip | Inl _ \<Rightarrow> 0),
    wan_cfg_valid := (case wip of Inr ip \<Rightarrow> ip | Inl _ \<Rightarrow> 0) \<noteq> 0 \<and> \<not> is_invalid_nat_wan (case wip of Inr ip \<Rightarrow> ip | Inl _ \<Rightarrow> 0) \<and>
      pl \<ge> 0 \<and> pl \<le> 32, default_gw_ip_configured := gw \<noteq> []\<rparr>"
  have net: "same_net k k1"
  proof -
    have "same_net k k2" "same_net k2 k3" "same_net k3 k4" "same_net k4 k5" "same_net k5 k6" "same_net k6 k7" "same_net k7 k1"
      using same_net_calls(1) [of k "g_iface_lan cfg"] same_net_calls(1) [of k2 "g_iface_wan cfg"]
        same_net_calls(2) [of k3 "g_iface_wan cfg"] same_net_resolve [of k4 cfg] same_net_calls(4) [of k5 "g_iface_wan cfg"]
        same_net_calls(5) [of k6] same_net_calls(6) [of k7 gw] 1 2 3 4 5 6
      by (auto simp: k1_def split: if_splits)
    then show ?thesis by (meson same_net_trans)
  qed
  have st': "st' = st\<lparr>snaps := (snaps st)(1 - active st := (copy_arp rows (find_gw_hw gw rows ?s))
        \<lparr>ready := lan \<noteq> None \<and> wan \<noteq> None \<and> (gw_hw_valid (find_gw_hw gw rows ?s) \<or> wan_cfg_valid (find_gw_hw gw rows ?s))\<rparr>),
        active := 1 - active st\<rparr>"
    using assms unfolding refresh_l2_def 1 2 3 4 5 6 7 k1_def [symmetric] Let_def prod.case
    by (cases lan; cases wan) (auto simp: snap_def 1 2 3 4 5 6 7 k1_def [symmetric])
  show thesis
    by (rule that [OF net _ st']) (use 7 in \<open>auto simp: snap_def split: option.split\<close>)
qed


lemma find_gw_hw_valid:
  "gw_hw_valid (find_gw_hw gw rows snap) \<longleftrightarrow>
     gw \<noteq> [] \<and> (\<exists>a r. inet_pton gw = Some a \<and> find (\<lambda>r. row_ip r = a) rows = Some r)"
  "gw \<noteq> [] \<Longrightarrow> inet_pton gw = Some a \<Longrightarrow> find (\<lambda>r. row_ip r = a) rows = Some r \<Longrightarrow> gw_hw (find_gw_hw gw rows snap) = row_mac r"
  "wan_cfg_valid (find_gw_hw gw rows snap) = wan_cfg_valid snap" "default_gw_ip_configured (find_gw_hw gw rows snap) = default_gw_ip_configured snap"
  by (auto simp: find_gw_hw_def Let_def split: option.splits)

text \<open>C24: A refresh works on the snapshot that is not in use: the one the data plane reads stays as it is until
  the new one is complete, and becomes the spare one then.  In the new snapshot an address resolves to the
  hardware address of the first complete entry for it in the kernel's ARP table, a valid gateway address is one
  of that table, and a snapshot is ready only when it has a way to reach the WAN.\<close>

theorem refresh_l2_snapshot:
  assumes "refresh_l2 cfg st k = (st', k')" "active st \<le> 1"
    and "arp_file k = (\<lambda>_. Some (arp_text es))" "length (arp_text es) \<le> 65535" "\<forall>e \<in> set es. entry_ok e"
  shows "active st' = 1 - active st \<and> snaps st' (active st) = snapshot st \<and>
    (\<forall>ip. resolve_mac_onlink (snapshot st') ip =
       map_option row_mac (find (\<lambda>r. row_ip r = ip) (take MAX_ARP (arp_rows es)))) \<and>
    (gw_hw_valid (snapshot st') \<longrightarrow>
       default_gw_ip_configured (snapshot st') \<and> (\<exists>r \<in> set (arp_rows es). gw_hw (snapshot st') = row_mac r)) \<and>
    (ready (snapshot st') \<longrightarrow> gw_hw_valid (snapshot st') \<or> wan_cfg_valid (snapshot st'))"
  using assms(1)
proof (cases rule: refresh_l2_cases)
  case (1 rows snap lan wan gw k1)
  have rows: "rows = take MAX_ARP (arp_rows es)"
    using 1(1,2) assms(3) read_arp_table_rows [OF _ assms(4,5), of k1 MAX_ARP] by (simp add: same_net_def)
  let ?s = "(copy_arp rows (find_gw_hw gw rows snap))
        \<lparr>ready := lan \<noteq> None \<and> wan \<noteq> None \<and> (gw_hw_valid (find_gw_hw gw rows snap) \<or> wan_cfg_valid (find_gw_hw gw rows snap))\<rparr>"
  have other: "active st \<noteq> 1 - active st" using assms(2) by (cases "active st") auto
  then have snap: "snapshot st' = ?s" "active st' = 1 - active st" "snaps st' (active st) = snapshot st"
    using 1(3) other by (auto simp: snapshot_def)
  have "length rows \<le> MAX_ARP" by (simp add: rows)
  then have "resolve_mac_onlink ?s ip = map_option row_mac (find (\<lambda>r. row_ip r = ip) rows)" for ip
    using resolve_copied by (simp add: resolve_mac_onlink_def)
  moreover have "gw_hw_valid ?s \<longrightarrow> default_gw_ip_configured ?s \<and> (\<exists>r \<in> set (arp_rows es). gw_hw ?s = row_mac r)"
  proof
    assume "gw_hw_valid ?s"
    then obtain a r where r: "gw \<noteq> []" "inet_pton gw = Some a" "find (\<lambda>r. row_ip r = a) rows = Some r"
      by (auto simp: find_gw_hw_valid(1))
    then have "r \<in> set rows" by (auto simp: find_Some_iff)
    then have "r \<in> set (arp_rows es)" using rows by (meson in_set_takeD)
    then show "default_gw_ip_configured ?s \<and> (\<exists>r \<in> set (arp_rows es). gw_hw ?s = row_mac r)"
      using find_gw_hw_valid(2) [OF r] 1(6) r(1) by (auto simp: find_gw_hw_valid)
  qed
  ultimately show ?thesis using snap(2,3) unfolding snap(1) by (simp add: rows)
qed

theorem refresh_l2_snapshot_witness:
  "\<exists>st' k'. refresh_l2 Config_defaults ForwardingState_init (demo_net\<lparr>arp_file := \<lambda>_. Some (arp_text demo_arp)\<rparr>) = (st', k') \<and>
     active st' = 1 \<and> resolve_mac_onlink (snapshot st') 0x640CA8C0 = Some [2, 0, 0, 0, 0, 0x64]"
proof -
  let ?k = "demo_net\<lparr>arp_file := \<lambda>_. Some (arp_text demo_arp)\<rparr>"
  obtain st' k' where r: "refresh_l2 Config_defaults ForwardingState_init ?k = (st', k')" by fastforce
  have "active st' = 1 \<and> resolve_mac_onlink (snapshot st') 0x640CA8C0 =
      map_option row_mac (find (\<lambda>r. row_ip r = 0x640CA8C0) (take MAX_ARP (arp_rows demo_arp)))"
    using refresh_l2_snapshot [OF r _ _ demo_arp_ok(2,1)] by (simp add: ForwardingState_init_def)
  then show ?thesis using r by (simp add: demo_arp_def arp_rows_def MAX_ARP_def)
qed

end
