(* ===== verification/Checksum.thy ===== *)
theory Checksum
  imports Prelude
begin

text \<open>
  Internet checksums: the incremental update of \<^verbatim>\<open>NatEngine.cpp\<close> (RFC 1624) and the reference
  computation of \<^verbatim>\<open>SelfTest.cpp\<close>.  Checksums are one's-complement sums of big-endian 16-bit words,
  so the lemmas work modulo 65535: an incremental update keeps the sum of a region that
  contains both the rewritten word and the checksum, hence a region that verified before
  verifies afterwards.
\<close>

section \<open>The incremental update\<close>

text \<open>The 16-bit complement is taken after promotion to \<^verbatim>\<open>int\<close> and masked; the last complement is
  taken on the 32-bit sum and truncated by the conversion to the \<^verbatim>\<open>uint16_t\<close> argument of
  \<^verbatim>\<open>htons\<close>.\<close>

definition update_checksum_16 :: "u16 \<Rightarrow> u16 \<Rightarrow> u16 \<Rightarrow> u16" where
  "update_checksum_16 check old_val new_val =
     (let sum = (NOT (ucast (ntohs check)) AND 0xFFFF) + (NOT (ucast (ntohs old_val)) AND 0xFFFF)
                + ucast (ntohs new_val) :: u32;
          sum = (sum AND 0xFFFF) + drop_bit 16 sum
      in htons (ucast (NOT (sum + drop_bit 16 sum))))"

definition update_checksum_32 :: "u16 \<Rightarrow> u32 \<Rightarrow> u32 \<Rightarrow> u16" where
  "update_checksum_32 check old_val new_val =
     (let check = update_checksum_16 check (lo16 old_val) (lo16 new_val)
      in update_checksum_16 check (hi16 old_val) (hi16 new_val))"

section \<open>The reference computation\<close>

definition be16 :: "bytes \<Rightarrow> nat \<Rightarrow> nat" where
  "be16 xs i = unat (ntohs (ld16 xs i))"

definition word_sum :: "bytes \<Rightarrow> nat \<Rightarrow> nat \<Rightarrow> nat" where
  "word_sum xs b n = (\<Sum>k<n. be16 xs (b + 2 * k))"

text \<open>\<^verbatim>\<open>while (sum >> 16) sum = (sum & 0xFFFF) + (sum >> 16)\<close>\<close>

function fold_carry :: "nat \<Rightarrow> nat" where
  "fold_carry s = (if s div 65536 = 0 then s else fold_carry (s mod 65536 + s div 65536))"
  by pat_completeness auto
termination
proof (relation "measure id")
  fix s :: nat
  assume "s div 65536 \<noteq> 0"
  moreover have "s = s div 65536 * 65536 + s mod 65536" by simp
  ultimately have "s mod 65536 + s div 65536 < s" by linarith
  then show "(s mod 65536 + s div 65536, s) \<in> measure id" by simp
qed simp

declare fold_carry.simps [simp del]

text \<open>\<^verbatim>\<open>fold_ip_header_checksum\<close>: ten words, so the 32-bit accumulator cannot overflow.\<close>

definition fold_ip_header_checksum :: "bytes \<Rightarrow> nat \<Rightarrow> u16" where
  "fold_ip_header_checksum xs ip = of_nat (65535 - fold_carry (word_sum xs ip 10))"

definition fold_icmp_checksum :: "bytes \<Rightarrow> nat \<Rightarrow> nat \<Rightarrow> u16" where
  "fold_icmp_checksum xs icmp icmp_len =
     (let sum = word_sum xs icmp (icmp_len div 2);
          sum = (if odd icmp_len then sum + unat (xs ! (icmp + icmp_len - 1)) * 256 else sum)
      in of_nat (65535 - fold_carry (sum mod 2 ^ 32)))"

section \<open>Folding is reduction modulo 65535\<close>

lemma fold_carry_less: "fold_carry s < 65536"
proof (induction s rule: fold_carry.induct)
  case (1 s)
  then show ?case
    by (subst fold_carry.simps) (auto simp: div_eq_0_iff)
qed

lemma fold_carry_mod: "fold_carry s mod 65535 = s mod 65535"
proof (induction s rule: fold_carry.induct)
  case (1 s)
  have "s = (s div 65536) * 65535 + (s mod 65536 + s div 65536)"
    using div_mult_mod_eq [of s 65536] by simp
  then have eq: "s mod 65535 = (s mod 65536 + s div 65536) mod 65535"
    by (metis mod_mult_self3)
  show ?case
  proof (cases "s div 65536 = 0")
    case True
    then show ?thesis by (simp add: fold_carry.simps [of s])
  next
    case False
    then have "fold_carry s = fold_carry (s mod 65536 + s div 65536)"
      by (simp add: fold_carry.simps [of s])
    then show ?thesis using 1 [OF False] eq by simp
  qed
qed

lemma fold_carry_0_iff: "fold_carry s = 0 \<longleftrightarrow> s = 0"
proof (induction s rule: fold_carry.induct)
  case (1 s)
  then show ?case
    by (subst fold_carry.simps) (auto simp: div_eq_0_iff)
qed

text \<open>The receiver's test: the folded sum is all ones.\<close>

lemma fold_carry_ones_iff: "fold_carry s = 65535 \<longleftrightarrow> s \<noteq> 0 \<and> s mod 65535 = 0"
proof
  assume "fold_carry s = 65535"
  then show "s \<noteq> 0 \<and> s mod 65535 = 0"
    using fold_carry_mod [of s] fold_carry_0_iff [of s] by auto
next
  assume s: "s \<noteq> 0 \<and> s mod 65535 = 0"
  then have "fold_carry s mod 65535 = 0" "fold_carry s \<noteq> 0"
    using fold_carry_mod [of s] fold_carry_0_iff [of s] by auto
  then obtain k where "fold_carry s = 65535 * k" "k \<noteq> 0" by auto
  then show "fold_carry s = 65535"
    using fold_carry_less [of s] by (cases k) auto
qed

section \<open>The update preserves sums modulo 65535\<close>

lemma mask16_u32: "(x :: u32) AND 0xFFFF = take_bit 16 x"
  by (simp add: take_bit_eq_mask mask_eq_exp_minus_1)

lemma unat_drop16_u32: "unat (drop_bit 16 (x :: u32)) = unat x div 65536"
  by (simp add: unat_drop_bit_eq) (simp add: drop_bit_eq_div)

lemma unat_mask16_u32: "unat ((x :: u32) AND 0xFFFF) = unat x mod 65536"
proof -
  have "unat (take_bit 16 x) = take_bit 16 (unat x)" by (rule unsigned_take_bit_eq)
  then show ?thesis unfolding mask16_u32 by (simp add: take_bit_eq_mod)
qed

lemma unat_ucast_u32_u16: "unat (ucast (x :: u32) :: u16) = unat x mod 65536"
proof -
  have "unat (ucast x :: u16) = take_bit 16 (unat x)"
    by (simp add: unsigned_ucast_eq del: take_bit_nat_eq_self)
  then show ?thesis by (simp add: take_bit_eq_mod)
qed

lemma unat_plus_u32:
  "unat (x :: u32) + unat y < 4294967296 \<Longrightarrow> unat (x + y) = unat x + unat y"
  by (simp add: unat_word_ariths)

lemma unat_not_u16: "unat (NOT (x :: u16)) = 65535 - unat x"
proof -
  have "NOT x = -1 - x" by (simp add: not_eq_complement)
  then have "unat (NOT x) = unat (-1 - x)" by (rule arg_cong)
  also have "\<dots> = unat (-1 :: u16) - unat x" by (rule unat_sub) simp
  finally show ?thesis by (simp add: unsigned_minus_1_eq_mask mask_eq_exp_minus_1)
qed

lemma unat_ucast_u16_u32 [simp]: "unat (ucast (x :: u16) :: u32) = unat x"
  using unat_u16_less [of x] by (simp add: unsigned_ucast_eq take_bit_nat_eq_self del: unat_u16_less)

lemma unat_not16: "unat (NOT (ucast (x :: u16)) AND 0xFFFF :: u32) = 65535 - unat x"
proof -
  have "(NOT (ucast x) AND 0xFFFF :: u32) = ucast (NOT x)"
    unfolding mask16_u32 by (rule bit_word_eqI) (auto simp: bit_simps)
  then have "unat (NOT (ucast x) AND 0xFFFF :: u32) = unat (NOT x)"
    by (simp only: unat_ucast_u16_u32)
  then show ?thesis by (simp only: unat_not_u16)
qed

text \<open>One fold of a sum of three words, at the level of natural numbers.\<close>

lemma fold_once_bound:
  fixes s :: nat
  assumes "s \<le> 196605"
  shows "s mod 65536 + s div 65536 < 65538"
proof -
  have "s div 65536 \<le> 196605 div 65536" using assms by (rule div_le_mono)
  moreover have "s mod 65536 < 65536" by simp
  ultimately show ?thesis by simp
qed

definition fold_twice :: "nat \<Rightarrow> nat" where
  "fold_twice s = (let t = s mod 65536 + s div 65536 in (t + t div 65536) mod 65536)"

lemma fold_carry_once:
  assumes "(t :: nat) < 131071"
  shows "(t + t div 65536) mod 65536 mod 65535 = t mod 65535"
proof (cases "t < 65536")
  case False
  define r where "r = t - 65536"
  have r: "t = 65536 + r" "r < 65535" using False assms by (auto simp: r_def)
  have "t div 65536 = 1" using r by simp
  then have "t + t div 65536 = 65536 + (r + 1)" using r by simp
  then have "(t + t div 65536) mod 65536 = r + 1"
    using r(2) by (simp only: mod_add_self1) simp
  moreover have "t mod 65535 = (r + 1) mod 65535"
    using r(1) mod_add_self1 [of 65535 "r + 1"] by simp
  ultimately show ?thesis by simp
qed simp

lemma fold_twice_mod_wide:
  assumes "s mod 65536 + s div 65536 < 131071"
  shows "fold_twice s mod 65535 = s mod 65535"
proof -
  let ?t = "s mod 65536 + s div 65536"
  have "s = (s div 65536) * 65535 + ?t"
    using div_mult_mod_eq [of s 65536] by simp
  then have s: "s mod 65535 = ?t mod 65535"
    by (metis mod_mult_self3)
  have "(?t + ?t div 65536) mod 65536 mod 65535 = ?t mod 65535"
    using fold_carry_once [OF assms] .
  then show ?thesis using s by (simp add: fold_twice_def Let_def)
qed

lemma fold_twice_mod: "s \<le> 196605 \<Longrightarrow> fold_twice s mod 65535 = s mod 65535"
  using fold_once_bound [of s] by (intro fold_twice_mod_wide) simp

lemma fold_twice_less: "fold_twice s < 65536"
  by (simp add: fold_twice_def Let_def)

lemma unat_fold_u32:
  assumes "unat (x :: u32) \<le> 196605"
  shows "unat ((x AND 0xFFFF) + drop_bit 16 x) = unat x mod 65536 + unat x div 65536"
  using unat_plus_u32 [of "x AND 0xFFFF" "drop_bit 16 x"] fold_once_bound [OF assms]
  by (simp only: unat_mask16_u32 unat_drop16_u32)

lemma unat_update_checksum_16:
  "unat (ntohs (update_checksum_16 c p n)) =
     65535 - fold_twice ((65535 - unat (ntohs c)) + (65535 - unat (ntohs p)) + unat (ntohs n))"
proof -
  define s1 :: u32 where "s1 = (NOT (ucast (ntohs c)) AND 0xFFFF) + (NOT (ucast (ntohs p)) AND 0xFFFF)
     + ucast (ntohs n)"
  define s2 where "s2 = (s1 AND 0xFFFF) + drop_bit 16 s1"
  let ?s = "(65535 - unat (ntohs c)) + (65535 - unat (ntohs p)) + unat (ntohs n)"
  let ?t = "?s mod 65536 + ?s div 65536"
  have le: "?s \<le> 196605" using unat_u16_less [of "ntohs n"] by linarith
  have s1: "unat s1 = ?s"
    using le by (simp add: s1_def unat_plus_u32 unat_not16)
  have s2: "unat s2 = ?t"
    using unat_fold_u32 [of s1] le unfolding s2_def s1 by blast
  have "unat (s2 + drop_bit 16 s2) = ?t + ?t div 65536"
    using unat_plus_u32 [of s2 "drop_bit 16 s2"] fold_once_bound [OF le]
    unfolding unat_drop16_u32 s2 by linarith
  then have "unat (ucast (s2 + drop_bit 16 s2) :: u16) = fold_twice ?s"
    by (simp only: unat_ucast_u32_u16 fold_twice_def Let_def)
  moreover have "(ucast (NOT (s2 + drop_bit 16 s2)) :: u16) = NOT (ucast (s2 + drop_bit 16 s2))"
    by (rule bit_word_eqI) (simp add: bit_simps)
  ultimately show ?thesis
    by (simp add: update_checksum_16_def Let_def s1_def [symmetric] s2_def [symmetric] unat_not_u16)
qed

lemma update_checksum_16_mod:
  "(unat (ntohs (update_checksum_16 c p n)) + unat (ntohs n)) mod 65535 =
     (unat (ntohs c) + unat (ntohs p)) mod 65535"
proof -
  let ?c = "unat (ntohs c)" and ?p = "unat (ntohs p)" and ?n = "unat (ntohs n)"
  let ?s = "(65535 - ?c) + (65535 - ?p) + ?n"
  have lt: "?c < 65536" "?p < 65536" "?n < 65536" by simp_all
  then have "fold_twice ?s mod 65535 = ?s mod 65535"
    by (intro fold_twice_mod) linarith
  then have "65535 dvd int (fold_twice ?s) - int ?s"
    by (simp only: nat_mod_eq_iff_dvd of_nat_numeral)
  then have "65535 dvd - (int (fold_twice ?s) - int ?s) - 65535"
    by (simp only: dvd_diff dvd_minus_iff dvd_refl)
  also have "- (int (fold_twice ?s) - int ?s) - 65535 =
      int (65535 - fold_twice ?s + ?n) - int (?c + ?p)"
    using lt fold_twice_less [of ?s] by linarith
  finally show ?thesis
    by (simp only: unat_update_checksum_16 nat_mod_eq_iff_dvd of_nat_numeral)
qed

lemma update_checksum_32_mod:
  "(unat (ntohs (update_checksum_32 c p n)) + unat (ntohs (lo16 n)) + unat (ntohs (hi16 n))) mod 65535 =
     (unat (ntohs c) + unat (ntohs (lo16 p)) + unat (ntohs (hi16 p))) mod 65535"
  (is "(?c2 + ?nl + ?nh) mod _ = (?c + ?pl + ?ph) mod _")
proof -
  let ?c1 = "unat (ntohs (update_checksum_16 c (lo16 p) (lo16 n)))"
  have one: "(?c1 + ?nl) mod 65535 = (?c + ?pl) mod 65535"
    by (rule update_checksum_16_mod)
  have two: "(?c2 + ?nh) mod 65535 = (?c1 + ?ph) mod 65535"
    unfolding update_checksum_32_def Let_def by (rule update_checksum_16_mod)
  have "(?c2 + ?nl + ?nh) mod 65535 = ((?c2 + ?nh) + ?nl) mod 65535" by (simp add: ac_simps)
  also have "\<dots> = ((?c1 + ?ph) + ?nl) mod 65535" using two by (rule mod_add_cong) simp
  also have "\<dots> = ((?c1 + ?nl) + ?ph) mod 65535" by (simp add: ac_simps)
  also have "\<dots> = ((?c + ?pl) + ?ph) mod 65535" using one by (rule mod_add_cong) simp
  finally show ?thesis .
qed

section \<open>Sums over a region of a frame\<close>

text \<open>A region of \<open>len\<close> bytes, the last one padded with a zero byte when \<open>len\<close> is odd.\<close>

definition region_sum :: "bytes \<Rightarrow> nat \<Rightarrow> nat \<Rightarrow> nat" where
  "region_sum xs b len =
     word_sum xs b (len div 2) + (if odd len then unat (xs ! (b + len - 1)) * 256 else 0)"

definition verifies :: "nat \<Rightarrow> bool" where
  "verifies s \<longleftrightarrow> fold_carry s = 65535"

lemma verifies_iff: "verifies s \<longleftrightarrow> s \<noteq> 0 \<and> s mod 65535 = 0"
  by (simp add: verifies_def fold_carry_ones_iff)

lemma verifies_cong: "s mod 65535 = t mod 65535 \<Longrightarrow> t \<noteq> 0 \<Longrightarrow> verifies s \<Longrightarrow> verifies t"
  by (simp add: verifies_iff)

lemma be16_st16_same: "i + 1 < length xs \<Longrightarrow> be16 (st16 xs i v) i = unat (ntohs v)"
  by (simp add: be16_def mem_simps)

lemma be16_st16_other: "j + 1 < i \<or> i + 1 < j \<Longrightarrow> be16 (st16 xs i v) j = be16 xs j"
  by (simp add: be16_def mem_simps)

lemma word_sum_st16_out:
  assumes "i + 1 < b \<or> b + 2 * n \<le> i"
  shows "word_sum (st16 xs i v) b n = word_sum xs b n"
  unfolding word_sum_def using assms
  by (intro sum.cong refl be16_st16_other) auto

lemma word_sum_st16:
  assumes "k < n" "b + 2 * n \<le> length xs" "i = b + 2 * k"
  shows "word_sum (st16 xs i v) b n + be16 xs i = word_sum xs b n + unat (ntohs v)"
proof -
  have split: "word_sum ys b n = be16 ys i + (\<Sum>j\<in>{..<n} - {k}. be16 ys (b + 2 * j))" for ys
    unfolding word_sum_def using assms by (simp add: sum.remove [of _ k])
  have "(\<Sum>j\<in>{..<n} - {k}. be16 (st16 xs i v) (b + 2 * j)) = (\<Sum>j\<in>{..<n} - {k}. be16 xs (b + 2 * j))"
    using assms by (intro sum.cong refl be16_st16_other) (auto simp: nat_neq_iff)
  moreover have "be16 (st16 xs i v) i = unat (ntohs v)"
    using assms by (intro be16_st16_same) auto
  ultimately show ?thesis
    using split [of xs] split [of "st16 xs i v"] by linarith
qed

lemma word_sum_st32:
  assumes "k + 1 < n" "b + 2 * n \<le> length xs" "i = b + 2 * k"
  shows "word_sum (st32 xs i v) b n + be16 xs i + be16 xs (i + 2) =
         word_sum xs b n + unat (ntohs (lo16 v)) + unat (ntohs (hi16 v))"
proof -
  let ?ys = "st16 xs i (lo16 v)"
  have "word_sum (st32 xs i v) b n + be16 ?ys (i + 2) = word_sum ?ys b n + unat (ntohs (hi16 v))"
    unfolding st32_def using assms by (intro word_sum_st16 [of "k + 1"]) auto
  moreover have "word_sum ?ys b n + be16 xs i = word_sum xs b n + unat (ntohs (lo16 v))"
    using assms by (intro word_sum_st16 [of k]) auto
  ultimately show ?thesis by (simp add: be16_st16_other)
qed

lemma word_sum_st32_out:
  assumes "i + 3 < b \<or> b + 2 * n \<le> i"
  shows "word_sum (st32 xs i v) b n = word_sum xs b n"
  unfolding st32_def using assms by (auto simp: word_sum_st16_out)

lemma be16_lo_hi: "unat (ntohs (lo16 (ld32 xs i))) = be16 xs i"
  "unat (ntohs (hi16 (ld32 xs i))) = be16 xs (i + 2)"
  by (simp_all add: be16_def ld32_def)

lemma region_sum_st16:
  assumes "2 * k + 1 < len" "b + len \<le> length xs" "i = b + 2 * k"
  shows "region_sum (st16 xs i v) b len + be16 xs i = region_sum xs b len + unat (ntohs v)"
proof -
  have last: "odd len \<Longrightarrow> st16 xs i v ! (b + len - 1) = xs ! (b + len - 1)"
  proof -
    assume "odd len"
    then have "len \<noteq> 2 * k + 2" by auto
    then have "i + 1 < b + len - 1" using assms by linarith
    then show ?thesis by (simp add: nth_st16)
  qed
  have "word_sum (st16 xs i v) b (len div 2) + be16 xs i = word_sum xs b (len div 2) + unat (ntohs v)"
    using assms by (intro word_sum_st16 [of k]) auto
  then show ?thesis using last by (auto simp: region_sum_def)
qed

lemma region_sum_st16_out:
  assumes "i + 1 < b \<or> b + len \<le> i"
  shows "region_sum (st16 xs i v) b len = region_sum xs b len"
proof -
  have "i + 1 < b \<or> b + 2 * (len div 2) \<le> i" using assms by linarith
  moreover have "odd len \<Longrightarrow> st16 xs i v ! (b + len - 1) = xs ! (b + len - 1)"
    using assms by (intro nth_st16) (auto elim!: oddE)
  ultimately show ?thesis by (simp add: region_sum_def word_sum_st16_out)
qed

lemma region_sum_st32_out:
  assumes "i + 3 < b \<or> b + len \<le> i"
  shows "region_sum (st32 xs i v) b len = region_sum xs b len"
  unfolding st32_def using assms by (auto simp: region_sum_st16_out)

text \<open>Rewriting an address together with the checksum that covers it.\<close>

lemma word_sum_rewrite_addr:
  assumes "k < n" "j + 1 < n" "k < j \<or> j + 1 < k" "b + 2 * n \<le> length xs"
    and i: "i = b + 2 * k" and a: "a = b + 2 * j"
  shows "word_sum (st32 (st16 xs i (update_checksum_32 (ld16 xs i) (ld32 xs a) v)) a v) b n mod 65535
         = word_sum xs b n mod 65535"
proof -
  let ?c = "update_checksum_32 (ld16 xs i) (ld32 xs a) v"
  let ?ys = "st16 xs i ?c"
  have "word_sum ?ys b n + be16 xs i = word_sum xs b n + unat (ntohs ?c)"
    using assms by (intro word_sum_st16 [of k]) auto
  moreover have "word_sum (st32 ?ys a v) b n + be16 ?ys a + be16 ?ys (a + 2) =
      word_sum ?ys b n + unat (ntohs (lo16 v)) + unat (ntohs (hi16 v))"
    using assms by (intro word_sum_st32 [of j]) auto
  moreover have "be16 ?ys a = be16 xs a" "be16 ?ys (a + 2) = be16 xs (a + 2)"
    using assms by (auto intro!: be16_st16_other)
  moreover have "65535 dvd int (unat (ntohs ?c) + unat (ntohs (lo16 v)) + unat (ntohs (hi16 v)))
      - int (be16 xs i + be16 xs a + be16 xs (a + 2))"
    using update_checksum_32_mod [of "ld16 xs i" "ld32 xs a" v]
    by (simp only: nat_mod_eq_iff_dvd be16_lo_hi be16_def [of xs i, symmetric] of_nat_numeral)
  moreover have "int (word_sum (st32 ?ys a v) b n) - int (word_sum xs b n) =
      int (unat (ntohs ?c) + unat (ntohs (lo16 v)) + unat (ntohs (hi16 v)))
      - int (be16 xs i + be16 xs a + be16 xs (a + 2))"
    using calculation(1-4) by linarith
  ultimately show ?thesis by (simp only: nat_mod_eq_iff_dvd of_nat_numeral)
qed

text \<open>Evaluation of sums on concrete frames.\<close>

lemma word_sum_eval: "word_sum xs b 0 = 0" "word_sum xs b (Suc 0) = be16 xs b"
  "word_sum xs b (numeral n) = word_sum xs b (pred_numeral n) + be16 xs (b + 2 * pred_numeral n)"
  by (simp_all add: word_sum_def numeral_eq_Suc)

lemma be16_nth: "be16 xs i = 256 * unat (xs ! i) + unat (xs ! Suc i)"
  by (simp add: be16_def unat_ntohs_ld16)

lemmas sum_eval = word_sum_eval be16_nth verifies_iff region_sum_def

end
