(* ===== verification/NatEngine.thy ===== *)
theory NatEngine
  imports Checksum Processor
begin

text \<open>
  The network address translator of \<^verbatim>\<open>NatEngine.cpp\<close>.  The two session arrays and the two reverse
  maps are functions on their index types; every operation is one atomic step on the state.
  A probe loop of at most 32 slots recurses on the number of slots left.  The rewriting of a
  frame goes through the pointers of the parsed packet, store by store, in the order of the code,
  so that overlapping headers behave as they do there.
\<close>

section \<open>State\<close>

record NatSession =
  ns_seq :: u32
  internal_key :: FlowKey
  external_port :: u16
  ns_last_active_tick :: u32
  ns_active :: bool

record IcmpEchoSession =
  ie_seq :: u32
  int_saddr :: u32
  remote_daddr :: u32
  int_id_nbo :: u16
  ext_id_nbo :: u16
  ie_last_active_tick :: u32
  ie_active :: bool

record NatEngine =
  sessions :: "nat \<Rightarrow> NatSession"
  port_to_index :: "u16 \<Rightarrow> int"
  icmp_sessions :: "nat \<Rightarrow> IcmpEchoSession"
  icmp_id_to_index :: "u16 \<Rightarrow> int"
  port_cursor :: u16
  icmp_id_cursor :: u16
  wan_ip_nbo :: u32
  current_tick :: u32

definition MAX_SESSIONS :: nat where "MAX_SESSIONS = 65536"
definition MAX_ICMP_SESSIONS :: nat where "MAX_ICMP_SESSIONS = 4096"

text \<open>The constructor, with the default member initialisers.\<close>

definition empty_session :: NatSession where
  "empty_session =
     \<lparr>ns_seq = 0, internal_key = \<lparr>fk_saddr = 0, fk_daddr = 0, fk_sport = 0, fk_dport = 0\<rparr>,
      external_port = 0, ns_last_active_tick = 0, ns_active = False\<rparr>"

definition empty_icmp_session :: IcmpEchoSession where
  "empty_icmp_session =
     \<lparr>ie_seq = 0, int_saddr = 0, remote_daddr = 0, int_id_nbo = 0, ext_id_nbo = 0,
      ie_last_active_tick = 0, ie_active = False\<rparr>"

definition NatEngine_init :: NatEngine where
  "NatEngine_init =
     \<lparr>sessions = (\<lambda>_. empty_session), port_to_index = (\<lambda>_. -1),
      icmp_sessions = (\<lambda>_. empty_icmp_session), icmp_id_to_index = (\<lambda>_. -1),
      port_cursor = 10000, icmp_id_cursor = 25000, wan_ip_nbo = 0, current_tick = 0\<rparr>"

definition set_wan_ip :: "u32 \<Rightarrow> NatEngine \<Rightarrow> NatEngine" where
  "set_wan_ip ip st = st\<lparr>wan_ip_nbo := ip\<rparr>"

definition wan_ip_snapshot :: "NatEngine \<Rightarrow> u32" where
  "wan_ip_snapshot st = wan_ip_nbo st"

definition tick :: "NatEngine \<Rightarrow> NatEngine" where
  "tick st = st\<lparr>current_tick := current_tick st + 1\<rparr>"

section \<open>Hashing\<close>

definition fnv_bytes :: "u32 \<Rightarrow> bytes \<Rightarrow> u32" where
  "fnv_bytes h bs = foldl (\<lambda>h b. (h XOR ucast b) * 16777619) h bs"

definition hash_flow :: "FlowKey \<Rightarrow> u32" where
  "hash_flow k =
     (let h = 2166136261;
          h = fnv_bytes h (bytes32 (fk_saddr k));
          h = fnv_bytes h (bytes32 (fk_daddr k));
          h = fnv_bytes h (bytes16 (fk_sport k))
      in fnv_bytes h (bytes16 (fk_dport k)))"

definition hash_icmp_flow :: "u32 \<Rightarrow> u32 \<Rightarrow> u16 \<Rightarrow> u32" where
  "hash_icmp_flow sa da id_n =
     (let h = 2166136261;
          h = fnv_bytes h (bytes32 sa);
          h = fnv_bytes h (bytes32 da)
      in fnv_bytes h (bytes16 id_n))"

section \<open>Rewriting a frame\<close>

text \<open>The stores of \<^verbatim>\<open>process_outbound\<close> (address and port of the source) and of
  \<^verbatim>\<open>process_inbound\<close> (of the destination): \<open>addr\<close>, \<open>port\<close> and \<open>chk\<close> are the offsets of the
  address, the port and the layer-4 checksum.\<close>

definition upd16 :: "bytes \<Rightarrow> nat \<Rightarrow> u16 \<Rightarrow> u16 \<Rightarrow> bytes" where
  "upd16 xs chk old_val new_val = st16 xs chk (update_checksum_16 (ld16 xs chk) old_val new_val)"

definition upd32 :: "bytes \<Rightarrow> nat \<Rightarrow> u32 \<Rightarrow> u32 \<Rightarrow> bytes" where
  "upd32 xs chk old_val new_val = st16 xs chk (update_checksum_32 (ld16 xs chk) old_val new_val)"

definition rewrite_l4 :: "bytes \<Rightarrow> nat \<Rightarrow> nat \<Rightarrow> nat \<Rightarrow> nat \<Rightarrow> u32 \<Rightarrow> u16 \<Rightarrow> bytes" where
  "rewrite_l4 xs ip addr port chk new_ip new_port =
     (let xs = upd32 xs (ip_check_off ip) (ld32 xs addr) new_ip;
          xs = (if ld16 xs chk \<noteq> 0
                then let xs = upd32 xs chk (ld32 xs addr) new_ip
                     in upd16 xs chk (ld16 xs port) new_port
                else xs);
          xs = st32 xs addr new_ip
      in st16 xs port new_port)"

definition rewrite_icmp :: "bytes \<Rightarrow> nat \<Rightarrow> nat \<Rightarrow> nat \<Rightarrow> u32 \<Rightarrow> u16 \<Rightarrow> bytes" where
  "rewrite_icmp xs ip addr icmp new_ip new_id =
     (let old_id = ld16 xs (icmp_id_off icmp);
          xs = upd32 xs (ip_check_off ip) (ld32 xs addr) new_ip;
          xs = (if ld16 xs (icmp_check_off icmp) \<noteq> 0
                then upd16 xs (icmp_check_off icmp) old_id new_id else xs);
          xs = st32 xs addr new_ip
      in st16 xs (icmp_id_off icmp) new_id)"

section \<open>ICMP echo\<close>

definition icmp_cas :: "u16 \<Rightarrow> int \<Rightarrow> int \<Rightarrow> NatEngine \<Rightarrow> NatEngine" where
  "icmp_cas p expect v st =
     (if icmp_id_to_index st p = expect
      then st\<lparr>icmp_id_to_index := (icmp_id_to_index st)(p := v)\<rparr> else st)"

definition upd_icmp :: "nat \<Rightarrow> (IcmpEchoSession \<Rightarrow> IcmpEchoSession) \<Rightarrow> NatEngine \<Rightarrow> NatEngine" where
  "upd_icmp idx f st = st\<lparr>icmp_sessions := (icmp_sessions st)(idx := f (icmp_sessions st idx))\<rparr>"

fun alloc_icmp_loop :: "nat \<Rightarrow> NatEngine \<Rightarrow> NatEngine \<times> u16" where
  "alloc_icmp_loop 0 st = (st, 0)"
| "alloc_icmp_loop (Suc n) st =
     (let host = icmp_id_cursor st;
          st = st\<lparr>icmp_id_cursor := icmp_id_cursor st + 1\<rparr>;
          st = (if icmp_id_cursor st > 60000 then st\<lparr>icmp_id_cursor := 10000\<rparr> else st);
          idx = icmp_id_to_index st host in
      if idx < 0 then (st, htons host)
      else if nat idx < MAX_ICMP_SESSIONS \<and> \<not> ie_active (icmp_sessions st (nat idx))
      then (icmp_cas host idx (-1) st, htons host)
      else alloc_icmp_loop n st)"

definition alloc_external_icmp_id :: "NatEngine \<Rightarrow> NatEngine \<times> u16" where
  "alloc_external_icmp_id st = alloc_icmp_loop 512 st"

text \<open>Claiming the free or expired slot \<open>idx\<close>; the result 0 means that no identifier was free.\<close>

definition icmp_take_slot :: "u32 \<Rightarrow> u32 \<Rightarrow> u16 \<Rightarrow> u32 \<Rightarrow> nat \<Rightarrow> NatEngine \<Rightarrow> NatEngine \<times> u16" where
  "icmp_take_slot sa da id_n now idx st =
     (let is_active = ie_active (icmp_sessions st idx);
          st = upd_icmp idx (\<lambda>s. s\<lparr>ie_seq := ie_seq s + 1\<rparr>) st;
          st = (if is_active
                then upd_icmp idx (\<lambda>s. s\<lparr>ie_active := False\<rparr>)
                       (icmp_cas (ntohs (ext_id_nbo (icmp_sessions st idx))) (int idx) (-1) st)
                else st);
          (st, new_ext) = alloc_external_icmp_id st in
      if new_ext = 0 then (upd_icmp idx (\<lambda>s. s\<lparr>ie_seq := ie_seq s + 1\<rparr>) st, 0)
      else
        let st = upd_icmp idx (\<lambda>s. s\<lparr>int_saddr := sa, remote_daddr := da, int_id_nbo := id_n,
                   ext_id_nbo := new_ext, ie_last_active_tick := now\<rparr>) st;
            st = st\<lparr>icmp_id_to_index := (icmp_id_to_index st)(ntohs new_ext := int idx)\<rparr>;
            st = upd_icmp idx (\<lambda>s. s\<lparr>ie_seq := ie_seq s + 1, ie_active := True\<rparr>) st
        in (st, new_ext))"

text \<open>The probe loop: \<open>r\<close> slots are left, \<open>n\<close> is the loop counter.\<close>

fun icmp_probe :: "u32 \<Rightarrow> u32 \<Rightarrow> u16 \<Rightarrow> nat \<Rightarrow> nat \<Rightarrow> nat \<Rightarrow> NatEngine \<Rightarrow> NatEngine \<times> u16" where
  "icmp_probe sa da id_n h 0 n st = (st, 0)"
| "icmp_probe sa da id_n h (Suc r) n st =
     (let idx = (h + n) mod MAX_ICMP_SESSIONS;
          s = icmp_sessions st idx;
          now = current_tick st;
          expired = (ie_active s \<and> now - ie_last_active_tick s > 300) in
      if \<not> ie_active s \<or> expired then icmp_take_slot sa da id_n now idx st
      else if int_saddr s = sa \<and> remote_daddr s = da \<and> int_id_nbo s = id_n
      then (upd_icmp idx (\<lambda>s. s\<lparr>ie_last_active_tick := now\<rparr>) st, ext_id_nbo s)
      else icmp_probe sa da id_n h r (Suc n) st)"

definition process_outbound_icmp :: "NatEngine \<Rightarrow> ParsedPacket \<Rightarrow> bool \<times> NatEngine \<times> ParsedPacket" where
  "process_outbound_icmp st pkt =
     (let wan_ip = wan_ip_nbo st; xs = raw_span pkt; ip = the (ipv4 pkt) in
      if wan_ip = 0 then (False, st, pkt)
      else case icmp_echo pkt of
        None \<Rightarrow> (False, st, pkt)
      | Some icmp \<Rightarrow>
          if ntohs (ld16 xs (ip_frag_off_off ip)) AND 0x3FFF \<noteq> 0 then (False, st, pkt)
          else if xs ! icmp_type_off icmp \<noteq> 8 \<or> xs ! icmp_code_off icmp \<noteq> 0 then (False, st, pkt)
          else
            let id_n = ld16 xs (icmp_id_off icmp);
                sa = ld32 xs (ip_saddr_off ip);
                da = ld32 xs (ip_daddr_off ip);
                h = unat (hash_icmp_flow sa da id_n) mod MAX_ICMP_SESSIONS;
                (st, ext_nbo) = icmp_probe sa da id_n h 32 0 st in
            if ext_nbo = 0 then (False, st, pkt)
            else (True, st, pkt\<lparr>raw_span := rewrite_icmp xs ip (ip_saddr_off ip) icmp wan_ip ext_nbo\<rparr>))"

text \<open>The seqlock read loop.  The operations of this model are atomic, so both loads of the
  sequence number see the same value; an odd one is retried until the attempts run out.\<close>

datatype 'a resolution = Resolved 'a | Rejected | Unresolved

fun icmp_resolve :: "nat \<Rightarrow> IcmpEchoSession \<Rightarrow> u32 \<Rightarrow> u16 \<Rightarrow> (u32 \<times> u16) resolution" where
  "icmp_resolve 0 sess src id_n = Unresolved"
| "icmp_resolve (Suc attempts) sess src id_n =
     (if ie_seq sess AND 1 \<noteq> 0 then icmp_resolve attempts sess src id_n
      else if \<not> ie_active sess then Rejected
      else if remote_daddr sess \<noteq> src \<or> ext_id_nbo sess \<noteq> id_n then Rejected
      else Resolved (int_saddr sess, int_id_nbo sess))"

definition process_inbound_icmp :: "NatEngine \<Rightarrow> ParsedPacket \<Rightarrow> bool \<times> NatEngine \<times> ParsedPacket" where
  "process_inbound_icmp st pkt =
     (let wan_ip = wan_ip_nbo st; xs = raw_span pkt; ip = the (ipv4 pkt) in
      if ld32 xs (ip_daddr_off ip) \<noteq> wan_ip then (False, st, pkt)
      else case icmp_echo pkt of
        None \<Rightarrow> (False, st, pkt)
      | Some icmp \<Rightarrow>
          if ntohs (ld16 xs (ip_frag_off_off ip)) AND 0x3FFF \<noteq> 0 then (False, st, pkt)
          else if xs ! icmp_type_off icmp \<noteq> 0 \<or> xs ! icmp_code_off icmp \<noteq> 0 then (False, st, pkt)
          else
            let id_n = ld16 xs (icmp_id_off icmp);
                idx = icmp_id_to_index st (ntohs id_n) in
            if idx < 0 \<or> nat idx \<ge> MAX_ICMP_SESSIONS then (False, st, pkt)
            else case icmp_resolve 8 (icmp_sessions st (nat idx)) (ld32 xs (ip_saddr_off ip)) id_n of
              Resolved (int_sa, int_id) \<Rightarrow>
                (True, upd_icmp (nat idx) (\<lambda>s. s\<lparr>ie_last_active_tick := current_tick st\<rparr>) st,
                 pkt\<lparr>raw_span := rewrite_icmp xs ip (ip_daddr_off ip) icmp int_sa int_id\<rparr>)
            | _ \<Rightarrow> (False, st, pkt))"

section \<open>TCP and UDP\<close>

definition port_cas :: "u16 \<Rightarrow> int \<Rightarrow> int \<Rightarrow> NatEngine \<Rightarrow> NatEngine" where
  "port_cas p expect v st =
     (if port_to_index st p = expect
      then st\<lparr>port_to_index := (port_to_index st)(p := v)\<rparr> else st)"

definition upd_session :: "nat \<Rightarrow> (NatSession \<Rightarrow> NatSession) \<Rightarrow> NatEngine \<Rightarrow> NatEngine" where
  "upd_session idx f st = st\<lparr>sessions := (sessions st)(idx := f (sessions st idx))\<rparr>"

definition take_slot :: "FlowKey \<Rightarrow> u32 \<Rightarrow> nat \<Rightarrow> NatEngine \<Rightarrow> NatEngine \<times> u16" where
  "take_slot key now idx st =
     (let is_active = ns_active (sessions st idx);
          st = upd_session idx (\<lambda>s. s\<lparr>ns_seq := ns_seq s + 1\<rparr>) st;
          st = (if is_active
                then port_cas (ntohs (external_port (sessions st idx))) (int idx) (-1) st else st);
          st = upd_session idx (\<lambda>s. s\<lparr>internal_key := key\<rparr>) st;
          ext_nbo = htons (port_cursor st);
          st = st\<lparr>port_cursor := port_cursor st + 1\<rparr>;
          st = (if port_cursor st > 60000 then st\<lparr>port_cursor := 10000\<rparr> else st);
          st = upd_session idx (\<lambda>s. s\<lparr>external_port := ext_nbo, ns_last_active_tick := now,
                 ns_seq := ns_seq s + 1, ns_active := True\<rparr>) st;
          st = st\<lparr>port_to_index := (port_to_index st)(ntohs ext_nbo := int idx)\<rparr>
      in (st, ext_nbo))"

fun probe :: "FlowKey \<Rightarrow> nat \<Rightarrow> nat \<Rightarrow> nat \<Rightarrow> NatEngine \<Rightarrow> NatEngine \<times> u16" where
  "probe key h 0 i st = (st, 0)"
| "probe key h (Suc r) i st =
     (let idx = (h + i) mod MAX_SESSIONS;
          s = sessions st idx;
          now = current_tick st in
      if \<not> ns_active s \<or> now - ns_last_active_tick s > 300 then take_slot key now idx st
      else if internal_key s = key
      then (upd_session idx (\<lambda>s. s\<lparr>ns_last_active_tick := now\<rparr>) st, external_port s)
      else probe key h r (Suc i) st)"

text \<open>The layer-4 header of a TCP or UDP packet and the offset of its checksum.\<close>

definition l4_ptrs :: "ParsedPacket \<Rightarrow> nat \<Rightarrow> (nat \<times> nat) option" where
  "l4_ptrs pkt ip =
     (if raw_span pkt ! ip_protocol_off ip = 17
      then map_option (\<lambda>u. (u, udp_check_off u)) (udp pkt)
      else map_option (\<lambda>t. (t, tcp_check_off t)) (tcp pkt))"

definition process_outbound :: "NatEngine \<Rightarrow> ParsedPacket \<Rightarrow> bool \<times> NatEngine \<times> ParsedPacket" where
  "process_outbound st pkt =
     (if \<not> is_valid_ipv4 pkt then (False, st, pkt)
      else let wan_ip = wan_ip_nbo st in
      if wan_ip = 0 then (False, st, pkt)
      else let ip = the (ipv4 pkt); xs = raw_span pkt; proto = xs ! ip_protocol_off ip in
      if proto = 1 then process_outbound_icmp st pkt
      else if proto \<noteq> 6 \<and> proto \<noteq> 17 then (False, st, pkt)
      else case l4_ptrs pkt ip of
        None \<Rightarrow> (False, st, pkt)
      | Some (l4, chk) \<Rightarrow>
          let key = \<lparr>fk_saddr = ld32 xs (ip_saddr_off ip), fk_daddr = ld32 xs (ip_daddr_off ip),
                     fk_sport = ld16 xs (l4_source_off l4), fk_dport = ld16 xs (l4_dest_off l4)\<rparr>;
              h = unat (hash_flow key) mod MAX_SESSIONS;
              (st, ext_port) = probe key h 32 0 st in
          if ext_port = 0 then (False, st, pkt)
          else (True, st, pkt\<lparr>raw_span :=
                  rewrite_l4 xs ip (ip_saddr_off ip) (l4_source_off l4) chk wan_ip ext_port\<rparr>))"

fun resolve :: "nat \<Rightarrow> NatSession \<Rightarrow> u32 \<Rightarrow> u16 \<Rightarrow> u16 \<Rightarrow> (u32 \<times> u16) resolution" where
  "resolve 0 sess src sport dport = Unresolved"
| "resolve (Suc attempts) sess src sport dport =
     (if ns_seq sess AND 1 \<noteq> 0 then resolve attempts sess src sport dport
      else if \<not> ns_active sess then Rejected
      else if fk_daddr (internal_key sess) \<noteq> src \<or> fk_dport (internal_key sess) \<noteq> sport
              \<or> external_port sess \<noteq> dport then Rejected
      else Resolved (fk_saddr (internal_key sess), fk_sport (internal_key sess)))"

definition process_inbound :: "NatEngine \<Rightarrow> ParsedPacket \<Rightarrow> bool \<times> NatEngine \<times> ParsedPacket" where
  "process_inbound st pkt =
     (if \<not> is_valid_ipv4 pkt then (False, st, pkt)
      else let ip = the (ipv4 pkt); wan_ip = wan_ip_nbo st; xs = raw_span pkt;
               proto = xs ! ip_protocol_off ip in
      if proto = 1 then process_inbound_icmp st pkt
      else if proto \<noteq> 6 \<and> proto \<noteq> 17 then (False, st, pkt)
      else if ld32 xs (ip_daddr_off ip) \<noteq> wan_ip then (False, st, pkt)
      else case l4_ptrs pkt ip of
        None \<Rightarrow> (False, st, pkt)
      | Some (l4, chk) \<Rightarrow>
          let dport = ld16 xs (l4_dest_off l4);
              idx = port_to_index st (ntohs dport) in
          if idx < 0 \<or> nat idx \<ge> MAX_SESSIONS then (False, st, pkt)
          else case resolve 8 (sessions st (nat idx)) (ld32 xs (ip_saddr_off ip))
                      (ld16 xs (l4_source_off l4)) dport of
            Resolved (internal_ip, internal_port) \<Rightarrow>
              (True, upd_session (nat idx) (\<lambda>s. s\<lparr>ns_last_active_tick := current_tick st\<rparr>) st,
               pkt\<lparr>raw_span := rewrite_l4 xs ip (ip_daddr_off ip) (l4_dest_off l4) chk
                                 internal_ip internal_port\<rparr>)
          | _ \<Rightarrow> (False, st, pkt))"

section \<open>What rewriting a frame does\<close>

lemma length_upd16 [simp]: "length (upd16 xs c p n) = length xs"
  by (simp add: upd16_def)

lemma length_upd32 [simp]: "length (upd32 xs c p n) = length xs"
  by (simp add: upd32_def)

lemma length_rewrite_l4 [simp]: "length (rewrite_l4 xs ip a p c v w) = length xs"
  by (simp add: rewrite_l4_def Let_def)

lemma length_rewrite_icmp [simp]: "length (rewrite_icmp xs ip a c v w) = length xs"
  by (simp add: rewrite_icmp_def Let_def)

text \<open>Separate headers: the address is one of the two of the IP header, the port and the layer-4
  checksum lie behind it and do not overlap.\<close>

definition separate :: "bytes \<Rightarrow> nat \<Rightarrow> nat \<Rightarrow> nat \<Rightarrow> bool" where
  "separate xs addr port chk \<longleftrightarrow>
     (addr = 26 \<or> addr = 30) \<and> 34 \<le> port \<and> port + 1 < chk \<and> chk + 2 \<le> length xs"

definition new_l4_check :: "bytes \<Rightarrow> nat \<Rightarrow> nat \<Rightarrow> nat \<Rightarrow> u32 \<Rightarrow> u16 \<Rightarrow> u16" where
  "new_l4_check xs addr port chk v w =
     (if ld16 xs chk \<noteq> 0
      then update_checksum_16 (update_checksum_32 (ld16 xs chk) (ld32 xs addr) v) (ld16 xs port) w
      else ld16 xs chk)"

lemma rewrite_l4_flat:
  assumes "separate xs addr port chk"
  shows "rewrite_l4 xs 14 addr port chk v w =
    st16 (st32 (st16 (st16 xs 24 (update_checksum_32 (ld16 xs 24) (ld32 xs addr) v))
            chk (new_l4_check xs addr port chk v w)) addr v) port w"
proof -
  let ?ys = "st16 xs 24 (update_checksum_32 (ld16 xs 24) (ld32 xs addr) v)"
  have lds: "ld16 ?ys chk = ld16 xs chk" "ld32 ?ys addr = ld32 xs addr"
    "ld16 (st16 ?ys chk u) port = ld16 xs port" "ld16 (st16 ?ys chk u) chk = u" for u
    using assms by (auto simp: separate_def mem_simps)
  have "st16 ?ys chk (ld16 xs chk) = ?ys"
    using assms lds(1) st16_ld16 [of chk ?ys] by (simp add: separate_def)
  then show ?thesis
    by (auto simp: rewrite_l4_def upd16_def upd32_def Let_def lds st16_idem new_l4_check_def)
qed

lemma rewrite_l4_fields:
  assumes "separate xs addr port chk"
  shows "ld32 (rewrite_l4 xs 14 addr port chk v w) addr = v"
    and "ld16 (rewrite_l4 xs 14 addr port chk v w) port = w"
    and "ld16 (rewrite_l4 xs 14 addr port chk v w) chk = new_l4_check xs addr port chk v w"
    and "\<lbrakk>j < 24 \<or> 25 < j; j < addr \<or> addr + 3 < j; j < port \<or> port + 1 < j; j < chk \<or> chk + 1 < j\<rbrakk>
         \<Longrightarrow> rewrite_l4 xs 14 addr port chk v w ! j = xs ! j"
  using assms by (auto simp: rewrite_l4_flat separate_def mem_simps)

lemma rewrite_l4_ip_sum:
  assumes "separate xs addr port chk" "10 \<le> n" "14 + 2 * n \<le> port"
  shows "word_sum (rewrite_l4 xs 14 addr port chk v w) 14 n mod 65535 = word_sum xs 14 n mod 65535"
proof -
  let ?c = "update_checksum_32 (ld16 xs 24) (ld32 xs addr) v"
  have comm: "st32 (st16 (st16 xs 24 ?c) chk u) addr v = st16 (st32 (st16 xs 24 ?c) addr v) chk u" for u
    using assms by (auto simp: separate_def st32_def st16_def list_update_swap)
  have "word_sum (rewrite_l4 xs 14 addr port chk v w) 14 n = word_sum (st32 (st16 xs 24 ?c) addr v) 14 n"
    using assms by (auto simp: rewrite_l4_flat comm word_sum_st16_out separate_def)
  also have "\<dots> mod 65535 = word_sum xs 14 n mod 65535"
    using assms by (intro word_sum_rewrite_addr [where k = 5 and j = "(addr - 14) div 2"])
      (auto simp: separate_def)
  finally show ?thesis .
qed

text \<open>The sum a TCP or UDP receiver folds: the addresses of the pseudo header, protocol and length
  (together \<open>q\<close>), and the segment.\<close>

definition l4_sum :: "bytes \<Rightarrow> nat \<Rightarrow> nat \<Rightarrow> nat \<Rightarrow> nat" where
  "l4_sum xs q l4 len = word_sum xs 26 4 + q + region_sum xs l4 len"

lemma new_l4_check_mod:
  assumes "ld16 xs chk \<noteq> 0"
  shows "65535 dvd int (unat (ntohs (new_l4_check xs addr port chk v w)) + unat (ntohs (lo16 v))
             + unat (ntohs (hi16 v)) + unat (ntohs w))
           - int (be16 xs chk + be16 xs addr + be16 xs (addr + 2) + be16 xs port)"
proof -
  let ?c1 = "update_checksum_32 (ld16 xs chk) (ld32 xs addr) v"
  have "65535 dvd int (unat (ntohs ?c1) + unat (ntohs (lo16 v)) + unat (ntohs (hi16 v)))
      - int (be16 xs chk + be16 xs addr + be16 xs (addr + 2))"
    using update_checksum_32_mod [of "ld16 xs chk" "ld32 xs addr" v]
    by (simp only: nat_mod_eq_iff_dvd be16_lo_hi be16_def [of xs chk, symmetric] of_nat_numeral)
  moreover have "65535 dvd int (unat (ntohs (update_checksum_16 ?c1 (ld16 xs port) w)) + unat (ntohs w))
      - int (unat (ntohs ?c1) + be16 xs port)"
    using update_checksum_16_mod [of ?c1 "ld16 xs port" w]
    by (simp only: nat_mod_eq_iff_dvd be16_def of_nat_numeral)
  ultimately have "65535 dvd (int (unat (ntohs ?c1) + unat (ntohs (lo16 v)) + unat (ntohs (hi16 v)))
      - int (be16 xs chk + be16 xs addr + be16 xs (addr + 2)))
     + (int (unat (ntohs (update_checksum_16 ?c1 (ld16 xs port) w)) + unat (ntohs w))
      - int (unat (ntohs ?c1) + be16 xs port))"
    by (rule dvd_add)
  then show ?thesis using assms by (simp add: new_l4_check_def algebra_simps)
qed

lemma rewrite_l4_sum:
  assumes sep: "separate xs addr port chk" and nz: "ld16 xs chk \<noteq> 0"
    and port: "port = l4 + 2 * k" "2 * k + 1 < len" and chk: "chk = l4 + 2 * m" "2 * m + 1 < len"
    and len: "34 \<le> l4" "l4 + len \<le> length xs"
  shows "l4_sum (rewrite_l4 xs 14 addr port chk v w) q l4 len mod 65535 = l4_sum xs q l4 len mod 65535"
proof -
  let ?c = "update_checksum_32 (ld16 xs 24) (ld32 xs addr) v"
  let ?d = "new_l4_check xs addr port chk v w"
  let ?x1 = "st16 xs 24 ?c" let ?x2 = "st16 ?x1 chk ?d" let ?x3 = "st32 ?x2 addr v"
  let ?x4 = "st16 ?x3 port w"
  have b1: "be16 ?x1 chk = be16 xs chk" "be16 ?x3 port = be16 xs port"
    "be16 ?x2 addr = be16 xs addr" "be16 ?x2 (addr + 2) = be16 xs (addr + 2)"
    using sep by (auto simp: separate_def be16_def mem_simps)
  have r1: "region_sum ?x1 l4 len = region_sum xs l4 len"
    using len by (simp add: region_sum_st16_out)
  have r2: "region_sum ?x2 l4 len + be16 ?x1 chk = region_sum ?x1 l4 len + unat (ntohs ?d)"
    using chk len by (intro region_sum_st16) auto
  have r3: "region_sum ?x3 l4 len = region_sum ?x2 l4 len"
    using sep len by (auto simp: region_sum_st32_out separate_def)
  have r4: "region_sum ?x4 l4 len + be16 ?x3 port = region_sum ?x3 l4 len + unat (ntohs w)"
    using port len by (intro region_sum_st16) auto
  have w2: "word_sum ?x2 26 4 = word_sum xs 26 4"
    using sep by (simp add: word_sum_st16_out separate_def)
  have w3: "word_sum ?x3 26 4 + be16 ?x2 addr + be16 ?x2 (addr + 2) =
      word_sum ?x2 26 4 + unat (ntohs (lo16 v)) + unat (ntohs (hi16 v))"
    using sep by (intro word_sum_st32 [of "(addr - 26) div 2"]) (auto simp: separate_def)
  have w4: "word_sum ?x4 26 4 = word_sum ?x3 26 4"
    using sep by (simp add: word_sum_st16_out separate_def)
  have "int (l4_sum ?x4 q l4 len) - int (l4_sum xs q l4 len) =
      int (unat (ntohs ?d) + unat (ntohs (lo16 v)) + unat (ntohs (hi16 v)) + unat (ntohs w))
      - int (be16 xs chk + be16 xs addr + be16 xs (addr + 2) + be16 xs port)"
    unfolding l4_sum_def using b1 r1 r2 r3 r4 w2 w3 w4 by linarith
  then show ?thesis
    using new_l4_check_mod [OF nz, of addr port v w]
    by (simp only: rewrite_l4_flat [OF sep] nat_mod_eq_iff_dvd of_nat_numeral)
qed

text \<open>The echo header behind the IP header.\<close>

definition separate_icmp :: "bytes \<Rightarrow> nat \<Rightarrow> nat \<Rightarrow> bool" where
  "separate_icmp xs addr icmp \<longleftrightarrow> (addr = 26 \<or> addr = 30) \<and> 34 \<le> icmp \<and> icmp + 8 \<le> length xs"

definition new_icmp_check :: "bytes \<Rightarrow> nat \<Rightarrow> u16 \<Rightarrow> u16" where
  "new_icmp_check xs icmp w =
     (if ld16 xs (icmp + 2) \<noteq> 0
      then update_checksum_16 (ld16 xs (icmp + 2)) (ld16 xs (icmp + 4)) w else ld16 xs (icmp + 2))"

lemma rewrite_icmp_flat:
  assumes "separate_icmp xs addr icmp"
  shows "rewrite_icmp xs 14 addr icmp v w =
    st16 (st32 (st16 (st16 xs 24 (update_checksum_32 (ld16 xs 24) (ld32 xs addr) v))
            (icmp + 2) (new_icmp_check xs icmp w)) addr v) (icmp + 4) w"
proof -
  let ?ys = "st16 xs 24 (update_checksum_32 (ld16 xs 24) (ld32 xs addr) v)"
  have lds: "ld16 ?ys (icmp + 2) = ld16 xs (icmp + 2)"
    using assms by (auto simp: separate_icmp_def mem_simps)
  have "st16 ?ys (icmp + 2) (ld16 xs (icmp + 2)) = ?ys"
    using assms lds(1) st16_ld16 [of "icmp + 2" ?ys] by (simp add: separate_icmp_def)
  then show ?thesis
    by (auto simp: rewrite_icmp_def upd16_def upd32_def Let_def lds new_icmp_check_def)
qed

lemma rewrite_icmp_fields:
  assumes "separate_icmp xs addr icmp"
  shows "ld32 (rewrite_icmp xs 14 addr icmp v w) addr = v"
    and "ld16 (rewrite_icmp xs 14 addr icmp v w) (icmp + 4) = w"
    and "\<lbrakk>j < 24 \<or> 25 < j; j < addr \<or> addr + 3 < j; j < icmp + 2 \<or> icmp + 5 < j\<rbrakk>
         \<Longrightarrow> rewrite_icmp xs 14 addr icmp v w ! j = xs ! j"
  using assms by (auto simp: rewrite_icmp_flat separate_icmp_def mem_simps)

lemma rewrite_icmp_ip_sum:
  assumes "separate_icmp xs addr icmp" "10 \<le> n" "14 + 2 * n \<le> icmp"
  shows "word_sum (rewrite_icmp xs 14 addr icmp v w) 14 n mod 65535 = word_sum xs 14 n mod 65535"
proof -
  let ?c = "update_checksum_32 (ld16 xs 24) (ld32 xs addr) v"
  have comm: "st32 (st16 (st16 xs 24 ?c) (icmp + 2) u) addr v
      = st16 (st32 (st16 xs 24 ?c) addr v) (icmp + 2) u" for u
    using assms by (auto simp: separate_icmp_def st32_def st16_def list_update_swap)
  have "word_sum (rewrite_icmp xs 14 addr icmp v w) 14 n = word_sum (st32 (st16 xs 24 ?c) addr v) 14 n"
    using assms by (auto simp: rewrite_icmp_flat comm word_sum_st16_out separate_icmp_def)
  also have "\<dots> mod 65535 = word_sum xs 14 n mod 65535"
    using assms by (intro word_sum_rewrite_addr [where k = 5 and j = "(addr - 14) div 2"])
      (auto simp: separate_icmp_def)
  finally show ?thesis .
qed

lemma rewrite_icmp_sum:
  assumes sep: "separate_icmp xs addr icmp" and nz: "ld16 xs (icmp + 2) \<noteq> 0"
    and len: "8 \<le> len" "icmp + len \<le> length xs"
  shows "region_sum (rewrite_icmp xs 14 addr icmp v w) icmp len mod 65535 = region_sum xs icmp len mod 65535"
proof -
  let ?c = "update_checksum_32 (ld16 xs 24) (ld32 xs addr) v"
  let ?d = "new_icmp_check xs icmp w"
  let ?x1 = "st16 xs 24 ?c" let ?x2 = "st16 ?x1 (icmp + 2) ?d" let ?x3 = "st32 ?x2 addr v"
  let ?x4 = "st16 ?x3 (icmp + 4) w"
  have ld: "be16 ?x1 (icmp + 2) = be16 xs (icmp + 2)" "be16 ?x3 (icmp + 4) = be16 xs (icmp + 4)"
    using sep by (auto simp: separate_icmp_def be16_def mem_simps)
  have r1: "region_sum ?x1 icmp len = region_sum xs icmp len"
    using sep by (simp add: region_sum_st16_out separate_icmp_def)
  have r2: "region_sum ?x2 icmp len + be16 ?x1 (icmp + 2) = region_sum ?x1 icmp len + unat (ntohs ?d)"
    using len by (intro region_sum_st16 [of 1]) auto
  have r3: "region_sum ?x3 icmp len = region_sum ?x2 icmp len"
    using sep len by (auto simp: region_sum_st32_out separate_icmp_def)
  have r4: "region_sum ?x4 icmp len + be16 ?x3 (icmp + 4) = region_sum ?x3 icmp len + unat (ntohs w)"
    using len by (intro region_sum_st16 [of 2]) auto
  have "int (region_sum ?x4 icmp len) - int (region_sum xs icmp len) =
      int (unat (ntohs ?d) + unat (ntohs w)) - int (be16 xs (icmp + 2) + be16 xs (icmp + 4))"
    using ld r1 r2 r3 r4 by linarith
  moreover have "65535 dvd int (unat (ntohs ?d) + unat (ntohs w)) - int (be16 xs (icmp + 2) + be16 xs (icmp + 4))"
    using update_checksum_16_mod [of "ld16 xs (icmp + 2)" "ld16 xs (icmp + 4)" w] nz
    by (simp only: nat_mod_eq_iff_dvd be16_def new_icmp_check_def of_nat_numeral if_True simp_thms)
  ultimately show ?thesis
    by (simp only: rewrite_icmp_flat [OF sep] nat_mod_eq_iff_dvd of_nat_numeral)
qed

end
