(* ===== verification/DhcpEngine.thy ===== *)
theory DhcpEngine
  imports Headers_Util Ring_Buffers TxFrame Types_Util Checksum
begin

text \<open>
  The DHCP server of \<^verbatim>\<open>DhcpEngine.cpp\<close>: the lease pool, the request handler with its option parser
  and its reply builder, and the queue between the data plane and the background task.  A lease
  expiry is a nanosecond time of the steady clock, a lease duration a number of seconds.  The
  handler sends through \<open>send_best_effort\<close>, so it is an optional value like everything that
  sends.
\<close>

section \<open>State\<close>

record DhcpMessage =
  dm_len :: nat
  dm_data :: bytes

record DhcpLease =
  lease_mac :: bytes
  lease_ip :: u32
  lease_active :: bool
  lease_expiry :: int

record DhcpPoolConfig =
  pool_start :: u32
  pool_end :: u32
  pool_lease :: int

record DhcpEngine =
  request_queue :: "DhcpMessage SpscRingBuffer"
  leases :: "nat \<Rightarrow> DhcpLease"
  pool_count :: nat
  router_ip :: u32
  lease_duration :: int
  lan_if_mac :: bytes

definition MAX_POOL_SIZE :: nat where
  "MAX_POOL_SIZE = 253"

definition kBackgroundTaskBudget :: nat where
  "kBackgroundTaskBudget = 32"

text \<open>Field offsets of \<^verbatim>\<open>DhcpHeader\<close>: \<^verbatim>\<open>op, htype, hlen, hops, xid, secs, flags, ciaddr, yiaddr, siaddr,
  giaddr, chaddr[16], sname[64], file[128], magic_cookie\<close>.\<close>

abbreviation (input) sizeof_DhcpHeader :: nat where "sizeof_DhcpHeader \<equiv> 240"
abbreviation (input) dhcp_op_off :: "nat \<Rightarrow> nat" where "dhcp_op_off d \<equiv> d"
abbreviation (input) dhcp_htype_off :: "nat \<Rightarrow> nat" where "dhcp_htype_off d \<equiv> d + 1"
abbreviation (input) dhcp_hlen_off :: "nat \<Rightarrow> nat" where "dhcp_hlen_off d \<equiv> d + 2"
abbreviation (input) dhcp_hops_off :: "nat \<Rightarrow> nat" where "dhcp_hops_off d \<equiv> d + 3"
abbreviation (input) dhcp_xid_off :: "nat \<Rightarrow> nat" where "dhcp_xid_off d \<equiv> d + 4"
abbreviation (input) dhcp_secs_off :: "nat \<Rightarrow> nat" where "dhcp_secs_off d \<equiv> d + 8"
abbreviation (input) dhcp_flags_off :: "nat \<Rightarrow> nat" where "dhcp_flags_off d \<equiv> d + 10"
abbreviation (input) dhcp_ciaddr_off :: "nat \<Rightarrow> nat" where "dhcp_ciaddr_off d \<equiv> d + 12"
abbreviation (input) dhcp_yiaddr_off :: "nat \<Rightarrow> nat" where "dhcp_yiaddr_off d \<equiv> d + 16"
abbreviation (input) dhcp_siaddr_off :: "nat \<Rightarrow> nat" where "dhcp_siaddr_off d \<equiv> d + 20"
abbreviation (input) dhcp_giaddr_off :: "nat \<Rightarrow> nat" where "dhcp_giaddr_off d \<equiv> d + 24"
abbreviation (input) dhcp_chaddr_off :: "nat \<Rightarrow> nat" where "dhcp_chaddr_off d \<equiv> d + 28"
abbreviation (input) dhcp_magic_off :: "nat \<Rightarrow> nat" where "dhcp_magic_off d \<equiv> d + 236"

section \<open>The pool\<close>

text \<open>The engine after the call, and the error if there is one.\<close>

definition init_pool :: "u32 \<Rightarrow> u32 \<Rightarrow> DhcpEngine \<Rightarrow> DhcpEngine \<times> string option" where
  "init_pool start_ip end_ip st =
     (let start_h = unat (to_host start_ip); end_h = unat (to_host end_ip) in
      if end_h < start_h then (st, Some ''DHCP pool_end is before pool_start'')
      else
        let sp = end_h - start_h + 1 in
        if sp = 0 then (st, Some ''DHCP pool range overflow'')
        else
          let st = st\<lparr>pool_count := min sp MAX_POOL_SIZE\<rparr> in
          if pool_count st = 0 then (st, Some ''DHCP pool is empty'')
          else
            (st\<lparr>leases := fold (\<lambda>i ls. ls(i := (ls i)\<lparr>lease_ip := pool_advance start_ip (of_nat i),
                                                      lease_active := False\<rparr>))
                            [0..<pool_count st] (leases st)\<rparr>, None))"

definition find_or_assign_lease :: "bytes \<Rightarrow> DhcpEngine \<Rightarrow> World \<Rightarrow> u32 \<times> DhcpEngine \<times> World" where
  "find_or_assign_lease mac st w =
     (let (now, w) = steady_now w; duration = lease_duration st in
      case find (\<lambda>i. lease_active (leases st i) \<and> lease_mac (leases st i) = mac) [0..<pool_count st] of
        Some i \<Rightarrow> (lease_ip (leases st i), st, w)
      | None \<Rightarrow>
          (case find (\<lambda>i. \<not> lease_active (leases st i) \<or> now > lease_expiry (leases st i)) [0..<pool_count st] of
             Some i \<Rightarrow>
               (lease_ip (leases st i),
                st\<lparr>leases := (leases st)(i := (leases st i)\<lparr>lease_mac := mac, lease_active := True,
                     lease_expiry := now + duration * 1000000000\<rparr>)\<rparr>, w)
           | None \<Rightarrow> (0, st, w)))"

definition commit_lease :: "u32 \<Rightarrow> DhcpEngine \<Rightarrow> World \<Rightarrow> DhcpEngine \<times> World" where
  "commit_lease ip st w =
     (case find (\<lambda>i. lease_ip (leases st i) = ip) [0..<pool_count st] of
        None \<Rightarrow> (st, w)
      | Some i \<Rightarrow>
          let (now, w) = steady_now w in
          (st\<lparr>leases := (leases st)(i := (leases st i)\<lparr>lease_active := True,
                lease_expiry := now + lease_duration st * 1000000000\<rparr>)\<rparr>, w))"

section \<open>The request handler\<close>

text \<open>The option loop on the 512-byte message array: \<open>i\<close> is the offset of \<open>opt\<close>, \<open>e\<close> that of \<open>end\<close>.
  When \<open>opt\<close> is the last byte of the array the code reads one byte behind it; whatever it reads,
  the bound check that follows ends the loop, which is what the first \<open>else\<close> branch does.\<close>

function opt_loop :: "bytes \<Rightarrow> nat \<Rightarrow> nat \<Rightarrow> u8 \<Rightarrow> u32 \<Rightarrow> u8 \<times> u32" where
  "opt_loop data e i msg_type requested =
     (if \<not> (i < e \<and> data ! i \<noteq> 255) then (msg_type, requested)
      else if data ! i = 0 then opt_loop data e (i + 1) msg_type requested
      else if i + 1 \<ge> length data then (msg_type, requested)
      else
        let len = unat (data ! (i + 1)) in
        if i + 2 + len > e then (msg_type, requested)
        else
          let msg_type = (if data ! i = 53 \<and> len = 1 then data ! (i + 2) else msg_type);
              requested = (if data ! i = 50 \<and> len = 4 then ld32 data (i + 2) else requested)
          in opt_loop data e (i + 2 + len) msg_type requested)"
  by pat_completeness auto
termination
  by (relation "measure (\<lambda>(data, e, i, mt, r). e - i)") auto

declare opt_loop.simps [simp del]

definition dhcp_options :: "u8 \<Rightarrow> u32 \<Rightarrow> int \<Rightarrow> bytes" where
  "dhcp_options type router lease =
     [53, 1, type] @
     [1, 4, 255, 255, 255, 0] @
     [3, 4] @ bytes32 router @
     [6, 8] @ bytes32 (htonl 0x08080808) @ bytes32 (htonl 0x08040404) @
     [51, 4] @ bytes32 (htonl (of_int lease)) @
     [54, 4] @ bytes32 router @
     [255]"

text \<open>The header checksum of the reply: ten words, folded twice.\<close>

definition reply_ip_check :: "bytes \<Rightarrow> nat \<Rightarrow> u16" where
  "reply_ip_check xs ip =
     (let ip_sum = foldl (\<lambda>s i. s + ucast (ntohs (ld16 xs (ip + 2 * i)))) 0 [0..<sizeof_IPv4Header div 2] :: u32;
          ip_sum = drop_bit 16 ip_sum + (ip_sum AND 0xFFFF);
          ip_sum = ip_sum + drop_bit 16 ip_sum
      in htons (ucast (NOT ip_sum)))"

definition build_response :: "bytes \<Rightarrow> nat \<Rightarrow> DhcpEngine \<Rightarrow> u8 \<Rightarrow> u32 \<Rightarrow> bytes" where
  "build_response data dhcp st type yiaddr =
     (let chaddr = take 16 (drop (dhcp_chaddr_off dhcp) data);
          r = replicate 512 0;
          r = memcpy r (eth_dest_off 0) (take 6 chaddr);
          r = memcpy r (eth_src_off 0) (lan_if_mac st);
          r = st16 r (eth_proto_off 0) (htons 0x0800);
          ip = sizeof_EthernetHeader;
          r = st8 r (ip_ver_ihl_off ip) 0x45;
          r = st8 r (ip_tos_off ip) 0;
          r = st16 r (ip_id_off ip) 0;
          r = st16 r (ip_frag_off_off ip) 0;
          r = st8 r (ip_ttl_off ip) 64;
          r = st8 r (ip_protocol_off ip) 17;
          r = st32 r (ip_saddr_off ip) (router_ip st);
          r = st32 r (ip_daddr_off ip) 0xFFFFFFFF;
          u = sizeof_EthernetHeader + sizeof_IPv4Header;
          r = st16 r (l4_source_off u) (htons 67);
          r = st16 r (l4_dest_off u) (htons 68);
          d = sizeof_EthernetHeader + sizeof_IPv4Header + sizeof_UDPHeader;
          r = st8 r (dhcp_op_off d) 2;
          r = st8 r (dhcp_htype_off d) 1;
          r = st8 r (dhcp_hlen_off d) 6;
          r = st8 r (dhcp_hops_off d) 0;
          r = st32 r (dhcp_xid_off d) (ld32 data (dhcp_xid_off dhcp));
          r = st16 r (dhcp_secs_off d) 0;
          r = st16 r (dhcp_flags_off d) (htons 0x8000);
          r = st32 r (dhcp_ciaddr_off d) 0;
          r = st32 r (dhcp_yiaddr_off d) yiaddr;
          r = st32 r (dhcp_siaddr_off d) (router_ip st);
          r = st32 r (dhcp_giaddr_off d) 0;
          r = memcpy r (dhcp_chaddr_off d) chaddr;
          r = st32 r (dhcp_magic_off d) (htonl 0x63825363);
          opts = dhcp_options type (router_ip st) (lease_duration st);
          r = memcpy r (d + sizeof_DhcpHeader) opts;
          dhcp_len = sizeof_DhcpHeader + length opts;
          udp_len = sizeof_UDPHeader + dhcp_len;
          ip_len = sizeof_IPv4Header + udp_len;
          total_len = sizeof_EthernetHeader + ip_len;
          r = st16 r (ip_tot_len_off ip) (htons (of_nat ip_len));
          r = st16 r (ip_check_off ip) 0;
          r = st16 r (ip_check_off ip) (reply_ip_check r ip);
          r = st16 r (udp_len_off u) (htons (of_nat udp_len));
          r = st16 r (udp_check_off u) 0
      in take total_len r)"

definition send_response ::
  "bytes \<Rightarrow> nat \<Rightarrow> int \<Rightarrow> u8 \<Rightarrow> u32 \<Rightarrow> DhcpEngine \<Rightarrow> World \<Rightarrow> (DhcpEngine \<times> World) option" where
  "send_response data dhcp lan_fd type yiaddr st w =
     do {
       w \<leftarrow> send_best_effort lan_fd (build_response data dhcp st type yiaddr) 2 0 w;
       Some (st, w)
     }"

definition handle_dhcp_request :: "DhcpMessage \<Rightarrow> int \<Rightarrow> DhcpEngine \<Rightarrow> World \<Rightarrow> (DhcpEngine \<times> World) option" where
  "handle_dhcp_request msg lan_fd st w =
     (let data = dm_data msg; parsed = parse (take (dm_len msg) data) in
      if \<not> is_valid_ipv4 parsed then Some (st, w)
      else if l4_protocol parsed \<noteq> 17 then Some (st, w)
      else case udp parsed of
        None \<Rightarrow> Some (st, w)
      | Some u \<Rightarrow>
          if ntohs (ld16 data (l4_dest_off u)) \<noteq> 67 then Some (st, w)
          else
            let dhcp = l4_offset parsed + sizeof_UDPHeader in
            if dm_len msg < dhcp + sizeof_DhcpHeader then Some (st, w)
            else if data ! dhcp_op_off dhcp \<noteq> 1 then Some (st, w)
            else if ntohl (ld32 data (dhcp_magic_off dhcp)) \<noteq> 0x63825363 then Some (st, w)
            else
              let (msg_type, requested_ip) = opt_loop data (dm_len msg) (dhcp + sizeof_DhcpHeader) 0 0;
                  mac = take 6 (drop (dhcp_chaddr_off dhcp) data) in
              if msg_type = 1 then
                let (offered_ip, st, w) = find_or_assign_lease mac st w in
                if offered_ip \<noteq> 0 then send_response data dhcp lan_fd 2 offered_ip st w else Some (st, w)
              else if msg_type = 3 then
                let requested_ip = (if requested_ip = 0 then ld32 data (dhcp_ciaddr_off dhcp) else requested_ip);
                    (leased_ip, st, w) = find_or_assign_lease mac st w in
                if leased_ip = requested_ip then
                  let (st, w) = commit_lease leased_ip st w
                  in send_response data dhcp lan_fd 5 leased_ip st w
                else send_response data dhcp lan_fd 6 requested_ip st w
              else Some (st, w))"

section \<open>The public interface\<close>

text \<open>The constructor; the hardware address of the LAN interface, if it could be read, is an
  argument.\<close>

definition empty_lease :: DhcpLease where
  "empty_lease = \<lparr>lease_mac = replicate 6 0, lease_ip = 0, lease_active = False, lease_expiry = 0\<rparr>"

definition empty_message :: DhcpMessage where
  "empty_message = \<lparr>dm_len = 0, dm_data = replicate 512 0\<rparr>"

definition DhcpEngine_new :: "string \<Rightarrow> DhcpPoolConfig \<Rightarrow> bytes option \<Rightarrow> DhcpEngine" where
  "DhcpEngine_new lan_ip cfg hwaddr =
     (let st = \<lparr>request_queue = spsc_empty empty_message, leases = (\<lambda>_. empty_lease), pool_count = 0,
                router_ip = parse_ipv4 lan_ip, lease_duration = pool_lease cfg,
                lan_if_mac = replicate 6 0\<rparr>;
          st = fst (init_pool (pool_start cfg) (pool_end cfg) st)
      in case hwaddr of None \<Rightarrow> st | Some mac \<Rightarrow> st\<lparr>lan_if_mac := mac\<rparr>)"

definition reconfigure :: "DhcpPoolConfig \<Rightarrow> DhcpEngine \<Rightarrow> DhcpEngine \<times> string option" where
  "reconfigure cfg st =
     init_pool (pool_start cfg) (pool_end cfg) (st\<lparr>lease_duration := pool_lease cfg\<rparr>)"

definition set_router_ip :: "u32 \<Rightarrow> DhcpEngine \<Rightarrow> DhcpEngine" where
  "set_router_ip ip st = st\<lparr>router_ip := ip\<rparr>"

definition router_ip_snapshot :: "DhcpEngine \<Rightarrow> u32" where
  "router_ip_snapshot st = router_ip st"

definition intercept_request :: "ParsedPacket \<Rightarrow> DhcpEngine \<Rightarrow> DhcpEngine" where
  "intercept_request pkt st =
     (let len = min (length (raw_span pkt)) 512;
          msg = \<lparr>dm_len = len, dm_data = memcpy (replicate 512 0) 0 (take len (raw_span pkt))\<rparr>
      in st\<lparr>request_queue := snd (spsc_push 512 (request_queue st) msg)\<rparr>)"

fun background_loop :: "nat \<Rightarrow> int \<Rightarrow> DhcpEngine \<Rightarrow> World \<Rightarrow> (DhcpEngine \<times> World) option" where
  "background_loop 0 lan_fd st w = Some (st, w)"
| "background_loop (Suc n) lan_fd st w =
     (case spsc_pop 512 (request_queue st) of
        (None, q) \<Rightarrow> Some (st\<lparr>request_queue := q\<rparr>, w)
      | (Some msg, q) \<Rightarrow>
          do {
            (st, w) \<leftarrow> handle_dhcp_request msg lan_fd (st\<lparr>request_queue := q\<rparr>) w;
            background_loop n lan_fd st w
          })"

definition process_background_tasks :: "int \<Rightarrow> DhcpEngine \<Rightarrow> World \<Rightarrow> (DhcpEngine \<times> World) option" where
  "process_background_tasks lan_fd st w = background_loop kBackgroundTaskBudget lan_fd st w"

end
