(* ===== verification/ForwardEngine.thy ===== *)
theory ForwardEngine
  imports Events ForwardingState NatEngine DhcpEngine
begin

text \<open>
  The packet pipeline of \<^verbatim>\<open>App.cpp\<close>: the route handlers, the \<^verbatim>\<open>PacketConsumer\<close> with its steps, and the worker
  configurations of the two directions.  What the two workers share is one record, passed through every
  step; a consumer refers to its shaper by number (0 downstream, 1 upstream).  Sends may fail to return, so
  a step is an optional value.
\<close>

section \<open>State\<close>

record Shared =
  sh_nat :: NatEngine
  sh_dhcp :: DhcpEngine
  sh_shapers :: "nat \<Rightarrow> Shaper"
  sh_plane :: ForwardingState
  sh_cfg :: Config
  sh_world :: World

record RouteContext =
  rc_tx_fd :: int
  rc_shaper :: "nat option"

type_synonym RouteFunc = "RouteContext \<Rightarrow> bytes \<Rightarrow> nat \<Rightarrow> int \<Rightarrow> Shared \<Rightarrow> Shared option"

datatype PipelineStep =
    Step_dhcp_interceptor | Step_nat_downstream | Step_nat_upstream
  | Step_eth_rewrite_lan_to_wan | Step_eth_rewrite_wan_to_lan | Step_qos_routing

record PacketWorkerConfig =
  wc_tx_fd :: int
  wc_core_id :: int
  wc_shaper :: "nat option"
  wc_nat :: bool
  wc_dhcp :: bool
  wc_callbacks :: CallbackRegistry

record PacketConsumer =
  rx_fd :: int
  tx_fd :: int
  core_id :: int
  stats :: BatchStats
  ctx :: RouteContext
  nat_engine :: bool
  dhcp_engine :: bool
  callbacks :: CallbackRegistry
  routes :: "nat \<Rightarrow> nat \<Rightarrow> RouteFunc"
  pipeline :: "PipelineStep option list"

section \<open>Route handlers\<close>

definition fast_path_handler :: RouteFunc where
  "fast_path_handler c pkt prio_idx core s =
     do {
       w \<leftarrow> send_best_effort (rc_tx_fd c) pkt (nat core) prio_idx (sh_world s);
       Some (s\<lparr>sh_world := w\<rparr>)
     }"

definition shaper_handler :: RouteFunc where
  "shaper_handler c pkt prio_idx core s =
     Some (case rc_shaper c of
             None \<Rightarrow> s
           | Some i \<Rightarrow>
               let (sh, w) = enqueue_normal pkt (sh_shapers s i) (sh_world s)
               in s\<lparr>sh_shapers := (sh_shapers s)(i := sh), sh_world := w\<rparr>)"

section \<open>The consumer\<close>

definition route_table :: "nat \<Rightarrow> nat \<Rightarrow> RouteFunc" where
  "route_table mode prio =
     [[fast_path_handler, shaper_handler],
      [fast_path_handler, fast_path_handler]] ! mode ! prio"

definition pipeline_for :: "int \<Rightarrow> PipelineStep option list" where
  "pipeline_for core =
     (if core = 2 then
        [Some Step_dhcp_interceptor, Some Step_nat_downstream, Some Step_eth_rewrite_wan_to_lan, Some Step_qos_routing,
         None, None, None, None, None, None, None, None]
      else
        [Some Step_dhcp_interceptor, Some Step_nat_downstream, Some Step_nat_upstream, Some Step_eth_rewrite_lan_to_wan,
         Some Step_qos_routing, None, None, None, None, None, None, None])"

definition PacketConsumer_new :: "int \<Rightarrow> PacketWorkerConfig \<Rightarrow> PacketConsumer" where
  "PacketConsumer_new rx_fd' cfg =
     \<lparr>rx_fd = rx_fd', tx_fd = wc_tx_fd cfg, core_id = wc_core_id cfg, stats = BatchStats_reset,
      ctx = \<lparr>rc_tx_fd = wc_tx_fd cfg, rc_shaper = wc_shaper cfg\<rparr>, nat_engine = wc_nat cfg, dhcp_engine = wc_dhcp cfg,
      callbacks = wc_callbacks cfg, routes = route_table, pipeline = pipeline_for (wc_core_id cfg)\<rparr>"

type_synonym step_result = "bool \<times> PacketConsumer \<times> ParsedPacket \<times> Shared"

definition step_dhcp_interceptor :: "PacketConsumer \<Rightarrow> ParsedPacket \<Rightarrow> Shared \<Rightarrow> step_result" where
  "step_dhcp_interceptor self pkt s =
     (if core_id self = 3 \<and> is_valid_ipv4 pkt \<and> l4_protocol pkt = 17 then
        (case udp pkt of
           Some u \<Rightarrow>
             let dest = ntohs (ld16 (raw_span pkt) (l4_dest_off u)) in
             if dest = 67 \<or> dest = 68 then
               (True, self, pkt, if dhcp_engine self then s\<lparr>sh_dhcp := intercept_request pkt (sh_dhcp s)\<rparr> else s)
             else (False, self, pkt, s)
         | None \<Rightarrow> (False, self, pkt, s))
      else (False, self, pkt, s))"

definition step_nat_downstream :: "PacketConsumer \<Rightarrow> ParsedPacket \<Rightarrow> Shared \<Rightarrow> step_result" where
  "step_nat_downstream self pkt s =
     (if \<not> enable_nat (sh_cfg s) then (False, self, pkt, s)
      else if nat_engine self then
        case process_inbound (sh_nat s) pkt of (ok, st, pkt) \<Rightarrow> (False, self, pkt, s\<lparr>sh_nat := st\<rparr>)
      else (False, self, pkt, s))"

definition step_nat_upstream :: "PacketConsumer \<Rightarrow> ParsedPacket \<Rightarrow> Shared \<Rightarrow> step_result" where
  "step_nat_upstream self pkt s =
     (if \<not> enable_nat (sh_cfg s) then (False, self, pkt, s)
      else if nat_engine self then
        case process_outbound (sh_nat s) pkt of (ok, st, pkt) \<Rightarrow> (False, self, pkt, s\<lparr>sh_nat := st\<rparr>)
      else (False, self, pkt, s))"

definition ipv4_needs_eth_rewrite_for_forward :: "bytes \<Rightarrow> nat \<Rightarrow> bool" where
  "ipv4_needs_eth_rewrite_for_forward xs ip =
     (let d = ntohl (ld32 xs (ip_daddr_off ip)) in
      if d = 0xFFFFFFFF then False
      else if drop_bit 24 d \<ge> 224 then False
      else True)"

definition step_eth_rewrite_lan_to_wan :: "PacketConsumer \<Rightarrow> ParsedPacket \<Rightarrow> Shared \<Rightarrow> step_result" where
  "step_eth_rewrite_lan_to_wan self pkt s =
     (if \<not> enable_nat (sh_cfg s) then (False, self, pkt, s)
      else let snap = snapshot (sh_plane s) in
      case (eth pkt, ipv4 pkt) of
        (Some e, Some ip) \<Rightarrow>
          if \<not> ready snap then (False, self, pkt, s)
          else if \<not> ipv4_needs_eth_rewrite_for_forward (raw_span pkt) ip then (False, self, pkt, s)
          else
            let dst = ld32 (raw_span pkt) (ip_daddr_off ip);
                on_link = (if wan_cfg_valid snap then ipv4_in_subnet dst (wan_prefix_len snap) (snap_wan_ip snap) else False);
                pkt = pkt\<lparr>raw_span := memcpy (raw_span pkt) (eth_src_off e) (wan_hw snap)\<rparr> in
            if on_link then
              (case resolve_mac_onlink snap dst of
                 None \<Rightarrow> (True, self, pkt, s)
               | Some nh \<Rightarrow> (False, self, pkt\<lparr>raw_span := memcpy (raw_span pkt) (eth_dest_off e) nh\<rparr>, s))
            else if \<not> default_gw_ip_configured snap then (True, self, pkt, s)
            else if \<not> gw_hw_valid snap then (True, self, pkt, s)
            else (False, self, pkt\<lparr>raw_span := memcpy (raw_span pkt) (eth_dest_off e) (gw_hw snap)\<rparr>, s)
      | _ \<Rightarrow> (False, self, pkt, s))"

definition step_eth_rewrite_wan_to_lan :: "PacketConsumer \<Rightarrow> ParsedPacket \<Rightarrow> Shared \<Rightarrow> step_result" where
  "step_eth_rewrite_wan_to_lan self pkt s =
     (if \<not> enable_nat (sh_cfg s) then (False, self, pkt, s)
      else let snap = snapshot (sh_plane s) in
      case (eth pkt, ipv4 pkt) of
        (Some e, Some ip) \<Rightarrow>
          if \<not> ready snap then (False, self, pkt, s)
          else if \<not> ipv4_needs_eth_rewrite_for_forward (raw_span pkt) ip then (False, self, pkt, s)
          else
            let key = ld32 (raw_span pkt) (ip_daddr_off ip) in
            (case find (\<lambda>i. ip_nbo (arp snap i) = key) [0..<arp_count snap] of
               None \<Rightarrow> (False, self, pkt, s)
             | Some i \<Rightarrow>
                 let xs = memcpy (raw_span pkt) (eth_src_off e) (lan_hw snap);
                     xs = memcpy xs (eth_dest_off e) (arp_mac (arp snap i))
                 in (False, self, pkt\<lparr>raw_span := xs\<rparr>, s))
      | _ \<Rightarrow> (False, self, pkt, s))"

definition count_packet :: "nat \<Rightarrow> nat \<Rightarrow> BatchStats \<Rightarrow> BatchStats" where
  "count_packet pidx sz st =
     st\<lparr>bs_pkts := bs_pkts st + 1, bs_bytes := bs_bytes st + of_nat sz,
        bs_prio_pkts := (bs_prio_pkts st)(pidx := bs_prio_pkts st pidx + 1),
        bs_prio_bytes := (bs_prio_bytes st)(pidx := bs_prio_bytes st pidx + of_nat sz)\<rparr>"

definition step_qos_routing :: "PacketConsumer \<Rightarrow> ParsedPacket \<Rightarrow> Shared \<Rightarrow> step_result option" where
  "step_qos_routing self pkt s =
     (let prio = process (LARGE_PACKET_THRESHOLD_BYTES (sh_cfg s)) pkt;
          pidx = prio_index prio;
          self = self\<lparr>stats := count_packet pidx (length (raw_span pkt)) (stats self)\<rparr>;
          s = s\<lparr>sh_world := dispatch_packet (callbacks self) pkt prio (sh_world s)\<rparr>;
          mode = (if effective_bridge_mode (tel (sh_world s)) then 1 else 0)
      in do {
        s \<leftarrow> routes self mode pidx (ctx self) (raw_span pkt) pidx (core_id self) s;
        Some (True, self, pkt, s)
      })"

fun run_step :: "PipelineStep \<Rightarrow> PacketConsumer \<Rightarrow> ParsedPacket \<Rightarrow> Shared \<Rightarrow> step_result option" where
  "run_step Step_dhcp_interceptor self pkt s = Some (step_dhcp_interceptor self pkt s)"
| "run_step Step_nat_downstream self pkt s = Some (step_nat_downstream self pkt s)"
| "run_step Step_nat_upstream self pkt s = Some (step_nat_upstream self pkt s)"
| "run_step Step_eth_rewrite_lan_to_wan self pkt s = Some (step_eth_rewrite_lan_to_wan self pkt s)"
| "run_step Step_eth_rewrite_wan_to_lan self pkt s = Some (step_eth_rewrite_wan_to_lan self pkt s)"
| "run_step Step_qos_routing self pkt s = step_qos_routing self pkt s"

fun run_pipeline ::
  "PipelineStep option list \<Rightarrow> PacketConsumer \<Rightarrow> ParsedPacket \<Rightarrow> Shared \<Rightarrow> (PacketConsumer \<times> Shared) option" where
  "run_pipeline [] self pkt s = Some (self, s)"
| "run_pipeline (None # steps) self pkt s = run_pipeline steps self pkt s"
| "run_pipeline (Some step # steps) self pkt s =
     do {
       (handled, self, pkt, s) \<leftarrow> run_step step self pkt s;
       if handled then Some (self, s) else run_pipeline steps self pkt s
     }"

definition commit_stats :: "PacketConsumer \<Rightarrow> Shared \<Rightarrow> PacketConsumer \<times> Shared" where
  "commit_stats self s =
     (if bs_pkts (stats self) AND 31 = 0 then
        (self\<lparr>stats := BatchStats_reset\<rparr>,
         s\<lparr>sh_world := dispatch_batch (callbacks self) (stats self) (core_id self) (sh_world s)\<rparr>)
      else (self, s))"

definition on_packet_event :: "PacketConsumer \<Rightarrow> ParsedPacket \<Rightarrow> Shared \<Rightarrow> (PacketConsumer \<times> Shared) option" where
  "on_packet_event self pkt s =
     do {
       (self, s) \<leftarrow> run_pipeline (pipeline self) self pkt s;
       Some (commit_stats self s)
     }"

section \<open>The two directions\<close>

definition downstream_config :: "int \<Rightarrow> CallbackRegistry \<Rightarrow> PacketWorkerConfig" where
  "downstream_config fd_lan dl_events =
     \<lparr>wc_tx_fd = fd_lan, wc_core_id = 2, wc_shaper = Some 0, wc_nat = True, wc_dhcp = True, wc_callbacks = dl_events\<rparr>"

definition upstream_config :: "int \<Rightarrow> CallbackRegistry \<Rightarrow> PacketWorkerConfig" where
  "upstream_config fd_wan ul_events =
     \<lparr>wc_tx_fd = fd_wan, wc_core_id = 3, wc_shaper = Some 1, wc_nat = True, wc_dhcp = True, wc_callbacks = ul_events\<rparr>"

text \<open>What the processing thread does with one received frame.\<close>

definition process_frame :: "PacketConsumer \<Rightarrow> bytes \<Rightarrow> Shared \<Rightarrow> (PacketConsumer \<times> Shared) option" where
  "process_frame self frame s =
     (let s = s\<lparr>sh_world := dispatch_frame (callbacks self) frame (sh_world s)\<rparr>
      in on_packet_event self (parse frame) s)"

end
