(* ===== verification/Nat_Sessions.thy ===== *)
theory Nat_Sessions
  imports NatEngine
begin

text \<open>
  The session tables of the translator as a transition system.  The first part gives the table
  updates of the probe loops in closed form; the second lists what one operation can do to the
  tables (\<open>nat_effect\<close>); the third proves the invariant \<open>nat_inv\<close> of every reachable state: cursors
  and external ports stay in 10000 to 60000, sequence numbers are even between operations, the
  reverse maps hold valid indices, and each active echo session owns its identifier.  The last
  part shows that a TCP or UDP session stays mapped while it is in use.
\<close>

section \<open>Closed forms of the table updates\<close>

definition next_cursor :: "u16 \<Rightarrow> u16" where
  "next_cursor c = (if c + 1 > 60000 then 10000 else c + 1)"

definition cursor_ok :: "u16 \<Rightarrow> bool" where
  "cursor_ok c \<longleftrightarrow> 10000 \<le> unat c \<and> unat c \<le> 60000"

lemma unat_inc_cursor: "cursor_ok c \<Longrightarrow> unat (c + 1) = unat c + 1"
  by (simp add: cursor_ok_def unat_word_ariths)

lemma gt_60000: "(60000 :: u16) < x \<longleftrightarrow> 60000 < unat x"
  by (simp add: word_less_nat_alt)

lemma unat_next_cursor:
  "cursor_ok c \<Longrightarrow> unat (next_cursor c) = (if unat c = 60000 then 10000 else unat c + 1)"
  using unat_inc_cursor [of c] by (auto simp: next_cursor_def gt_60000 cursor_ok_def)

lemma cursor_ok_next: "cursor_ok c \<Longrightarrow> cursor_ok (next_cursor c)"
  using unat_next_cursor [of c] by (auto simp: cursor_ok_def split: if_splits)

lemma cursor_ok_nonzero: "cursor_ok c \<Longrightarrow> c \<noteq> 0"
  by (auto simp: cursor_ok_def)

lemma seq_parity: "(x :: u32) AND 1 \<noteq> 0 \<longleftrightarrow> odd x"
  by (simp add: and_one_eq odd_iff_mod_2_eq_one)

definition fresh_session :: "NatSession \<Rightarrow> FlowKey \<Rightarrow> u32 \<Rightarrow> u16 \<Rightarrow> NatSession" where
  "fresh_session s key now ext =
     \<lparr>ns_seq = ns_seq s + 1 + 1, internal_key = key, external_port = ext,
      ns_last_active_tick = now, ns_active = True\<rparr>"

definition evicted :: "nat \<Rightarrow> NatEngine \<Rightarrow> u16 \<Rightarrow> int" where
  "evicted idx st =
     (let old = ntohs (external_port (sessions st idx)) in
      if ns_active (sessions st idx) \<and> port_to_index st old = int idx
      then (port_to_index st)(old := -1) else port_to_index st)"

lemma take_slot_eq:
  "take_slot key now idx st =
     (st\<lparr>sessions := (sessions st)
            (idx := fresh_session (sessions st idx) key now (ntohs (port_cursor st))),
         port_to_index := (evicted idx st)(port_cursor st := int idx),
         port_cursor := next_cursor (port_cursor st)\<rparr>,
      ntohs (port_cursor st))"
proof -
  have "sessions st idx = \<lparr>ns_seq = ns_seq (sessions st idx), internal_key = internal_key (sessions st idx),
      external_port = external_port (sessions st idx),
      ns_last_active_tick = ns_last_active_tick (sessions st idx),
      ns_active = ns_active (sessions st idx)\<rparr>" by simp
  then show ?thesis
    by (cases st) (auto simp: take_slot_def upd_session_def port_cas_def fresh_session_def
        evicted_def next_cursor_def Let_def)
qed

text \<open>The three ways the probe loop can end.\<close>

definition slot_usable :: "NatEngine \<Rightarrow> nat \<Rightarrow> bool" where
  "slot_usable st idx \<longleftrightarrow>
     \<not> ns_active (sessions st idx) \<or> current_tick st - ns_last_active_tick (sessions st idx) > 300"

abbreviation touch :: "nat \<Rightarrow> NatEngine \<Rightarrow> NatEngine" where
  "touch idx st \<equiv> upd_session idx (\<lambda>s. s\<lparr>ns_last_active_tick := current_tick st\<rparr>) st"

inductive probe_result :: "FlowKey \<Rightarrow> NatEngine \<Rightarrow> NatEngine \<times> u16 \<Rightarrow> bool" for key st where
  none: "probe_result key st (st, 0)"
| fresh: "idx < MAX_SESSIONS \<Longrightarrow> slot_usable st idx \<Longrightarrow>
     probe_result key st (take_slot key (current_tick st) idx st)"
| old: "idx < MAX_SESSIONS \<Longrightarrow> \<not> slot_usable st idx \<Longrightarrow> internal_key (sessions st idx) = key \<Longrightarrow>
     probe_result key st (touch idx st, external_port (sessions st idx))"

lemma probe_result: "probe_result key st (probe key h r i st)"
proof (induction r arbitrary: i)
  case (Suc r)
  let ?idx = "(h + i) mod MAX_SESSIONS"
  have idx: "?idx < MAX_SESSIONS" by (simp add: MAX_SESSIONS_def)
  consider "slot_usable st ?idx" | "\<not> slot_usable st ?idx" "internal_key (sessions st ?idx) = key"
    | "\<not> slot_usable st ?idx" "internal_key (sessions st ?idx) \<noteq> key" by blast
  then show ?case
  proof cases
    case 1
    then show ?thesis using fresh [OF idx 1, of key] by (simp add: Let_def slot_usable_def)
  next
    case 2
    then show ?thesis using old [OF idx 2] by (simp add: Let_def slot_usable_def)
  next
    case 3
    then show ?thesis using Suc by (simp add: Let_def slot_usable_def)
  qed
qed (simp add: none)


text \<open>The same for echo sessions.\<close>

definition id_free :: "NatEngine \<Rightarrow> u16 \<Rightarrow> bool" where
  "id_free st host \<longleftrightarrow>
     (let idx = icmp_id_to_index st host in
      idx < 0 \<or> nat idx < MAX_ICMP_SESSIONS \<and> \<not> ie_active (icmp_sessions st (nat idx)))"

lemma alloc_icmp_loop_spec:
  assumes "alloc_icmp_loop n st = (st', ext)" "cursor_ok (icmp_id_cursor st)"
  shows "\<exists>c m. cursor_ok c \<and> st' = st\<lparr>icmp_id_cursor := c, icmp_id_to_index := m\<rparr> \<and>
     (ext = 0 \<and> m = icmp_id_to_index st \<or>
      cursor_ok (ntohs ext) \<and> id_free st (ntohs ext) \<and>
      (\<forall>v. m(ntohs ext := v) = (icmp_id_to_index st)(ntohs ext := v)))"
  using assms
proof (induction n arbitrary: st)
  case 0
  then show ?case by (intro exI [of _ "icmp_id_cursor st"] exI [of _ "icmp_id_to_index st"]) simp
next
  case (Suc n)
  let ?c = "icmp_id_cursor st" and ?st = "st\<lparr>icmp_id_cursor := next_cursor (icmp_id_cursor st)\<rparr>"
  have unf: "alloc_icmp_loop (Suc n) st =
     (if icmp_id_to_index st ?c < 0 then (?st, ntohs ?c)
      else if id_free st ?c then (icmp_cas ?c (icmp_id_to_index st ?c) (-1) ?st, ntohs ?c)
      else alloc_icmp_loop n ?st)"
    by (auto simp: Let_def next_cursor_def id_free_def)
  have ok: "cursor_ok (next_cursor ?c)" using Suc.prems(2) by (rule cursor_ok_next)
  show ?case
  proof (cases "id_free st ?c")
    case True
    then show ?thesis
      using Suc.prems ok unfolding unf
      by (intro exI [of _ "next_cursor ?c"] exI [of _ "icmp_id_to_index st'"])
        (auto simp: icmp_cas_def split: if_splits)
  next
    case False
    then have "alloc_icmp_loop n ?st = (st', ext)"
      using Suc.prems(1) unfolding unf by (auto simp: id_free_def Let_def)
    from Suc.IH [OF this] ok show ?thesis by (auto simp: id_free_def Let_def)
  qed
qed

definition icmp_evicted :: "nat \<Rightarrow> NatEngine \<Rightarrow> u16 \<Rightarrow> int" where
  "icmp_evicted idx st =
     (let old = ntohs (ext_id_nbo (icmp_sessions st idx)) in
      if ie_active (icmp_sessions st idx) \<and> icmp_id_to_index st old = int idx
      then (icmp_id_to_index st)(old := -1) else icmp_id_to_index st)"

definition closed_icmp :: "nat \<Rightarrow> NatEngine \<Rightarrow> NatEngine" where
  "closed_icmp idx st = st\<lparr>icmp_sessions := (icmp_sessions st)(idx := (icmp_sessions st idx)
     \<lparr>ie_seq := ie_seq (icmp_sessions st idx) + 1, ie_active := False\<rparr>),
     icmp_id_to_index := icmp_evicted idx st\<rparr>"

definition fresh_icmp :: "IcmpEchoSession \<Rightarrow> u32 \<Rightarrow> u32 \<Rightarrow> u16 \<Rightarrow> u16 \<Rightarrow> u32 \<Rightarrow> IcmpEchoSession" where
  "fresh_icmp s sa da id_n ext now =
     s\<lparr>int_saddr := sa, remote_daddr := da, int_id_nbo := id_n, ext_id_nbo := ext,
       ie_last_active_tick := now, ie_seq := ie_seq s + 1 + 1, ie_active := True\<rparr>"

lemma icmp_take_slot_eq:
  "icmp_take_slot sa da id_n now idx st =
     (let (st2, ext) = alloc_external_icmp_id (closed_icmp idx st) in
      if ext = 0 then (upd_icmp idx (\<lambda>s. s\<lparr>ie_seq := ie_seq s + 1\<rparr>) st2, 0)
      else (st2\<lparr>icmp_id_to_index := (icmp_id_to_index st2)(ntohs ext := int idx),
            icmp_sessions := (icmp_sessions st2)(idx := (icmp_sessions st2 idx)
              \<lparr>int_saddr := sa, remote_daddr := da, int_id_nbo := id_n, ext_id_nbo := ext,
               ie_last_active_tick := now, ie_seq := ie_seq (icmp_sessions st2 idx) + 1,
               ie_active := True\<rparr>)\<rparr>, ext))"
proof -
  have "(let is_active = ie_active (icmp_sessions st idx);
          st = upd_icmp idx (\<lambda>s. s\<lparr>ie_seq := ie_seq s + 1\<rparr>) st
         in if is_active
            then upd_icmp idx (\<lambda>s. s\<lparr>ie_active := False\<rparr>)
                   (icmp_cas (ntohs (ext_id_nbo (icmp_sessions st idx))) (int idx) (-1) st)
            else st) = closed_icmp idx st"
    by (cases st; cases "icmp_sessions st idx")
      (auto simp: upd_icmp_def icmp_cas_def closed_icmp_def icmp_evicted_def Let_def)
  then show ?thesis
    by (simp add: icmp_take_slot_def Let_def upd_icmp_def split: prod.split)
qed

lemma icmp_take_slot_cases:
  assumes "icmp_take_slot sa da id_n now idx st = (st', ext)" "cursor_ok (icmp_id_cursor st)"
  obtains (full) c where "cursor_ok c" "ext = 0"
      "st' = st\<lparr>icmp_id_cursor := c, icmp_id_to_index := icmp_evicted idx st,
               icmp_sessions := (icmp_sessions st)(idx := (icmp_sessions st idx)
               \<lparr>ie_active := False, ie_seq := ie_seq (icmp_sessions st idx) + 1 + 1\<rparr>)\<rparr>"
  | (ok) c where "cursor_ok c" "cursor_ok (ntohs ext)" "id_free (closed_icmp idx st) (ntohs ext)"
      "st' = st\<lparr>icmp_id_cursor := c,
               icmp_id_to_index := (icmp_evicted idx st)(ntohs ext := int idx),
               icmp_sessions := (icmp_sessions st)
                 (idx := fresh_icmp (icmp_sessions st idx) sa da id_n ext now)\<rparr>"
proof -
  obtain st2 e where al: "alloc_external_icmp_id (closed_icmp idx st) = (st2, e)" by fastforce
  have "cursor_ok (icmp_id_cursor (closed_icmp idx st))" using assms(2) by (simp add: closed_icmp_def)
  from alloc_icmp_loop_spec [OF al [unfolded alloc_external_icmp_id_def] this]
  obtain c m where c: "cursor_ok c" "st2 = (closed_icmp idx st)\<lparr>icmp_id_cursor := c, icmp_id_to_index := m\<rparr>"
    and e: "e = 0 \<and> m = icmp_id_to_index (closed_icmp idx st) \<or> cursor_ok (ntohs e) \<and>
      id_free (closed_icmp idx st) (ntohs e) \<and>
      (\<forall>v. m(ntohs e := v) = (icmp_id_to_index (closed_icmp idx st))(ntohs e := v))" by blast
  note res = assms(1) [unfolded icmp_take_slot_eq al Let_def prod.case]
  show thesis
  proof (cases "e = 0")
    case True
    then have "m = icmp_evicted idx st" using e by (auto simp: cursor_ok_def closed_icmp_def)
    then show thesis
      using res True c by (intro full [of c]) (auto simp: upd_icmp_def closed_icmp_def)
  next
    case False
    then have "m(ntohs e := int idx) = (icmp_evicted idx st)(ntohs e := int idx)"
      using e by (auto simp: closed_icmp_def)
    then show thesis
      using res False c e by (intro ok [of c]) (auto simp: closed_icmp_def fresh_icmp_def)
  qed
qed

definition icmp_slot_usable :: "NatEngine \<Rightarrow> nat \<Rightarrow> bool" where
  "icmp_slot_usable st idx \<longleftrightarrow>
     \<not> ie_active (icmp_sessions st idx) \<or>
     current_tick st - ie_last_active_tick (icmp_sessions st idx) > 300"

abbreviation icmp_touch :: "nat \<Rightarrow> NatEngine \<Rightarrow> NatEngine" where
  "icmp_touch idx st \<equiv> upd_icmp idx (\<lambda>s. s\<lparr>ie_last_active_tick := current_tick st\<rparr>) st"

inductive icmp_probe_result :: "u32 \<Rightarrow> u32 \<Rightarrow> u16 \<Rightarrow> NatEngine \<Rightarrow> NatEngine \<times> u16 \<Rightarrow> bool"
  for sa da id_n st where
  none: "icmp_probe_result sa da id_n st (st, 0)"
| fresh: "idx < MAX_ICMP_SESSIONS \<Longrightarrow> icmp_slot_usable st idx \<Longrightarrow>
     icmp_probe_result sa da id_n st (icmp_take_slot sa da id_n (current_tick st) idx st)"
| old: "idx < MAX_ICMP_SESSIONS \<Longrightarrow> \<not> icmp_slot_usable st idx \<Longrightarrow>
     int_saddr (icmp_sessions st idx) = sa \<Longrightarrow> remote_daddr (icmp_sessions st idx) = da \<Longrightarrow>
     int_id_nbo (icmp_sessions st idx) = id_n \<Longrightarrow>
     icmp_probe_result sa da id_n st (icmp_touch idx st, ext_id_nbo (icmp_sessions st idx))"

lemma icmp_probe_result: "icmp_probe_result sa da id_n st (icmp_probe sa da id_n h r n st)"
proof (induction r arbitrary: n)
  case (Suc r)
  let ?idx = "(h + n) mod MAX_ICMP_SESSIONS" let ?s = "icmp_sessions st ?idx"
  let ?same = "int_saddr ?s = sa \<and> remote_daddr ?s = da \<and> int_id_nbo ?s = id_n"
  have idx: "?idx < MAX_ICMP_SESSIONS" by (simp add: MAX_ICMP_SESSIONS_def)
  consider "icmp_slot_usable st ?idx" | "\<not> icmp_slot_usable st ?idx" "?same"
    | "\<not> icmp_slot_usable st ?idx" "\<not> ?same" by blast
  then show ?case
  proof cases
    case 1
    then show ?thesis using icmp_probe_result.fresh [OF idx 1, of sa da id_n]
      by (auto simp: Let_def icmp_slot_usable_def)
  next
    case 2
    then show ?thesis using icmp_probe_result.old [OF idx 2(1), of sa da id_n]
      by (auto simp: Let_def icmp_slot_usable_def)
  next
    case 3
    then show ?thesis using Suc by (auto simp: Let_def icmp_slot_usable_def)
  qed
qed (simp add: icmp_probe_result.none)

section \<open>The operations as a transition system\<close>

datatype nat_op = Outbound ParsedPacket | Inbound ParsedPacket | Tick | SetWanIp u32

fun nat_exec :: "nat_op \<Rightarrow> NatEngine \<Rightarrow> NatEngine" where
  "nat_exec (Outbound pkt) st = fst (snd (process_outbound st pkt))"
| "nat_exec (Inbound pkt) st = fst (snd (process_inbound st pkt))"
| "nat_exec Tick st = tick st"
| "nat_exec (SetWanIp ip) st = set_wan_ip ip st"

definition nat_run :: "nat_op list \<Rightarrow> NatEngine \<Rightarrow> NatEngine" where
  "nat_run ops st = fold nat_exec ops st"

text \<open>What one operation can do to the tables.\<close>

inductive nat_effect :: "NatEngine \<Rightarrow> NatEngine \<Rightarrow> bool" for st where
  skip: "nat_effect st st"
| take: "idx < MAX_SESSIONS \<Longrightarrow> slot_usable st idx \<Longrightarrow>
    nat_effect st (fst (take_slot key (current_tick st) idx st))"
| touch: "idx < MAX_SESSIONS \<Longrightarrow> nat_effect st (touch idx st)"
| icmp_take: "idx < MAX_ICMP_SESSIONS \<Longrightarrow> icmp_slot_usable st idx \<Longrightarrow>
    nat_effect st (fst (icmp_take_slot sa da id_n (current_tick st) idx st))"
| icmp_touch: "idx < MAX_ICMP_SESSIONS \<Longrightarrow> nat_effect st (icmp_touch idx st)"

lemma probe_effect: "nat_effect st (fst (probe key h r i st))"
  using probe_result [of key st h r i]
  by cases (auto intro: nat_effect.intros)

lemma icmp_probe_effect: "nat_effect st (fst (icmp_probe sa da id_n h r n st))"
  using icmp_probe_result [of sa da id_n st h r n]
  by cases (auto intro: nat_effect.intros)

lemma process_outbound_icmp_effect: "nat_effect st (fst (snd (process_outbound_icmp st pkt)))"
  using icmp_probe_effect
  by (auto simp: process_outbound_icmp_def Let_def intro: nat_effect.skip split: option.split prod.split)
    (metis fst_conv)+

lemma process_outbound_effect: "nat_effect st (fst (snd (process_outbound st pkt)))"
  using probe_effect process_outbound_icmp_effect
  by (auto simp: process_outbound_def Let_def intro: nat_effect.skip split: option.split prod.split)
    (metis fst_conv)+

lemma process_inbound_icmp_effect: "nat_effect st (fst (snd (process_inbound_icmp st pkt)))"
  by (auto simp: process_inbound_icmp_def Let_def intro: nat_effect.skip nat_effect.icmp_touch
      split: option.split prod.split resolution.split)

lemma process_inbound_effect: "nat_effect st (fst (snd (process_inbound st pkt)))"
  using process_inbound_icmp_effect
  by (auto simp: process_inbound_def Let_def intro: nat_effect.skip nat_effect.touch
      split: option.split prod.split resolution.split)

section \<open>The invariant\<close>

definition session_inv :: "NatEngine \<Rightarrow> bool" where
  "session_inv st \<longleftrightarrow>
     cursor_ok (port_cursor st) \<and>
     (\<forall>i. even (ns_seq (sessions st i))) \<and>
     (\<forall>i. ns_active (sessions st i) \<longrightarrow> cursor_ok (ntohs (external_port (sessions st i)))) \<and>
     (\<forall>p. -1 \<le> port_to_index st p \<and> port_to_index st p < int MAX_SESSIONS)"

definition icmp_inv :: "NatEngine \<Rightarrow> bool" where
  "icmp_inv st \<longleftrightarrow>
     cursor_ok (icmp_id_cursor st) \<and>
     (\<forall>i. even (ie_seq (icmp_sessions st i))) \<and>
     (\<forall>p. -1 \<le> icmp_id_to_index st p \<and> icmp_id_to_index st p < int MAX_ICMP_SESSIONS) \<and>
     (\<forall>i. ie_active (icmp_sessions st i) \<longrightarrow>
        cursor_ok (ntohs (ext_id_nbo (icmp_sessions st i))) \<and>
        icmp_id_to_index st (ntohs (ext_id_nbo (icmp_sessions st i))) = int i)"

definition nat_inv :: "NatEngine \<Rightarrow> bool" where
  "nat_inv st \<longleftrightarrow> session_inv st \<and> icmp_inv st"

lemma evicted_range:
  "-1 \<le> port_to_index st p \<and> port_to_index st p < int MAX_SESSIONS \<Longrightarrow>
     -1 \<le> evicted idx st p \<and> evicted idx st p < int MAX_SESSIONS"
  by (auto simp: evicted_def Let_def MAX_SESSIONS_def)

lemma session_inv_take:
  assumes "session_inv st" "idx < MAX_SESSIONS"
  shows "session_inv (fst (take_slot key now idx st))"
  using assms evicted_range [of st _ idx]
  by (auto simp: session_inv_def take_slot_eq fresh_session_def cursor_ok_next)

lemma icmp_evicted_range:
  "-1 \<le> icmp_id_to_index st p \<and> icmp_id_to_index st p < int MAX_ICMP_SESSIONS \<Longrightarrow>
     -1 \<le> icmp_evicted idx st p \<and> icmp_evicted idx st p < int MAX_ICMP_SESSIONS"
  by (auto simp: icmp_evicted_def Let_def MAX_ICMP_SESSIONS_def)

lemma icmp_evicted_other:
  assumes "icmp_inv st" "ie_active (icmp_sessions st i)" "i \<noteq> idx"
  shows "icmp_evicted idx st (ntohs (ext_id_nbo (icmp_sessions st i))) = int i"
proof -
  have "icmp_id_to_index st (ntohs (ext_id_nbo (icmp_sessions st i))) = int i"
    using assms by (simp add: icmp_inv_def)
  then show ?thesis using assms(3) by (auto simp: icmp_evicted_def Let_def)
qed

text \<open>The identifier a claimed slot gets is not the one of another live session.\<close>

lemma icmp_fresh_id:
  assumes "icmp_inv st" "ie_active (icmp_sessions st i)" "i \<noteq> idx"
    and "id_free (closed_icmp idx st) (ntohs ext)"
  shows "ext_id_nbo (icmp_sessions st i) \<noteq> ext"
proof
  assume "ext_id_nbo (icmp_sessions st i) = ext"
  then have "icmp_evicted idx st (ntohs ext) = int i"
    using icmp_evicted_other [OF assms(1-3)] by simp
  then show False
    using assms by (auto simp: id_free_def closed_icmp_def Let_def)
qed

lemma icmp_inv_take:
  assumes inv: "icmp_inv st" and idx: "idx < MAX_ICMP_SESSIONS"
  shows "icmp_inv (fst (icmp_take_slot sa da id_n now idx st))"
proof -
  obtain st' ext where eq: "icmp_take_slot sa da id_n now idx st = (st', ext)" by fastforce
  have "cursor_ok (icmp_id_cursor st)" using inv by (simp add: icmp_inv_def)
  with eq show ?thesis
  proof (cases rule: icmp_take_slot_cases)
    case (full c)
    then show ?thesis
      using inv icmp_evicted_range [of st _ idx] icmp_evicted_other [OF inv, of _ idx]
      by (auto simp: eq icmp_inv_def)
  next
    case (ok c)
    then show ?thesis
      using inv idx icmp_evicted_range [of st _ idx] icmp_evicted_other [OF inv, of _ idx]
        icmp_fresh_id [OF inv _ _ ok(3)]
      by (auto simp: eq icmp_inv_def fresh_icmp_def)
  qed
qed

text \<open>Each of the two tables is untouched by the operations on the other.\<close>

lemma take_slot_frame [frame_simps]:
  "icmp_sessions (fst (take_slot key now idx st)) = icmp_sessions st"
  "icmp_id_to_index (fst (take_slot key now idx st)) = icmp_id_to_index st"
  "icmp_id_cursor (fst (take_slot key now idx st)) = icmp_id_cursor st"
  "current_tick (fst (take_slot key now idx st)) = current_tick st"
  "wan_ip_nbo (fst (take_slot key now idx st)) = wan_ip_nbo st"
  by (simp_all add: take_slot_eq)

lemma alloc_icmp_frame:
  "sessions (fst (alloc_icmp_loop n st)) = sessions st \<and>
   port_to_index (fst (alloc_icmp_loop n st)) = port_to_index st \<and>
   port_cursor (fst (alloc_icmp_loop n st)) = port_cursor st \<and>
   current_tick (fst (alloc_icmp_loop n st)) = current_tick st \<and>
   wan_ip_nbo (fst (alloc_icmp_loop n st)) = wan_ip_nbo st"
proof (induction n arbitrary: st)
  case (Suc n)
  show ?case using Suc [of "st\<lparr>icmp_id_cursor := next_cursor (icmp_id_cursor st)\<rparr>"]
    by (auto simp: Let_def icmp_cas_def next_cursor_def)
qed simp

lemma icmp_take_slot_frame [frame_simps]:
  "sessions (fst (icmp_take_slot sa da id_n now idx st)) = sessions st"
  "port_to_index (fst (icmp_take_slot sa da id_n now idx st)) = port_to_index st"
  "port_cursor (fst (icmp_take_slot sa da id_n now idx st)) = port_cursor st"
  "current_tick (fst (icmp_take_slot sa da id_n now idx st)) = current_tick st"
  "wan_ip_nbo (fst (icmp_take_slot sa da id_n now idx st)) = wan_ip_nbo st"
  using alloc_icmp_frame [of 512 "closed_icmp idx st"]
  by (auto simp: icmp_take_slot_eq alloc_external_icmp_id_def upd_icmp_def closed_icmp_def
      split: prod.split)

lemma nat_inv_effect:
  assumes "nat_effect st st'" "nat_inv st"
  shows "nat_inv st'"
  using assms
proof cases
  case (take idx key)
  then show ?thesis
    using assms(2) session_inv_take [of st idx key "current_tick st"]
    by (simp add: nat_inv_def icmp_inv_def frame_simps)
next
  case (icmp_take idx sa da id_n)
  then show ?thesis
    using assms(2) icmp_inv_take [of st idx sa da id_n "current_tick st"]
    by (simp add: nat_inv_def session_inv_def frame_simps)
qed (auto simp: nat_inv_def session_inv_def icmp_inv_def upd_session_def upd_icmp_def)

lemma nat_inv_exec: "nat_inv st \<Longrightarrow> nat_inv (nat_exec op st)"
  using nat_inv_effect [OF process_outbound_effect] nat_inv_effect [OF process_inbound_effect]
  by (cases op) (auto simp: nat_inv_def session_inv_def icmp_inv_def tick_def set_wan_ip_def)

lemma nat_inv_init: "nat_inv NatEngine_init"
  by (simp add: nat_inv_def session_inv_def icmp_inv_def NatEngine_init_def empty_session_def
      empty_icmp_session_def cursor_ok_def MAX_SESSIONS_def MAX_ICMP_SESSIONS_def)

lemma nat_inv_run: "nat_inv st \<Longrightarrow> nat_inv (nat_run ops st)"
  unfolding nat_run_def by (induction ops arbitrary: st) (simp_all add: nat_inv_exec)

section \<open>Frames the translator handles\<close>

text \<open>A TCP or UDP frame whose layer-4 header is complete and lies behind the IP header.\<close>

definition l4_frame :: "bytes \<Rightarrow> bool" where
  "l4_frame f \<longleftrightarrow> ipv4_frame f \<and> 34 \<le> frame_l4_off f \<and>
     (f ! 23 = 17 \<and> frame_l4_off f + 8 \<le> length f \<or> f ! 23 = 6 \<and> frame_l4_off f + 20 \<le> length f)"

definition l4_check :: "bytes \<Rightarrow> nat" where
  "l4_check f = frame_l4_off f + (if f ! 23 = 17 then 6 else 16)"

definition flow_key :: "bytes \<Rightarrow> FlowKey" where
  "flow_key f = \<lparr>fk_saddr = ld32 f 26, fk_daddr = ld32 f 30, fk_sport = ld16 f (frame_l4_off f),
     fk_dport = ld16 f (frame_l4_off f + 2)\<rparr>"

lemma l4_ptrs_parse: "l4_frame f \<Longrightarrow> l4_ptrs (parse f) 14 = Some (frame_l4_off f, l4_check f)"
  by (auto simp: l4_ptrs_def parse_simps l4_frame_def l4_check_def)

lemma separate_l4:
  assumes "l4_frame f"
  shows "separate f 26 (frame_l4_off f) (l4_check f)" "separate f 30 (frame_l4_off f + 2) (l4_check f)"
  using assms by (auto simp: l4_frame_def l4_check_def separate_def)

text \<open>Rewriting the source of a frame keeps its destination, and conversely.\<close>

lemma rewrite_source_fields:
  assumes "l4_frame f" and xs: "xs = rewrite_l4 f 14 26 (frame_l4_off f) (l4_check f) v w"
  shows "ld32 xs 26 = v" "ld16 xs (frame_l4_off f) = w"
    "ld32 xs 30 = ld32 f 30" "ld16 xs (frame_l4_off f + 2) = ld16 f (frame_l4_off f + 2)"
  using assms(1) rewrite_l4_fields(1,2) [OF separate_l4(1) [OF assms(1)], of v w]
    rewrite_l4_flat [OF separate_l4(1) [OF assms(1)], of v w]
  by (auto simp: xs l4_frame_def l4_check_def mem_simps)

lemma rewrite_dest_fields:
  assumes "l4_frame f" and xs: "xs = rewrite_l4 f 14 30 (frame_l4_off f + 2) (l4_check f) v w"
  shows "ld32 xs 30 = v" "ld16 xs (frame_l4_off f + 2) = w"
    "ld32 xs 26 = ld32 f 26" "ld16 xs (frame_l4_off f) = ld16 f (frame_l4_off f)"
  using assms(1) rewrite_l4_fields(1,2) [OF separate_l4(2) [OF assms(1)], of v w]
    rewrite_l4_flat [OF separate_l4(2) [OF assms(1)], of v w]
  by (auto simp: xs l4_frame_def l4_check_def mem_simps)

lemma process_outbound_l4:
  assumes "l4_frame f"
  shows "process_outbound st (parse f) =
    (if wan_ip_nbo st = 0 then (False, st, parse f)
     else let (st', ext) = probe (flow_key f) (unat (hash_flow (flow_key f)) mod MAX_SESSIONS) 32 0 st in
       if ext = 0 then (False, st', parse f)
       else (True, st', (parse f)\<lparr>raw_span :=
               rewrite_l4 f 14 26 (frame_l4_off f) (l4_check f) (wan_ip_nbo st) ext\<rparr>))"
  using assms l4_ptrs_parse [OF assms]
  by (auto simp: process_outbound_def l4_frame_def ipv4_parse flow_key_def Let_def split: prod.split)

lemma process_inbound_l4:
  assumes "l4_frame g"
  shows "process_inbound st (parse g) =
    (let dport = ld16 g (frame_l4_off g + 2); idx = port_to_index st (ntohs dport) in
     if ld32 g 30 \<noteq> wan_ip_nbo st \<or> idx < 0 \<or> nat idx \<ge> MAX_SESSIONS then (False, st, parse g)
     else case resolve 8 (sessions st (nat idx)) (ld32 g 26) (ld16 g (frame_l4_off g)) dport of
       Resolved (ip, port) \<Rightarrow>
         (True, touch (nat idx) st, (parse g)\<lparr>raw_span :=
            rewrite_l4 g 14 30 (frame_l4_off g + 2) (l4_check g) ip port\<rparr>)
     | _ \<Rightarrow> (False, st, parse g))"
  using assms l4_ptrs_parse [OF assms]
  by (auto simp: process_inbound_def l4_frame_def ipv4_parse Let_def split: resolution.split)

lemma resolve_even:
  "even (ns_seq s) \<Longrightarrow> resolve (Suc n) s src sport dport =
     (if ns_active s \<and> fk_daddr (internal_key s) = src \<and> fk_dport (internal_key s) = sport
         \<and> external_port s = dport
      then Resolved (fk_saddr (internal_key s), fk_sport (internal_key s)) else Rejected)"
  using seq_parity [of "ns_seq s"] by auto

section \<open>A session stays mapped while it is in use\<close>

definition holds_session :: "nat \<Rightarrow> FlowKey \<Rightarrow> u16 \<Rightarrow> NatEngine \<Rightarrow> bool" where
  "holds_session idx key ext st \<longleftrightarrow> idx < MAX_SESSIONS \<and> ns_active (sessions st idx) \<and>
     internal_key (sessions st idx) = key \<and> external_port (sessions st idx) = ext \<and>
     port_to_index st (ntohs ext) = int idx"

definition idle :: "nat \<Rightarrow> NatEngine \<Rightarrow> nat" where
  "idle idx st = unat (current_tick st - ns_last_active_tick (sessions st idx))"

text \<open>The first \<open>k\<close> ports have been handed out, and every active session owns its port.\<close>

definition ports_inv :: "nat \<Rightarrow> NatEngine \<Rightarrow> bool" where
  "ports_inv k st \<longleftrightarrow> k \<le> 50000 \<and> unat (port_cursor st) = 10000 + k \<and>
     (\<forall>i. ns_active (sessions st i) \<longrightarrow>
        unat (ntohs (external_port (sessions st i))) < 10000 + k \<and>
        port_to_index st (ntohs (external_port (sessions st i))) = int i)"

lemma slot_usable_iff: "slot_usable st idx \<longleftrightarrow> \<not> ns_active (sessions st idx) \<or> 300 < idle idx st"
  by (simp add: slot_usable_def idle_def word_less_nat_alt)

lemma evicted_other:
  "port_to_index st p \<noteq> int idx \<Longrightarrow> evicted idx st p = port_to_index st p"
  by (auto simp: evicted_def Let_def)

lemma ports_inv_take:
  assumes "ports_inv k st" "k < 50000"
  shows "ports_inv (Suc k) (fst (take_slot key now idx st))"
proof -
  have c: "cursor_ok (port_cursor st)" "unat (port_cursor st) = 10000 + k"
    using assms by (auto simp: ports_inv_def cursor_ok_def)
  have "unat (next_cursor (port_cursor st)) = 10000 + Suc k"
    using unat_next_cursor [OF c(1)] c(2) assms by simp
  moreover have "unat (ntohs (external_port (sessions st i))) < 10000 + k"
    "evicted idx st (ntohs (external_port (sessions st i))) = int i"
    if "ns_active (sessions st i)" "i \<noteq> idx" for i
    using assms that by (auto simp: ports_inv_def evicted_other)
  ultimately show ?thesis
    using assms c by (auto simp: ports_inv_def take_slot_eq fresh_session_def intro: less_SucI)
qed

lemma ports_inv_effect:
  assumes "nat_effect st st'" "ports_inv k st" "k < 50000"
  shows "ports_inv k st' \<or> ports_inv (Suc k) st'"
  using assms
proof cases
  case (take idx key)
  then show ?thesis using ports_inv_take assms by simp
qed (auto simp: ports_inv_def upd_session_def upd_icmp_def frame_simps)

lemma holds_effect:
  assumes "nat_effect st st'" "ports_inv k st"
    and hold: "holds_session idx key ext st" "idle idx st \<le> 300"
  shows "holds_session idx key ext st' \<and> idle idx st' \<le> idle idx st"
  using assms(1)
proof cases
  case (take j key')
  then have "j \<noteq> idx" using hold by (auto simp: slot_usable_iff holds_session_def)
  moreover have "ntohs ext \<noteq> port_cursor st"
    using assms(2) hold by (auto simp: ports_inv_def holds_session_def)
  ultimately show ?thesis
    using hold take by (auto simp: holds_session_def take_slot_eq evicted_other idle_def)
qed (use hold in \<open>auto simp: holds_session_def upd_session_def upd_icmp_def idle_def frame_simps\<close>)

fun is_outbound :: "nat_op \<Rightarrow> bool" where
  "is_outbound (Outbound _) = True"
| "is_outbound _ = False"

lemma inbound_no_take:
  "port_cursor (fst (snd (process_inbound st pkt))) = port_cursor st"
  by (auto simp: process_inbound_def process_inbound_icmp_def upd_session_def upd_icmp_def Let_def
      split: option.split prod.split resolution.split)

lemma ports_inv_exec:
  assumes "ports_inv k st" "is_outbound op \<Longrightarrow> k < 50000"
  obtains k' where "ports_inv k' (nat_exec op st)" "k' \<le> k + (if is_outbound op then 1 else 0)"
proof (cases op)
  case (Outbound pkt)
  then show ?thesis
    using that ports_inv_effect [OF process_outbound_effect, of k st pkt] assms by fastforce
next
  case (Inbound pkt)
  have "ports_inv k (fst (snd (process_inbound st pkt)))"
    using process_inbound_effect [of st pkt]
  proof cases
    case (take idx key)
    have "next_cursor (port_cursor st) = port_cursor st"
      using inbound_no_take [of st pkt] by (simp add: take take_slot_eq)
    moreover have "cursor_ok (port_cursor st)" using assms by (simp add: ports_inv_def cursor_ok_def)
    ultimately show ?thesis using unat_next_cursor [of "port_cursor st"] by (simp split: if_splits)
  qed (use assms in \<open>auto simp: ports_inv_def upd_session_def upd_icmp_def frame_simps\<close>)
  then show ?thesis using that Inbound by simp
next
  case Tick
  then show ?thesis using that assms by (auto simp: ports_inv_def tick_def)
next
  case (SetWanIp ip)
  then show ?thesis using that assms by (auto simp: ports_inv_def set_wan_ip_def)
qed

lemma ports_inv_run:
  assumes "ports_inv k st" "k + length (filter is_outbound ops) \<le> 50000"
  shows "\<exists>k'. ports_inv k' (nat_run ops st) \<and> k' \<le> k + length (filter is_outbound ops)"
  using assms
proof (induction ops arbitrary: k st)
  case Nil
  then show ?case by (auto simp: nat_run_def)
next
  case (Cons op ops)
  have "is_outbound op \<Longrightarrow> k < 50000" using Cons.prems by simp
  then obtain k' where k': "ports_inv k' (nat_exec op st)" "k' \<le> k + (if is_outbound op then 1 else 0)"
    using ports_inv_exec [OF Cons.prems(1)] by blast
  then obtain k'' where "ports_inv k'' (nat_run ops (nat_exec op st))"
    "k'' \<le> k' + length (filter is_outbound ops)"
    using Cons.IH [OF k'(1)] Cons.prems(2) by (auto split: if_splits)
  then show ?case using k'(2) by (auto simp: nat_run_def split: if_splits)
qed

lemma unat_inc_le: "unat (x + 1 :: u32) \<le> Suc (unat x)"
  by (simp add: unat_word_ariths)

lemma idle_tick: "idle idx (tick st) \<le> Suc (idle idx st)"
proof -
  let ?t = "ns_last_active_tick (sessions st idx)"
  have "current_tick st + 1 - ?t = (current_tick st - ?t) + 1" by simp
  then have "unat (current_tick st + 1 - ?t) \<le> Suc (unat (current_tick st - ?t))"
    using unat_inc_le by metis
  then show ?thesis by (simp add: idle_def tick_def)
qed

lemma holds_exec:
  assumes "ports_inv k st" "holds_session idx key ext st" "idle idx st \<le> 300"
  shows "holds_session idx key ext (nat_exec op st) \<and>
    idle idx (nat_exec op st) \<le> idle idx st + (if op = Tick then 1 else 0)"
proof (cases op)
  case (Outbound pkt)
  then show ?thesis using holds_effect [OF process_outbound_effect assms] by simp
next
  case (Inbound pkt)
  then show ?thesis using holds_effect [OF process_inbound_effect assms] by simp
next
  case Tick
  then show ?thesis using assms idle_tick by (simp add: holds_session_def tick_def)
next
  case (SetWanIp ip)
  then show ?thesis using assms by (simp add: holds_session_def set_wan_ip_def idle_def)
qed

lemma holds_run:
  assumes "ports_inv k st" "holds_session idx key ext st"
    and "k + length (filter is_outbound ops) \<le> 50000"
    and "idle idx st + length (filter ((=) Tick) ops) \<le> 300"
  shows "holds_session idx key ext (nat_run ops st)"
  using assms
proof (induction ops arbitrary: k st)
  case Nil
  then show ?case by (simp add: nat_run_def)
next
  case (Cons op ops)
  have le: "idle idx st \<le> 300" using Cons.prems(4) by simp
  have "is_outbound op \<Longrightarrow> k < 50000" using Cons.prems by simp
  then obtain k' where k': "ports_inv k' (nat_exec op st)" "k' \<le> k + (if is_outbound op then 1 else 0)"
    using ports_inv_exec [OF Cons.prems(1)] by blast
  have step: "holds_session idx key ext (nat_exec op st)"
    "idle idx (nat_exec op st) \<le> idle idx st + (if op = Tick then 1 else 0)"
    using holds_exec [OF Cons.prems(1,2) le, of op] by auto
  have "k' + length (filter is_outbound ops) \<le> 50000"
    using k'(2) Cons.prems(3) by (auto split: if_splits)
  moreover have "idle idx (nat_exec op st) + length (filter ((=) Tick) ops) \<le> 300"
    using step(2) Cons.prems(4) by (auto split: if_splits)
  ultimately show ?case using Cons.IH [OF k'(1) step(1)] by (simp add: nat_run_def)
qed

lemma ports_inv_init: "ports_inv 0 NatEngine_init"
  by (simp add: ports_inv_def NatEngine_init_def empty_session_def)

lemma process_outbound_holds:
  assumes "process_outbound st (parse f) = (True, st', p)" "l4_frame f" "nat_inv st" "ports_inv k st"
  obtains idx ext where "holds_session idx (flow_key f) ext st'" "idle idx st' = 0"
    "raw_span p = rewrite_l4 f 14 26 (frame_l4_off f) (l4_check f) (wan_ip_nbo st) ext"
proof -
  define h where "h = unat (hash_flow (flow_key f)) mod MAX_SESSIONS"
  obtain st2 ext where pr: "probe (flow_key f) h 32 0 st = (st2, ext)" by fastforce
  have eq: "st' = st2" "ext \<noteq> 0"
    "raw_span p = rewrite_l4 f 14 26 (frame_l4_off f) (l4_check f) (wan_ip_nbo st) ext"
    using assms(1) pr unfolding process_outbound_l4 [OF assms(2)] h_def
    by (auto simp: Let_def split: if_splits)
  have "probe_result (flow_key f) st (st2, ext)" using probe_result pr by metis
  then have "\<exists>idx. holds_session idx (flow_key f) ext st2 \<and> idle idx st2 = 0"
  proof cases
    case none
    then show ?thesis using eq(2) by simp
  next
    case (fresh idx)
    then have "st2 = fst (take_slot (flow_key f) (current_tick st) idx st)"
      "ext = ntohs (port_cursor st)" by (auto simp: take_slot_eq)
    then show ?thesis using fresh(2)
      by (intro exI [of _ idx]) (simp add: holds_session_def idle_def take_slot_eq fresh_session_def)
  next
    case (old idx)
    then show ?thesis using assms(4)
      by (intro exI [of _ idx]) (auto simp: holds_session_def idle_def upd_session_def slot_usable_def
          ports_inv_def)
  qed
  then show thesis using that eq by blast
qed

lemma process_inbound_holds:
  assumes "nat_inv st" "holds_session idx key ext st" "l4_frame g"
    and "ld32 g 30 = wan_ip_nbo st" "ld32 g 26 = fk_daddr key"
    and "ld16 g (frame_l4_off g) = fk_dport key" "ld16 g (frame_l4_off g + 2) = ext"
  shows "process_inbound st (parse g) = (True, touch idx st, (parse g)\<lparr>raw_span :=
     rewrite_l4 g 14 30 (frame_l4_off g + 2) (l4_check g) (fk_saddr key) (fk_sport key)\<rparr>)"
proof -
  have "even (ns_seq (sessions st idx))" using assms(1) by (simp add: nat_inv_def session_inv_def)
  then have "resolve 8 (sessions st idx) (ld32 g 26) (ld16 g (frame_l4_off g)) ext =
      Resolved (fk_saddr key, fk_sport key)"
    using assms resolve_even [of "sessions st idx" 7] by (simp add: holds_session_def)
  then show ?thesis
    using assms by (simp add: process_inbound_l4 Let_def holds_session_def)
qed

end
