(* ===== verification/Nat_Correct.thy ===== *)
theory Nat_Correct
  imports Nat_Sessions
begin

text \<open>
  What the translator guarantees: reachable states are well formed, replies come back to the
  host that opened the flow, unsolicited traffic is refused, checksums stay valid, live sessions
  are kept, echo identifiers are unique; and two ways in which a connection can break, port
  reuse after the cursor has wrapped and rebinding of a flow to an earlier slot.  The last section
  runs the engine on sample traffic.
\<close>

section \<open>Replies reach the host that opened the flow\<close>

lemma reply_translated:
  assumes "process_outbound (nat_run before NatEngine_init) (parse f) = (True, st, p)"
    and "l4_frame f" "l4_frame g"
    and "length (filter is_outbound (before @ between)) < 50000"
    and "length (filter ((=) Tick) between) \<le> 300"
    and "ld32 g 30 = wan_ip_nbo (nat_run between st)"
    and "ld32 g 26 = ld32 (raw_span p) 30"
    and "ld16 g (frame_l4_off g) = ld16 (raw_span p) (frame_l4_off f + 2)"
    and "ld16 g (frame_l4_off g + 2) = ld16 (raw_span p) (frame_l4_off f)"
  shows "\<exists>st'. process_inbound (nat_run between st) (parse g) = (True, st', (parse g)\<lparr>raw_span :=
     rewrite_l4 g 14 30 (frame_l4_off g + 2) (l4_check g) (ld32 f 26) (ld16 f (frame_l4_off f))\<rparr>)"
proof -
  let ?s0 = "nat_run before NatEngine_init"
  have inv: "nat_inv ?s0" by (rule nat_inv_run [OF nat_inv_init])
  obtain k where k: "ports_inv k ?s0" "k \<le> length (filter is_outbound before)"
    using ports_inv_run [OF ports_inv_init, of before] assms(4) by auto
  have exec: "st = nat_exec (Outbound (parse f)) ?s0" using assms(1) by simp
  obtain idx ext where h: "holds_session idx (flow_key f) ext st" "idle idx st = 0"
    "raw_span p = rewrite_l4 f 14 26 (frame_l4_off f) (l4_check f) (wan_ip_nbo ?s0) ext"
    using process_outbound_holds [OF assms(1,2) inv k(1)] .
  obtain k' where k': "ports_inv k' st" "k' \<le> k + 1"
    using ports_inv_exec [OF k(1), of "Outbound (parse f)"] k(2) assms(4) exec by auto
  have hold: "holds_session idx (flow_key f) ext (nat_run between st)"
    using holds_run [OF k'(1) h(1), of between] h(2) k k' assms(4,5) by simp
  have inv2: "nat_inv (nat_run between st)"
    unfolding exec by (intro nat_inv_run nat_inv_exec inv)
  note fields = rewrite_source_fields [OF assms(2) h(3)]
  have "process_inbound (nat_run between st) (parse g) =
      (True, touch idx (nat_run between st), (parse g)\<lparr>raw_span :=
        rewrite_l4 g 14 30 (frame_l4_off g + 2) (l4_check g) (ld32 f 26) (ld16 f (frame_l4_off f))\<rparr>)"
    using process_inbound_holds [OF inv2 hold assms(3,6)] assms(7-9) fields
    by (simp add: flow_key_def)
  then show ?thesis by blast
qed

text \<open>C2: Replies reach the host that opened the flow.  From the initial engine, after any operations,
  a TCP or UDP frame \<open>f\<close> is translated; then any operations happen with at most 300 ticks of the
  idle clock (fewer than 50000 outbound packets in all, so that no external port has been handed
  out twice).  A frame \<open>g\<close> that answers the translated one, addressed to the current WAN address, is
  translated back to the address and port \<open>f\<close> came from.\<close>

theorem nat_reply_delivered:
  assumes "process_outbound (nat_run before NatEngine_init) (parse f) = (True, st, p)"
    and "l4_frame f" "l4_frame g"
    and "length (filter is_outbound (before @ between)) < 50000"
    and "length (filter ((=) Tick) between) \<le> 300"
    and "ld32 g 30 = wan_ip_nbo (nat_run between st)"
    and "ld32 g 26 = ld32 (raw_span p) 30"
    and "ld16 g (frame_l4_off g) = ld16 (raw_span p) (frame_l4_off f + 2)"
    and "ld16 g (frame_l4_off g + 2) = ld16 (raw_span p) (frame_l4_off f)"
  shows "\<exists>st' q. process_inbound (nat_run between st) (parse g) = (True, st', q) \<and>
     ld32 (raw_span q) 30 = ld32 f 26 \<and>
     ld16 (raw_span q) (frame_l4_off g + 2) = ld16 f (frame_l4_off f)"
  using reply_translated [OF assms] rewrite_l4_fields(1,2) [OF separate_l4(2) [OF assms(3)]] by auto


section \<open>Reachable states and availability\<close>

text \<open>C18: In every state the engine can reach from its constructor by any sequence of outbound and
  inbound packets, ticks and WAN address changes: both cursors and the external port or identifier
  of every active session lie in 10000 to 60000, every sequence number is even, both reverse maps
  hold -1 or a valid index, and the reverse map of echo identifiers leads back to every active
  echo session.\<close>

theorem nat_reachable_inv: "nat_inv (nat_run ops NatEngine_init)"
  by (rule nat_inv_run [OF nat_inv_init])

lemma probe_finds:
  assumes "session_inv st" "k < r" "slot_usable st ((h + i + k) mod MAX_SESSIONS)"
  shows "cursor_ok (ntohs (snd (probe key h r i st)))"
  using assms
proof (induction r arbitrary: i k)
  case (Suc r)
  let ?idx = "(h + i) mod MAX_SESSIONS"
  show ?case
  proof (cases "slot_usable st ?idx")
    case True
    then show ?thesis using Suc.prems(1)
      by (simp add: Let_def slot_usable_def take_slot_eq session_inv_def)
  next
    case False
    then obtain k' where k: "k = Suc k'" using Suc.prems(3) by (cases k) auto
    have "cursor_ok (ntohs (snd (probe key h r (Suc i) st)))"
      using Suc.IH [of k' "Suc i"] Suc.prems by (simp add: k)
    moreover have "cursor_ok (ntohs (external_port (sessions st ?idx)))"
      using False Suc.prems(1) by (simp add: slot_usable_def session_inv_def)
    ultimately show ?thesis using False by (simp add: Let_def slot_usable_def)
  qed
qed simp

text \<open>C26: Availability: with a WAN address set, a TCP or UDP frame is translated whenever one of the 32
  slots its flow hashes to is free or expired: its source becomes the WAN address and a port in
  10000 to 60000, its destination is unchanged.\<close>

theorem nat_outbound_available:
  assumes "l4_frame f" "wan_ip_nbo (nat_run ops NatEngine_init) \<noteq> 0" "k < 32"
    and "slot_usable (nat_run ops NatEngine_init) ((unat (hash_flow (flow_key f)) + k) mod MAX_SESSIONS)"
  shows "\<exists>st p. process_outbound (nat_run ops NatEngine_init) (parse f) = (True, st, p) \<and>
     ld32 (raw_span p) 26 = wan_ip_nbo (nat_run ops NatEngine_init) \<and>
     cursor_ok (ntohs (ld16 (raw_span p) (frame_l4_off f))) \<and> ld32 (raw_span p) 30 = ld32 f 30"
proof -
  let ?st = "nat_run ops NatEngine_init" and ?h = "unat (hash_flow (flow_key f)) mod MAX_SESSIONS"
  obtain st ext where pr: "probe (flow_key f) ?h 32 0 ?st = (st, ext)" by fastforce
  have "session_inv ?st" using nat_inv_run [OF nat_inv_init] by (simp add: nat_inv_def)
  then have ext: "cursor_ok (ntohs ext)"
    using probe_finds [of ?st k 32 ?h 0 "flow_key f"] assms(3,4) pr by (simp add: mod_simps)
  then have "ext \<noteq> 0" using cursor_ok_nonzero by fastforce
  then have "process_outbound ?st (parse f) = (True, st, (parse f)\<lparr>raw_span :=
      rewrite_l4 f 14 26 (frame_l4_off f) (l4_check f) (wan_ip_nbo ?st) ext\<rparr>)"
    using assms(2) pr by (simp add: process_outbound_l4 [OF assms(1)])
  then show ?thesis using ext rewrite_source_fields [OF assms(1) refl] by simp
qed

section \<open>Inbound traffic needs a session\<close>

lemma process_inbound_False:
  "process_inbound st pkt = (False, st', q) \<Longrightarrow> st' = st \<and> q = pkt"
  by (auto simp: process_inbound_def process_inbound_icmp_def Let_def
      split: if_splits option.splits prod.splits resolution.splits)

text \<open>C9: Unsolicited traffic is not translated.  In every reachable state an inbound TCP or UDP frame
  is accepted only if an active session was opened towards exactly its source address and port
  from the external port it is addressed to, and then it is rewritten to the internal address
  and port of that session with its source unchanged; otherwise neither the frame nor the engine
  changes.\<close>

theorem nat_inbound_filter:
  assumes "process_inbound (nat_run ops NatEngine_init) (parse g) = (b, st', q)" "l4_frame g"
  shows "if b
    then \<exists>idx < MAX_SESSIONS. let s = sessions (nat_run ops NatEngine_init) idx in
      ns_active s \<and> fk_daddr (internal_key s) = ld32 g 26 \<and>
      fk_dport (internal_key s) = ld16 g (frame_l4_off g) \<and>
      external_port s = ld16 g (frame_l4_off g + 2) \<and>
      ld32 (raw_span q) 30 = fk_saddr (internal_key s) \<and>
      ld16 (raw_span q) (frame_l4_off g + 2) = fk_sport (internal_key s) \<and>
      ld32 (raw_span q) 26 = ld32 g 26 \<and> ld16 (raw_span q) (frame_l4_off g) = ld16 g (frame_l4_off g)
    else st' = nat_run ops NatEngine_init \<and> raw_span q = g"
proof (cases b)
  case True
  let ?st = "nat_run ops NatEngine_init"
  define idx where "idx = port_to_index ?st (ntohs (ld16 g (frame_l4_off g + 2)))"
  have even: "even (ns_seq (sessions ?st (nat idx)))"
    using nat_inv_run [OF nat_inv_init] by (simp add: nat_inv_def session_inv_def)
  have "nat idx < MAX_SESSIONS"
    and res: "resolve 8 (sessions ?st (nat idx)) (ld32 g 26) (ld16 g (frame_l4_off g))
        (ld16 g (frame_l4_off g + 2)) \<noteq> Rejected"
    using assms(1) True unfolding process_inbound_l4 [OF assms(2)] idx_def
    by (auto simp: Let_def split: if_splits)
  let ?s = "sessions ?st (nat idx)"
  have match: "ns_active ?s" "fk_daddr (internal_key ?s) = ld32 g 26"
    "fk_dport (internal_key ?s) = ld16 g (frame_l4_off g)"
    "external_port ?s = ld16 g (frame_l4_off g + 2)"
    using res resolve_even [OF even, of 7] by (simp_all split: if_splits)
  then have "raw_span q = rewrite_l4 g 14 30 (frame_l4_off g + 2) (l4_check g)
      (fk_saddr (internal_key ?s)) (fk_sport (internal_key ?s))"
    using assms(1) True resolve_even [OF even, of 7] unfolding process_inbound_l4 [OF assms(2)] idx_def
    by (auto simp: Let_def split: if_splits)
  from rewrite_dest_fields [OF assms(2) this] match \<open>nat idx < MAX_SESSIONS\<close> True show ?thesis
    by (auto simp: Let_def)
next
  case False
  then show ?thesis using process_inbound_False assms(1) by fastforce
qed

section \<open>Checksums stay valid\<close>

text \<open>The IP header of a frame in 16-bit words, options included.\<close>

definition ip_words :: "bytes \<Rightarrow> nat" where
  "ip_words f = 2 * unat (f ! 14 AND 0x0F)"

lemma ip_words_l4: "frame_l4_off f = 14 + 2 * ip_words f"
  by (simp add: frame_l4_off_def ip_words_def)

lemma word_sum_nonzero:
  assumes "i < b + 2 * n" "b \<le> i" "xs ! i \<noteq> 0"
  shows "word_sum xs b n \<noteq> 0"
proof -
  define k where "k = (i - b) div 2"
  have "i - b = 2 * k \<or> i - b = Suc (2 * k)" unfolding k_def by linarith
  then have k: "k < n" "i = b + 2 * k \<or> i = Suc (b + 2 * k)" using assms by auto
  then have "be16 xs (b + 2 * k) \<noteq> 0"
    using assms(3) by (auto simp: be16_def unat_ntohs_ld16 unat_eq_0)
  then show ?thesis using k(1) by (auto simp: word_sum_def)
qed

lemma rewrite_keeps_protocol:
  assumes "l4_frame f" "xs = rewrite_l4 f 14 26 (frame_l4_off f) (l4_check f) v w \<or>
    xs = rewrite_l4 f 14 30 (frame_l4_off f + 2) (l4_check f) v w"
  shows "xs ! 23 = f ! 23" "xs ! 14 = f ! 14"
  using assms rewrite_l4_fields(4) [OF separate_l4(1) [OF assms(1)]]
    rewrite_l4_fields(4) [OF separate_l4(2) [OF assms(1)]]
  by (auto simp: l4_frame_def l4_check_def)

lemma rewrite_ip_verifies:
  assumes f: "l4_frame f" and xs: "xs = rewrite_l4 f 14 26 (frame_l4_off f) (l4_check f) v w \<or>
    xs = rewrite_l4 f 14 30 (frame_l4_off f + 2) (l4_check f) v w"
    and ver: "verifies (word_sum f 14 (ip_words f))"
  shows "verifies (word_sum xs 14 (ip_words xs))"
proof -
  have n: "10 \<le> ip_words f" "14 + 2 * ip_words f \<le> frame_l4_off f"
    using f by (auto simp: l4_frame_def ip_words_l4)
  have w: "ip_words xs = ip_words f" using rewrite_keeps_protocol [OF f xs] by (simp add: ip_words_def)
  have "word_sum xs 14 (ip_words f) mod 65535 = word_sum f 14 (ip_words f) mod 65535"
    using xs rewrite_l4_ip_sum [OF separate_l4(1) [OF f] n(1)] rewrite_l4_ip_sum [OF separate_l4(2) [OF f] n(1)]
      n(2) by auto
  moreover have "word_sum xs 14 (ip_words f) \<noteq> 0"
    using n f rewrite_keeps_protocol [OF f xs]
    by (intro word_sum_nonzero [of 23]) (auto simp: l4_frame_def)
  ultimately show ?thesis using ver verifies_cong [of "word_sum f 14 (ip_words f)"] w by simp
qed

text \<open>The test of a TCP or UDP receiver on a segment of \<open>len\<close> bytes, pseudo header included.\<close>

definition l4_verifies :: "bytes \<Rightarrow> nat \<Rightarrow> bool" where
  "l4_verifies f len \<longleftrightarrow> verifies (l4_sum f (unat (f ! 23) + len) (frame_l4_off f) len)"

lemma rewrite_l4_verifies:
  assumes f: "l4_frame f" and xs: "xs = rewrite_l4 f 14 26 (frame_l4_off f) (l4_check f) v w \<or>
    xs = rewrite_l4 f 14 30 (frame_l4_off f + 2) (l4_check f) v w"
    and len: "l4_check f + 2 \<le> frame_l4_off f + len" "frame_l4_off f + len \<le> length f"
    and nz: "ld16 f (l4_check f) \<noteq> 0" and ver: "l4_verifies f len"
  shows "l4_verifies xs len"
proof -
  let ?off = "frame_l4_off f" and ?q = "unat (f ! 23) + len"
  have chk: "l4_check f = ?off + 2 * (if f ! 23 = 17 then 3 else 8)" by (simp add: l4_check_def)
  have m: "2 * (if f ! 23 = 17 then 3 else 8) + 1 < len" using len(1) chk by simp
  have "l4_sum (rewrite_l4 f 14 26 ?off (l4_check f) v w) ?q ?off len mod 65535 = l4_sum f ?q ?off len mod 65535"
    using f m by (intro rewrite_l4_sum [OF separate_l4(1) [OF f] nz _ _ chk m _ len(2), of 0])
      (auto simp: l4_frame_def)
  moreover have "l4_sum (rewrite_l4 f 14 30 (?off + 2) (l4_check f) v w) ?q ?off len mod 65535
      = l4_sum f ?q ?off len mod 65535"
    using f m by (intro rewrite_l4_sum [OF separate_l4(2) [OF f] nz _ _ chk m _ len(2), of 1])
      (auto simp: l4_frame_def split: if_splits)
  ultimately have "l4_sum xs ?q ?off len mod 65535 = l4_sum f ?q ?off len mod 65535" using xs by auto
  moreover have "l4_sum xs ?q ?off len \<noteq> 0"
    using f by (auto simp: l4_sum_def l4_frame_def)
  ultimately have "verifies (l4_sum xs ?q ?off len)"
    using ver verifies_cong [of "l4_sum f ?q ?off len"] by (simp add: l4_verifies_def)
  moreover have "frame_l4_off xs = ?off" "xs ! 23 = f ! 23"
    using rewrite_keeps_protocol [OF f xs] by (simp_all add: frame_l4_off_def)
  ultimately show ?thesis by (simp add: l4_verifies_def)
qed

lemma process_outbound_rewrites:
  assumes "process_outbound st (parse f) = (True, st', p)" "l4_frame f"
  shows "\<exists>ext. raw_span p = rewrite_l4 f 14 26 (frame_l4_off f) (l4_check f) (wan_ip_nbo st) ext"
  using assms(1) unfolding process_outbound_l4 [OF assms(2)]
  by (auto simp: Let_def split: if_splits prod.splits)

lemma process_inbound_rewrites:
  assumes "process_inbound st (parse g) = (True, st', q)" "l4_frame g"
  shows "\<exists>ip port. raw_span q = rewrite_l4 g 14 30 (frame_l4_off g + 2) (l4_check g) ip port"
  using assms(1) unfolding process_inbound_l4 [OF assms(2)]
  by (auto simp: Let_def split: if_splits resolution.splits) blast

text \<open>C12: Translation in either direction keeps the length of the frame and the validity of its
  checksums: an IP header that verified (options included) verifies afterwards, and so does a
  TCP or UDP segment with a checksum, over its pseudo header.\<close>

theorem nat_keeps_checksums:
  assumes "process_outbound st (parse f) = (True, st', p) \<or> process_inbound st (parse f) = (True, st', p)"
    and "l4_frame f" "verifies (word_sum f 14 (ip_words f))"
    and "l4_check f + 2 \<le> frame_l4_off f + len" "frame_l4_off f + len \<le> length f"
  shows "length (raw_span p) = length f \<and> verifies (word_sum (raw_span p) 14 (ip_words (raw_span p))) \<and>
    (ld16 f (l4_check f) \<noteq> 0 \<and> l4_verifies f len \<longrightarrow> l4_verifies (raw_span p) len)"
proof -
  obtain v w where xs: "raw_span p = rewrite_l4 f 14 26 (frame_l4_off f) (l4_check f) v w \<or>
      raw_span p = rewrite_l4 f 14 30 (frame_l4_off f + 2) (l4_check f) v w"
    using assms(1) process_outbound_rewrites [OF _ assms(2)] process_inbound_rewrites [OF _ assms(2)] by metis
  then have "length (raw_span p) = length f" by auto
  then show ?thesis
    using rewrite_ip_verifies [OF assms(2) xs assms(3)] rewrite_l4_verifies [OF assms(2) xs assms(4,5)]
    by blast
qed

section \<open>Live sessions are not evicted\<close>

lemma live_effect:
  assumes "nat_effect st st'" "ns_active (sessions st i)" "idle i st \<le> 300"
  shows "ns_active (sessions st' i) \<and> internal_key (sessions st' i) = internal_key (sessions st i) \<and>
    external_port (sessions st' i) = external_port (sessions st i)"
  using assms
proof cases
  case (take idx key)
  then have "idx \<noteq> i" using assms by (auto simp: slot_usable_iff)
  then show ?thesis using take assms(2) by (simp add: take_slot_eq)
qed (auto simp: upd_session_def upd_icmp_def frame_simps)

text \<open>C27: A session used within the last 300 ticks is never evicted or rebound: whatever operation
  comes next, it stays active with the same flow and the same external port.\<close>

theorem nat_live_session_kept:
  assumes "ns_active (sessions st i)"
    and "unat (current_tick st - ns_last_active_tick (sessions st i)) \<le> 300"
  shows "ns_active (sessions (nat_exec op st) i) \<and>
    internal_key (sessions (nat_exec op st) i) = internal_key (sessions st i) \<and>
    external_port (sessions (nat_exec op st) i) = external_port (sessions st i)"
  using assms live_effect [OF process_outbound_effect] live_effect [OF process_inbound_effect]
  by (cases op) (simp_all add: idle_def tick_def set_wan_ip_def)

text \<open>In every reachable state, no two active echo sessions share an external identifier.\<close>

theorem nat_echo_ids_unique:
  "inj_on (\<lambda>i. ext_id_nbo (icmp_sessions (nat_run ops NatEngine_init) i))
     {i. ie_active (icmp_sessions (nat_run ops NatEngine_init) i)}"
proof (rule inj_onI)
  fix i j
  assume "i \<in> {i. ie_active (icmp_sessions (nat_run ops NatEngine_init) i)}"
    "j \<in> {i. ie_active (icmp_sessions (nat_run ops NatEngine_init) i)}"
    "ext_id_nbo (icmp_sessions (nat_run ops NatEngine_init) i) =
     ext_id_nbo (icmp_sessions (nat_run ops NatEngine_init) j)"
  moreover have "icmp_inv (nat_run ops NatEngine_init)"
    using nat_inv_run [OF nat_inv_init] by (simp add: nat_inv_def)
  ultimately have "int i = int j" unfolding icmp_inv_def by (metis mem_Collect_eq)
  then show "i = j" by simp
qed

section \<open>Echo replies reach the host that sent the request\<close>

definition icmp_frame :: "bytes \<Rightarrow> bool" where
  "icmp_frame f \<longleftrightarrow> ipv4_frame f \<and> 34 \<le> frame_l4_off f \<and> f ! 23 = 1 \<and>
     frame_l4_off f + 8 \<le> length f \<and> ntohs (ld16 f 20) AND 0x3FFF = 0"

lemma separate_icmp_frame:
  "icmp_frame f \<Longrightarrow> separate_icmp f 26 (frame_l4_off f) \<and> separate_icmp f 30 (frame_l4_off f)"
  by (simp add: icmp_frame_def separate_icmp_def)

lemma process_outbound_echo:
  assumes "icmp_frame f"
  shows "process_outbound st (parse f) =
    (if wan_ip_nbo st = 0 \<or> f ! frame_l4_off f \<noteq> 8 \<or> f ! (frame_l4_off f + 1) \<noteq> 0
     then (False, st, parse f)
     else let id_n = ld16 f (frame_l4_off f + 4); sa = ld32 f 26; da = ld32 f 30;
              (st', ext) = icmp_probe sa da id_n (unat (hash_icmp_flow sa da id_n) mod MAX_ICMP_SESSIONS) 32 0 st in
       if ext = 0 then (False, st', parse f)
       else (True, st', (parse f)\<lparr>raw_span := rewrite_icmp f 14 26 (frame_l4_off f) (wan_ip_nbo st) ext\<rparr>))"
  using assms
  by (auto simp: process_outbound_def process_outbound_icmp_def icmp_frame_def parse_simps Let_def
      split: prod.split)

lemma process_inbound_echo:
  assumes "icmp_frame g"
  shows "process_inbound st (parse g) =
    (let id_n = ld16 g (frame_l4_off g + 4); idx = icmp_id_to_index st (ntohs id_n) in
     if ld32 g 30 \<noteq> wan_ip_nbo st \<or> g ! frame_l4_off g \<noteq> 0 \<or> g ! (frame_l4_off g + 1) \<noteq> 0
        \<or> idx < 0 \<or> nat idx \<ge> MAX_ICMP_SESSIONS
     then (False, st, parse g)
     else case icmp_resolve 8 (icmp_sessions st (nat idx)) (ld32 g 26) id_n of
       Resolved (ip, id_i) \<Rightarrow> (True, icmp_touch (nat idx) st,
          (parse g)\<lparr>raw_span := rewrite_icmp g 14 30 (frame_l4_off g) ip id_i\<rparr>)
     | _ \<Rightarrow> (False, st, parse g))"
  using assms
  by (auto simp: process_inbound_def process_inbound_icmp_def icmp_frame_def parse_simps Let_def
      split: resolution.split)

lemma icmp_resolve_even:
  "even (ie_seq s) \<Longrightarrow> icmp_resolve (Suc n) s src id_n =
     (if ie_active s \<and> remote_daddr s = src \<and> ext_id_nbo s = id_n
      then Resolved (int_saddr s, int_id_nbo s) else Rejected)"
  using seq_parity [of "ie_seq s"] by auto

definition echo_session :: "nat \<Rightarrow> u32 \<Rightarrow> u32 \<Rightarrow> u16 \<Rightarrow> u16 \<Rightarrow> NatEngine \<Rightarrow> bool" where
  "echo_session idx sa da id_n ext st \<longleftrightarrow> idx < MAX_ICMP_SESSIONS \<and> ie_active (icmp_sessions st idx) \<and>
     int_saddr (icmp_sessions st idx) = sa \<and> remote_daddr (icmp_sessions st idx) = da \<and>
     int_id_nbo (icmp_sessions st idx) = id_n \<and> ext_id_nbo (icmp_sessions st idx) = ext"

definition icmp_idle :: "nat \<Rightarrow> NatEngine \<Rightarrow> nat" where
  "icmp_idle idx st = unat (current_tick st - ie_last_active_tick (icmp_sessions st idx))"

lemma echo_effect:
  assumes "nat_effect st st'" "nat_inv st"
    and sess: "echo_session idx sa da id_n ext st" "icmp_idle idx st \<le> 300"
  shows "echo_session idx sa da id_n ext st' \<and> icmp_idle idx st' \<le> icmp_idle idx st"
  using assms(1)
proof cases
  case (icmp_take j sa' da' id')
  then have j: "j \<noteq> idx" using sess
    by (auto simp: icmp_slot_usable_def icmp_idle_def echo_session_def word_less_nat_alt)
  obtain st2 e where eq: "icmp_take_slot sa' da' id' (current_tick st) j st = (st2, e)" by fastforce
  have "cursor_ok (icmp_id_cursor st)" using assms(2) by (simp add: nat_inv_def icmp_inv_def)
  with eq have "icmp_sessions st2 idx = icmp_sessions st idx \<and> current_tick st2 = current_tick st"
    by (cases rule: icmp_take_slot_cases) (use j in auto)
  then show ?thesis using icmp_take sess eq by (simp add: echo_session_def icmp_idle_def)
qed (use sess in \<open>auto simp: echo_session_def upd_session_def upd_icmp_def icmp_idle_def frame_simps\<close>)

lemma icmp_idle_tick: "icmp_idle idx (tick st) \<le> Suc (icmp_idle idx st)"
proof -
  let ?t = "ie_last_active_tick (icmp_sessions st idx)"
  have "current_tick st + 1 - ?t = (current_tick st - ?t) + 1" by simp
  then have "unat (current_tick st + 1 - ?t) \<le> Suc (unat (current_tick st - ?t))"
    using unat_inc_le by metis
  then show ?thesis by (simp add: icmp_idle_def tick_def)
qed

lemma echo_exec:
  assumes "nat_inv st" "echo_session idx sa da id_n ext st" "icmp_idle idx st \<le> 300"
  shows "echo_session idx sa da id_n ext (nat_exec op st) \<and>
    icmp_idle idx (nat_exec op st) \<le> icmp_idle idx st + (if op = Tick then 1 else 0)"
  using assms echo_effect [OF process_outbound_effect assms] echo_effect [OF process_inbound_effect assms]
    icmp_idle_tick [of idx st]
  by (cases op) (simp_all add: echo_session_def tick_def set_wan_ip_def icmp_idle_def)

lemma echo_run:
  assumes "nat_inv st" "echo_session idx sa da id_n ext st"
    and "icmp_idle idx st + length (filter ((=) Tick) ops) \<le> 300"
  shows "echo_session idx sa da id_n ext (nat_run ops st)"
  using assms
proof (induction ops arbitrary: st)
  case Nil
  then show ?case by (simp add: nat_run_def)
next
  case (Cons op ops)
  have step: "echo_session idx sa da id_n ext (nat_exec op st)"
    "icmp_idle idx (nat_exec op st) \<le> icmp_idle idx st + (if op = Tick then 1 else 0)"
    using echo_exec [OF Cons.prems(1,2), of op] Cons.prems(3) by auto
  then have "icmp_idle idx (nat_exec op st) + length (filter ((=) Tick) ops) \<le> 300"
    using Cons.prems(3) by (auto split: if_splits)
  then show ?case
    using Cons.IH [OF nat_inv_exec [OF Cons.prems(1)] step(1)] by (simp add: nat_run_def)
qed

lemma process_outbound_echo_session:
  assumes "process_outbound st (parse f) = (True, st', p)" "icmp_frame f" "nat_inv st"
  obtains idx ext where
    "echo_session idx (ld32 f 26) (ld32 f 30) (ld16 f (frame_l4_off f + 4)) ext st'" "icmp_idle idx st' = 0"
    "raw_span p = rewrite_icmp f 14 26 (frame_l4_off f) (wan_ip_nbo st) ext"
proof -
  let ?sa = "ld32 f 26" and ?da = "ld32 f 30" and ?id = "ld16 f (frame_l4_off f + 4)"
  define h where "h = unat (hash_icmp_flow ?sa ?da ?id) mod MAX_ICMP_SESSIONS"
  obtain st2 ext where pr: "icmp_probe ?sa ?da ?id h 32 0 st = (st2, ext)" by fastforce
  have eq: "st' = st2" "ext \<noteq> 0" "raw_span p = rewrite_icmp f 14 26 (frame_l4_off f) (wan_ip_nbo st) ext"
    using assms(1) pr unfolding process_outbound_echo [OF assms(2)] h_def
    by (auto simp: Let_def split: if_splits)
  have "icmp_probe_result ?sa ?da ?id st (st2, ext)" using icmp_probe_result pr by metis
  then have "\<exists>idx. echo_session idx ?sa ?da ?id ext st2 \<and> icmp_idle idx st2 = 0"
  proof cases
    case none
    then show ?thesis using eq(2) by simp
  next
    case (fresh idx)
    have c: "cursor_ok (icmp_id_cursor st)" using assms(3) by (simp add: nat_inv_def icmp_inv_def)
    show ?thesis
      using fresh(1) [symmetric] c
      by (cases rule: icmp_take_slot_cases) (use eq(2) fresh(2) in
        \<open>auto simp: echo_session_def icmp_idle_def fresh_icmp_def intro!: exI [of _ idx]\<close>)
  next
    case (old idx)
    then show ?thesis
      by (intro exI [of _ idx]) (auto simp: echo_session_def icmp_idle_def upd_icmp_def icmp_slot_usable_def)
  qed
  then show thesis using that eq by blast
qed

lemma rewrite_echo_fields:
  assumes "icmp_frame f" and xs: "xs = rewrite_icmp f 14 26 (frame_l4_off f) v w"
  shows "ld32 xs 26 = v" "ld16 xs (frame_l4_off f + 4) = w" "ld32 xs 30 = ld32 f 30"
  using assms(1) separate_icmp_frame [OF assms(1)]
    rewrite_icmp_fields(1,2) [of f 26 "frame_l4_off f" v w] rewrite_icmp_flat [of f 26 "frame_l4_off f" v w]
  by (auto simp: xs icmp_frame_def mem_simps)

lemma echo_reply_translated:
  assumes "process_outbound s0 (parse f) = (True, st, p)" "nat_inv s0"
    and "icmp_frame f" "icmp_frame g"
    and "length (filter ((=) Tick) between) \<le> 300"
    and "g ! frame_l4_off g = 0" "g ! (frame_l4_off g + 1) = 0"
    and "ld32 g 30 = wan_ip_nbo (nat_run between st)"
    and "ld32 g 26 = ld32 (raw_span p) 30"
    and "ld16 g (frame_l4_off g + 4) = ld16 (raw_span p) (frame_l4_off f + 4)"
  shows "\<exists>st' q. process_inbound (nat_run between st) (parse g) = (True, st', q) \<and>
     ld32 (raw_span q) 30 = ld32 f 26 \<and>
     ld16 (raw_span q) (frame_l4_off g + 4) = ld16 f (frame_l4_off f + 4)"
proof -
  let ?s2 = "nat_run between st"
  obtain idx ext where h:
    "echo_session idx (ld32 f 26) (ld32 f 30) (ld16 f (frame_l4_off f + 4)) ext st" "icmp_idle idx st = 0"
    "raw_span p = rewrite_icmp f 14 26 (frame_l4_off f) (wan_ip_nbo s0) ext"
    using process_outbound_echo_session [OF assms(1,3,2)] .
  have inv1: "nat_inv st" using nat_inv_exec [OF assms(2), of "Outbound (parse f)"] assms(1) by simp
  have sess: "echo_session idx (ld32 f 26) (ld32 f 30) (ld16 f (frame_l4_off f + 4)) ext ?s2"
    using echo_run [OF inv1 h(1)] h(2) assms(5) by simp
  have inv2: "icmp_inv ?s2" using nat_inv_run [OF inv1] by (simp add: nat_inv_def)
  then have idx: "icmp_id_to_index ?s2 (ntohs ext) = int idx" and even: "even (ie_seq (icmp_sessions ?s2 idx))"
    using sess by (auto simp: icmp_inv_def echo_session_def)
  note fields = rewrite_echo_fields [OF assms(3) h(3)]
  have "process_inbound ?s2 (parse g) = (True, icmp_touch idx ?s2,
      (parse g)\<lparr>raw_span := rewrite_icmp g 14 30 (frame_l4_off g) (ld32 f 26) (ld16 f (frame_l4_off f + 4))\<rparr>)"
    using sess idx icmp_resolve_even [OF even, of 7] assms(6-10) fields
    by (simp add: process_inbound_echo [OF assms(4)] Let_def echo_session_def)
  then show ?thesis
    using rewrite_icmp_fields(1,2) [of g 30 "frame_l4_off g"] separate_icmp_frame [OF assms(4)] by simp
qed

text \<open>C25: Echo replies reach the host that sent the request: after any operations with at most 300
  ticks (and any number of other flows), the reply to a translated echo request is translated back
  to the address and identifier of the request.\<close>

theorem nat_echo_reply_delivered:
  assumes "process_outbound (nat_run before NatEngine_init) (parse f) = (True, st, p)"
    and "icmp_frame f" "icmp_frame g"
    and "length (filter ((=) Tick) between) \<le> 300"
    and "g ! frame_l4_off g = 0" "g ! (frame_l4_off g + 1) = 0"
    and "ld32 g 30 = wan_ip_nbo (nat_run between st)"
    and "ld32 g 26 = ld32 (raw_span p) 30"
    and "ld16 g (frame_l4_off g + 4) = ld16 (raw_span p) (frame_l4_off f + 4)"
  shows "\<exists>st' q. process_inbound (nat_run between st) (parse g) = (True, st', q) \<and>
     ld32 (raw_span q) 30 = ld32 f 26 \<and>
     ld16 (raw_span q) (frame_l4_off g + 4) = ld16 f (frame_l4_off f + 4)"
  using echo_reply_translated [OF assms(1) nat_inv_run [OF nat_inv_init] assms(2-)] .

section \<open>Port reuse\<close>

lemma probe_free:
  "\<not> ns_active (sessions st (h mod MAX_SESSIONS)) \<Longrightarrow> 0 < r \<Longrightarrow>
     probe key h r 0 st = take_slot key (current_tick st) (h mod MAX_SESSIONS) st"
  by (cases r) (simp_all add: Let_def)

text \<open>C28: External TCP and UDP ports are handed out without looking whether they are in use.  When the
  cursor has come round to the port of a live session, a new flow that hashes to another, free
  slot takes that port over: the session stays in the table, but replies to it are refused.\<close>

theorem nat_port_reuse_cuts_live_session:
  assumes "nat_inv st" "holds_session j key (htons (port_cursor st)) st"
    and "idx < MAX_SESSIONS" "idx \<noteq> j" "\<not> ns_active (sessions st idx)"
    and "l4_frame f" "wan_ip_nbo st \<noteq> 0" "unat (hash_flow (flow_key f)) mod MAX_SESSIONS = idx"
    and "l4_frame g" "ld16 g (frame_l4_off g + 2) = htons (port_cursor st)"
    and "ld32 g 26 = fk_daddr key" "ld16 g (frame_l4_off g) = fk_dport key"
    and "fk_daddr (flow_key f) \<noteq> fk_daddr key"
  shows "\<exists>st' p. process_outbound st (parse f) = (True, st', p) \<and>
     ns_active (sessions st' j) \<and> internal_key (sessions st' j) = key \<and>
     process_inbound st' (parse g) = (False, st', parse g)"
proof -
  let ?st = "fst (take_slot (flow_key f) (current_tick st) idx st)"
  have ok: "cursor_ok (port_cursor st)" and even: "even (ns_seq (sessions st idx))"
    using assms(1) by (auto simp: nat_inv_def session_inv_def)
  have "probe (flow_key f) idx 32 0 st = take_slot (flow_key f) (current_tick st) idx st"
    using assms(3,5) probe_free [of st idx 32] by simp
  then have out: "process_outbound st (parse f) = (True, ?st, (parse f)\<lparr>raw_span :=
      rewrite_l4 f 14 26 (frame_l4_off f) (l4_check f) (wan_ip_nbo st) (htons (port_cursor st))\<rparr>)"
    using assms(7,8) cursor_ok_nonzero [OF ok]
    by (simp add: process_outbound_l4 [OF assms(6)] take_slot_eq)
  have "resolve 8 (sessions ?st idx) (ld32 g 26) (ld16 g (frame_l4_off g)) (htons (port_cursor st)) = Rejected"
    using assms(11,13) even resolve_even [of "sessions ?st idx" 7]
    by (simp add: take_slot_eq fresh_session_def)
  then have "process_inbound ?st (parse g) = (False, ?st, parse g)"
    unfolding process_inbound_l4 [OF assms(9)] assms(10) by (simp add: take_slot_eq Let_def)
  moreover have "ns_active (sessions ?st j)" "internal_key (sessions ?st j) = key"
    using assms(2,4) by (auto simp: take_slot_eq holds_session_def)
  ultimately show ?thesis using out by blast
qed

lemma probe_usable:
  "slot_usable st (h mod MAX_SESSIONS) \<Longrightarrow> 0 < r \<Longrightarrow>
     probe key h r 0 st = take_slot key (current_tick st) (h mod MAX_SESSIONS) st"
  by (cases r) (simp_all add: Let_def slot_usable_def)

text \<open>C29: The probe loop takes the first usable slot before it has looked for the flow in the later ones.  In any reachable
  state in which the session in the first slot of a flow has been idle for more than 300 ticks, while the flow itself has a
  live session in another slot, the next frame of the flow is given a second session and leaves with a different
  external port, in the middle of its connection; the first session stays in the table beside it.\<close>

theorem nat_expired_slot_rebinds_live_flow:
  assumes "st = nat_run ops NatEngine_init" "h = unat (hash_flow (flow_key f)) mod MAX_SESSIONS"
    and "l4_frame f" "wan_ip_nbo st \<noteq> 0" "ns_active (sessions st h)" "300 < idle h st"
    and "holds_session j (flow_key f) ext st" "idle j st \<le> 300" "ext \<noteq> htons (port_cursor st)"
  shows "\<exists>st' p. process_outbound st (parse f) = (True, st', p) \<and>
     holds_session j (flow_key f) ext st' \<and> idle j st' \<le> 300 \<and>
     holds_session h (flow_key f) (htons (port_cursor st)) st' \<and>
     ld16 (raw_span p) (frame_l4_off f) = htons (port_cursor st) \<and> ld16 (raw_span p) (frame_l4_off f) \<noteq> ext"
proof -
  let ?st = "fst (take_slot (flow_key f) (current_tick st) h st)"
  have ok: "cursor_ok (port_cursor st)" using nat_inv_run [OF nat_inv_init] assms(1) by (simp add: nat_inv_def session_inv_def)
  have h: "h < MAX_SESSIONS" "h mod MAX_SESSIONS = h" using assms(2) by (simp_all add: MAX_SESSIONS_def)
  have "probe (flow_key f) h 32 0 st = take_slot (flow_key f) (current_tick st) h st"
    using probe_usable [of st h 32] h(2) assms(6) by (simp add: slot_usable_iff)
  then have out: "process_outbound st (parse f) = (True, ?st, (parse f)\<lparr>raw_span :=
      rewrite_l4 f 14 26 (frame_l4_off f) (l4_check f) (wan_ip_nbo st) (htons (port_cursor st))\<rparr>)"
    using assms(2,4) cursor_ok_nonzero [OF ok]
    by (simp add: process_outbound_l4 [OF assms(3)] take_slot_eq)
  have "ntohs ext \<noteq> port_cursor st" using assms(9) by (metis ntohs_ntohs)
  moreover have "j \<noteq> h" using assms(6,8) by auto
  ultimately have "holds_session j (flow_key f) ext ?st" "idle j ?st \<le> 300"
    "holds_session h (flow_key f) (htons (port_cursor st)) ?st"
    using assms(7,8) h(1) by (auto simp: holds_session_def take_slot_eq evicted_other fresh_session_def idle_def)
  then show ?thesis using out assms(9) rewrite_source_fields(2) [OF assms(3) refl] by auto
qed

section \<open>Sample traffic\<close>

text \<open>A DNS query of a LAN host through a WAN address, and its answer.\<close>

definition demo_query :: bytes where
  "demo_query = [0, 0, 0, 0, 0, 0, 0, 0, 0, 0, 0, 0, 8, 0,
     0x45, 0, 0, 28, 0, 0, 0, 0, 64, 17, 0x9d, 0xe7, 192, 168, 12, 50, 8, 8, 8, 8,
     0x30, 0x39, 0, 53, 0, 8, 0xf2, 0x85]"

definition demo_reply :: bytes where
  "demo_reply = [0, 0, 0, 0, 0, 0, 0, 0, 0, 0, 0, 0, 8, 0,
     0x45, 0, 0, 28, 0, 0, 0, 0, 64, 17, 0, 0, 8, 8, 8, 8, 100, 64, 0, 2,
     0, 53, 0x27, 0x10, 0, 8, 0, 0]"

lemma demo_l4_off: "frame_l4_off demo_query = 34" "frame_l4_off demo_reply = 34"
  by (simp_all add: frame_l4_off_def demo_query_def demo_reply_def)

lemma demo_l4_frames: "l4_frame demo_query" "l4_frame demo_reply"
  unfolding l4_frame_def ipv4_frame_def demo_l4_off
  by (simp_all add: demo_query_def demo_reply_def ld16_def word_eval)

lemma demo_ip_words: "ip_words demo_query = 10"
  by (simp add: ip_words_def demo_query_def)

lemma demo_verifies: "verifies (word_sum demo_query 14 (ip_words demo_query))" "l4_verifies demo_query 8"
  unfolding demo_ip_words l4_verifies_def demo_l4_off by (simp_all add: sum_eval l4_sum_def demo_query_def)


abbreviation demo_wan :: u32 where "demo_wan \<equiv> 0x02004064"

definition demo_slot :: nat where
  "demo_slot = unat (hash_flow (flow_key demo_query)) mod MAX_SESSIONS"

definition demo_sent :: bytes where
  "demo_sent = rewrite_l4 demo_query 14 26 34 (l4_check demo_query) demo_wan (htons 10000)"

definition demo_engine :: NatEngine where
  "demo_engine = fst (take_slot (flow_key demo_query) 0 demo_slot (nat_run [SetWanIp demo_wan] NatEngine_init))"

lemma NatEngine_init_simps [simp]:
  "\<not> ns_active (sessions NatEngine_init i)" "\<not> ie_active (icmp_sessions NatEngine_init i)"
  "current_tick NatEngine_init = 0" "port_cursor NatEngine_init = 10000"
  "icmp_id_cursor NatEngine_init = 25000" "icmp_id_to_index NatEngine_init p = -1"
  by (simp_all add: NatEngine_init_def empty_session_def empty_icmp_session_def)

lemma demo_outbound:
  "process_outbound (nat_run [SetWanIp demo_wan] NatEngine_init) (parse demo_query) =
     (True, demo_engine, (parse demo_query)\<lparr>raw_span := demo_sent\<rparr>)"
proof -
  let ?st = "nat_run [SetWanIp demo_wan] NatEngine_init"
  have st: "?st = NatEngine_init\<lparr>wan_ip_nbo := demo_wan\<rparr>"
    by (simp add: nat_run_def set_wan_ip_def)
  have "probe (flow_key demo_query) demo_slot 32 0 ?st = take_slot (flow_key demo_query) 0 demo_slot ?st"
    using probe_free [of ?st demo_slot 32 "flow_key demo_query"] by (simp add: st demo_slot_def)
  then show ?thesis
    unfolding process_outbound_l4 [OF demo_l4_frames(1)] demo_slot_def [symmetric]
    by (simp add: demo_engine_def demo_sent_def demo_l4_off take_slot_eq st)
qed

lemma demo_sent_fields: "ld32 demo_sent 30 = 0x08080808" "ld16 demo_sent 36 = 0x3500"
  "ld16 demo_sent 34 = htons 10000"
proof -
  have "demo_sent = rewrite_l4 demo_query 14 26 (frame_l4_off demo_query) (l4_check demo_query) demo_wan (htons 10000)"
    by (simp add: demo_sent_def demo_l4_off)
  note f = rewrite_source_fields [OF demo_l4_frames(1) this, unfolded demo_l4_off]
  show "ld32 demo_sent 30 = 0x08080808" "ld16 demo_sent 36 = 0x3500" "ld16 demo_sent 34 = htons 10000"
    using f by (simp_all add: demo_query_def ld32_def ld16_def mk32_def mk16_def)
qed

lemma demo_reply_fields: "ld32 demo_reply 30 = demo_wan" "ld32 demo_reply 26 = 0x08080808"
  "ld16 demo_reply 34 = 0x3500" "ld16 demo_reply 36 = htons 10000"
  by (simp_all add: demo_reply_def ld32_def ld16_def word_eval)

lemma demo_query_fields: "ld32 demo_query 26 = 0x320CA8C0" "ld16 demo_query 34 = 0x3930"
  by (simp_all add: demo_query_def ld32_def ld16_def mk32_def mk16_def)

lemma demo_engine_wan: "wan_ip_nbo (nat_run [Tick] demo_engine) = demo_wan"
  by (simp add: nat_run_def tick_def demo_engine_def frame_simps set_wan_ip_def)

theorem nat_reply_delivered_witness:
  "\<exists>st p st' q. process_outbound (nat_run [SetWanIp demo_wan] NatEngine_init) (parse demo_query) = (True, st, p) \<and>
     process_inbound (nat_run [Tick] st) (parse demo_reply) = (True, st', q) \<and>
     ld32 (raw_span q) 30 = 0x320CA8C0 \<and> ld16 (raw_span q) 36 = 0x3930"
  using nat_reply_delivered [OF demo_outbound demo_l4_frames, of "[Tick]", unfolded demo_l4_off]
    demo_outbound
  by (simp add: demo_sent_fields demo_reply_fields demo_query_fields demo_engine_wan)

theorem nat_keeps_checksums_witness:
  "\<exists>st' p. process_outbound (nat_run [SetWanIp demo_wan] NatEngine_init) (parse demo_query) = (True, st', p) \<and>
     verifies (word_sum (raw_span p) 14 (ip_words (raw_span p))) \<and> l4_verifies (raw_span p) 8"
proof -
  have "ld16 demo_query (l4_check demo_query) \<noteq> 0" "l4_check demo_query = 40"
    by (simp_all add: l4_check_def demo_l4_off) (simp_all add: demo_query_def ld16_def word_eval)
  then show ?thesis
    using nat_keeps_checksums [OF disjI1 [OF demo_outbound] demo_l4_frames(1) demo_verifies(1), of 8]
      demo_outbound demo_verifies(2)
    by (simp add: demo_l4_off) (simp add: demo_query_def)
qed

lemma demo_engine_session:
  "sessions demo_engine demo_slot = fresh_session empty_session (flow_key demo_query) 0 (htons 10000)"
  "current_tick demo_engine = 0"
  by (simp_all add: demo_engine_def take_slot_eq nat_run_def set_wan_ip_def NatEngine_init_def)

theorem nat_inbound_filter_witness:
  "\<exists>st' q idx. process_inbound (nat_run [SetWanIp demo_wan, Outbound (parse demo_query)] NatEngine_init) (parse demo_reply) = (True, st', q) \<and>
     idx < MAX_SESSIONS \<and>
     (let s = sessions (nat_run [SetWanIp demo_wan, Outbound (parse demo_query)] NatEngine_init) idx in
      ns_active s \<and> fk_daddr (internal_key s) = 0x08080808 \<and> ld32 (raw_span q) 30 = fk_saddr (internal_key s))"
proof -
  let ?st = "nat_run [SetWanIp demo_wan, Outbound (parse demo_query)] NatEngine_init"
  have run: "?st = nat_run [] demo_engine" using demo_outbound by (simp add: nat_run_def)
  have "wan_ip_nbo (nat_run [] demo_engine) = demo_wan" using demo_engine_wan by (simp add: nat_run_def tick_def)
  then obtain st' q where p: "process_inbound ?st (parse demo_reply) = (True, st', q)"
    using reply_translated [OF demo_outbound demo_l4_frames, of "[]", unfolded demo_l4_off]
    by (simp only: run) (auto simp: demo_sent_fields demo_reply_fields)
  with nat_inbound_filter [OF this demo_l4_frames(2)] show ?thesis
    by (auto simp: Let_def demo_reply_fields)
qed

theorem nat_live_session_kept_witness:
  "ns_active (sessions (nat_exec Tick demo_engine) demo_slot) \<and>
   external_port (sessions (nat_exec Tick demo_engine) demo_slot) = htons 10000"
  using nat_live_session_kept [of demo_engine demo_slot Tick]
  by (simp add: demo_engine_session fresh_session_def)

text \<open>An echo request and its reply.\<close>

definition demo_ping :: bytes where
  "demo_ping = [0, 0, 0, 0, 0, 0, 0, 0, 0, 0, 0, 0, 8, 0,
     0x45, 0, 0, 28, 0, 0, 0, 0, 64, 1, 0, 0, 192, 168, 12, 50, 8, 8, 8, 8,
     8, 0, 0, 0, 0, 7, 0, 1]"

definition demo_pong :: bytes where
  "demo_pong = [0, 0, 0, 0, 0, 0, 0, 0, 0, 0, 0, 0, 8, 0,
     0x45, 0, 0, 28, 0, 0, 0, 0, 64, 1, 0, 0, 8, 8, 8, 8, 100, 64, 0, 2,
     0, 0, 0, 0, 0x61, 0xA8, 0, 1]"

lemma demo_echo_off: "frame_l4_off demo_ping = 34" "frame_l4_off demo_pong = 34"
  by (simp_all add: frame_l4_off_def demo_ping_def demo_pong_def)

lemma demo_icmp_frames: "icmp_frame demo_ping" "icmp_frame demo_pong"
  unfolding icmp_frame_def ipv4_frame_def demo_echo_off
  by (simp_all add: demo_ping_def demo_pong_def ld16_def word_eval)

lemma icmp_probe_free:
  "\<not> ie_active (icmp_sessions st (h mod MAX_ICMP_SESSIONS)) \<Longrightarrow> 0 < r \<Longrightarrow>
     icmp_probe sa da id_n h r 0 st = icmp_take_slot sa da id_n (current_tick st) (h mod MAX_ICMP_SESSIONS) st"
  by (cases r) (simp_all add: Let_def)

lemma alloc_icmp_free:
  "icmp_id_to_index st (icmp_id_cursor st) < 0 \<Longrightarrow> 0 < n \<Longrightarrow>
     alloc_icmp_loop n st = (st\<lparr>icmp_id_cursor := next_cursor (icmp_id_cursor st)\<rparr>, htons (icmp_id_cursor st))"
  by (cases n) (simp_all add: Let_def next_cursor_def)

lemma demo_ping_outbound:
  "\<exists>st. process_outbound (nat_run [SetWanIp demo_wan] NatEngine_init) (parse demo_ping) =
     (True, st, (parse demo_ping)\<lparr>raw_span := rewrite_icmp demo_ping 14 26 34 demo_wan (htons 25000)\<rparr>) \<and>
     wan_ip_nbo st = demo_wan"
proof -
  let ?st = "nat_run [SetWanIp demo_wan] NatEngine_init"
  let ?slot = "unat (hash_icmp_flow (ld32 demo_ping 26) (ld32 demo_ping 30) (ld16 demo_ping 38)) mod MAX_ICMP_SESSIONS"
  let ?take = "icmp_take_slot (ld32 demo_ping 26) (ld32 demo_ping 30) (ld16 demo_ping 38) 0 ?slot ?st"
  have st: "?st = NatEngine_init\<lparr>wan_ip_nbo := demo_wan\<rparr>"
    by (simp add: nat_run_def set_wan_ip_def)
  have "icmp_probe (ld32 demo_ping 26) (ld32 demo_ping 30) (ld16 demo_ping 38) ?slot 32 0 ?st = ?take"
    using icmp_probe_free [of ?st ?slot 32] by (simp add: st)
  moreover have "snd ?take = htons 25000"
    by (simp add: icmp_take_slot_eq alloc_external_icmp_id_def alloc_icmp_free closed_icmp_def
        icmp_evicted_def st)
  moreover have "wan_ip_nbo (fst ?take) = demo_wan" by (simp add: frame_simps st)
  moreover have "demo_ping ! 34 = 8" "demo_ping ! 35 = 0" by (simp_all add: demo_ping_def)
  ultimately show ?thesis
    unfolding process_outbound_echo [OF demo_icmp_frames(1)] demo_echo_off
    by (simp add: st Let_def case_prod_unfold)
qed

theorem nat_echo_reply_delivered_witness:
  "\<exists>st p st' q. process_outbound (nat_run [SetWanIp demo_wan] NatEngine_init) (parse demo_ping) = (True, st, p) \<and>
     process_inbound (nat_run [] st) (parse demo_pong) = (True, st', q) \<and>
     ld32 (raw_span q) 30 = 0x320CA8C0 \<and> ld16 (raw_span q) 38 = htons 7"
proof -
  obtain st where out: "process_outbound (nat_run [SetWanIp demo_wan] NatEngine_init) (parse demo_ping) =
     (True, st, (parse demo_ping)\<lparr>raw_span := rewrite_icmp demo_ping 14 26 34 demo_wan (htons 25000)\<rparr>)"
    and wan: "wan_ip_nbo st = demo_wan" using demo_ping_outbound by blast
  note f = rewrite_echo_fields [OF demo_icmp_frames(1), unfolded demo_echo_off, OF refl, of demo_wan "htons 25000"]
  have g: "demo_pong ! 34 = 0" "demo_pong ! 35 = 0" "ld32 demo_pong 30 = demo_wan"
    "ld32 demo_pong 26 = ld32 demo_ping 30" "ld16 demo_pong 38 = htons 25000"
    "ld32 demo_ping 26 = 0x320CA8C0" "ld16 demo_ping 38 = htons 7"
    by (simp_all add: demo_pong_def demo_ping_def ld32_def ld16_def word_eval)
  show ?thesis
    using nat_echo_reply_delivered [OF out demo_icmp_frames, of "[]", unfolded demo_echo_off] out f g wan
    by (simp add: nat_run_def)
qed

text \<open>A second flow, and the engine of the first one with the port cursor back at its port.\<close>

definition demo_other :: bytes where
  "demo_other = [0, 0, 0, 0, 0, 0, 0, 0, 0, 0, 0, 0, 8, 0,
     0x45, 0, 0, 28, 0, 0, 0, 0, 64, 17, 0, 0, 192, 168, 12, 51, 8, 8, 4, 4,
     0x30, 0x39, 0, 53, 0, 8, 0, 0]"

lemma demo_other_frame: "l4_frame demo_other" "frame_l4_off demo_other = 34"
proof -
  show off: "frame_l4_off demo_other = 34" by (simp add: frame_l4_off_def demo_other_def)
  show "l4_frame demo_other" unfolding l4_frame_def ipv4_frame_def off
    by (simp add: demo_other_def ld16_def word_eval)
qed

lemma demo_slots: "demo_slot = 60455" "unat (hash_flow (flow_key demo_other)) mod MAX_SESSIONS = 65100"
  unfolding demo_slot_def flow_key_def demo_l4_off demo_other_frame
  by (simp_all add: hash_flow_def demo_query_def demo_other_def ld32_def ld16_def word_eval
      fnv_bytes_def bytes32_def bytes16_def MAX_SESSIONS_def Let_def)

lemma demo_inv: "nat_inv demo_engine"
proof -
  have "demo_engine = nat_exec (Outbound (parse demo_query)) (nat_run [SetWanIp demo_wan] NatEngine_init)"
    by (simp add: demo_outbound)
  then show ?thesis using nat_inv_exec nat_inv_run nat_inv_init by metis
qed

definition demo_wrapped :: NatEngine where
  "demo_wrapped = demo_engine\<lparr>port_cursor := 10000\<rparr>"

lemma demo_wrapped_inv: "nat_inv demo_wrapped"
  using demo_inv by (simp add: demo_wrapped_def nat_inv_def session_inv_def icmp_inv_def cursor_ok_def)

lemma demo_wrapped_holds: "holds_session 60455 (flow_key demo_query) (htons 10000) demo_wrapped"
  using demo_engine_session
  by (simp add: holds_session_def demo_wrapped_def demo_slots fresh_session_def MAX_SESSIONS_def)
     (simp add: demo_engine_def take_slot_eq nat_run_def set_wan_ip_def demo_slots)

theorem nat_port_reuse_cuts_live_session_witness:
  "\<exists>st' p. process_outbound demo_wrapped (parse demo_other) = (True, st', p) \<and>
     ns_active (sessions st' 60455) \<and> internal_key (sessions st' 60455) = flow_key demo_query \<and>
     process_inbound st' (parse demo_reply) = (False, st', parse demo_reply)"
proof -
  have st: "port_cursor demo_wrapped = 10000" "wan_ip_nbo demo_wrapped = demo_wan"
    "\<not> ns_active (sessions demo_wrapped 65100)"
    by (simp_all add: demo_wrapped_def demo_engine_def take_slot_eq nat_run_def set_wan_ip_def demo_slots)
  have k: "fk_daddr (flow_key demo_query) = 0x08080808" "fk_dport (flow_key demo_query) = 0x3500"
    "fk_daddr (flow_key demo_other) = 0x04040808"
    by (simp_all add: flow_key_def demo_l4_off demo_other_frame)
      (simp_all add: demo_query_def demo_other_def ld32_def ld16_def mk32_def mk16_def)
  show ?thesis
    using nat_port_reuse_cuts_live_session [OF demo_wrapped_inv, of 60455 "flow_key demo_query" 65100
        demo_other demo_reply] demo_wrapped_holds st k demo_other_frame demo_l4_frames demo_slots
      demo_l4_off demo_reply_fields
    by (simp add: MAX_SESSIONS_def)
qed

text \<open>A third flow with the slot of the first.  It is opened first, so that the first flow gets the slot after it; then the third one
  falls silent for 301 ticks, while the first one is used after 200 of them.\<close>

definition demo_clash :: bytes where
  "demo_clash = [0, 0, 0, 0, 0, 0, 0, 0, 0, 0, 0, 0, 8, 0,
     0x45, 0, 0, 28, 0, 0, 0, 0, 64, 17, 0, 0, 192, 168, 12, 51, 8, 8, 8, 8,
     0x16, 0xe2, 0, 53, 0, 8, 0, 0]"

lemma demo_clash_frame: "l4_frame demo_clash" "unat (hash_flow (flow_key demo_clash)) mod MAX_SESSIONS = 60455"
  "flow_key demo_clash \<noteq> flow_key demo_query"
proof -
  have off: "frame_l4_off demo_clash = 34" by (simp add: frame_l4_off_def demo_clash_def)
  show "l4_frame demo_clash" unfolding l4_frame_def ipv4_frame_def off by (simp add: demo_clash_def ld16_def word_eval)
  show "unat (hash_flow (flow_key demo_clash)) mod MAX_SESSIONS = 60455" unfolding flow_key_def off
    by (simp add: hash_flow_def demo_clash_def ld32_def ld16_def word_eval fnv_bytes_def bytes32_def bytes16_def MAX_SESSIONS_def Let_def)
  show "flow_key demo_clash \<noteq> flow_key demo_query" unfolding flow_key_def off demo_l4_off
    by (simp add: demo_clash_def demo_query_def ld32_def ld16_def word_eval)
qed

definition demo_aging :: "nat_op list" where
  "demo_aging = [SetWanIp demo_wan, Outbound (parse demo_clash), Outbound (parse demo_query)] @ replicate 200 Tick @
     [Outbound (parse demo_query)] @ replicate 101 Tick"

lemma nat_run_ticks: "nat_run (replicate n Tick) st = st\<lparr>current_tick := current_tick st + of_nat n\<rparr>"
  by (induction n arbitrary: st) (simp_all add: nat_run_def tick_def algebra_simps)

lemma nat_run_append: "nat_run (xs @ ys) st = nat_run ys (nat_run xs st)"
  by (simp add: nat_run_def)

lemma outbound_state:
  "l4_frame f \<Longrightarrow> wan_ip_nbo st \<noteq> 0 \<Longrightarrow>
     fst (snd (process_outbound st (parse f))) = fst (probe (flow_key f) (unat (hash_flow (flow_key f)) mod MAX_SESSIONS) 32 0 st)"
  by (simp add: process_outbound_l4 Let_def case_prod_unfold)

lemma probe_second:
  assumes "\<not> slot_usable st a" "internal_key (sessions st a) \<noteq> key" "Suc a < MAX_SESSIONS"
  shows "slot_usable st (Suc a) \<Longrightarrow> probe key a 32 0 st = take_slot key (current_tick st) (Suc a) st"
    "\<not> slot_usable st (Suc a) \<Longrightarrow> internal_key (sessions st (Suc a)) = key \<Longrightarrow>
       probe key a 32 0 st = (touch (Suc a) st, external_port (sessions st (Suc a)))"
proof -
  have "probe key a (Suc n) 0 st = probe key a n (Suc 0) st" for n
    using assms by (simp add: Let_def slot_usable_def)
  from this [of "Suc 30"] have *: "probe key a 32 0 st = probe key a (Suc 30) (Suc 0) st" by (simp only: Suc_numeral semiring_norm)
  show "slot_usable st (Suc a) \<Longrightarrow> probe key a 32 0 st = take_slot key (current_tick st) (Suc a) st"
    "\<not> slot_usable st (Suc a) \<Longrightarrow> internal_key (sessions st (Suc a)) = key \<Longrightarrow>
       probe key a 32 0 st = (touch (Suc a) st, external_port (sessions st (Suc a)))"
    unfolding * probe.simps using assms(3) by (simp_all add: Let_def slot_usable_def)
qed

lemma demo_aged:
  assumes st_def: "st = nat_run demo_aging NatEngine_init"
  shows "wan_ip_nbo st = demo_wan" "port_cursor st = 10002" "ns_active (sessions st 60455)" "idle 60455 st = 301"
    "holds_session 60456 (flow_key demo_query) (htons 10001) st" "idle 60456 st = 101"
proof -
  define kc kq where "kc = flow_key demo_clash" and "kq = flow_key demo_query"
  define s0 where "s0 = NatEngine_init\<lparr>wan_ip_nbo := demo_wan\<rparr>"
  define s1 where "s1 = fst (take_slot kc 0 60455 s0)"
  define s2 where "s2 = fst (take_slot kq 0 60456 s1)"
  define s3 where "s3 = s2\<lparr>current_tick := 200\<rparr>"
  define s4 where "s4 = touch 60456 s3"
  have k: "kc \<noteq> kq" and M: "MAX_SESSIONS = 65536" by (simp_all add: kc_def kq_def demo_clash_frame MAX_SESSIONS_def)
  have slots: "unat (hash_flow kc) mod MAX_SESSIONS = 60455" "unat (hash_flow kq) mod MAX_SESSIONS = 60455"
    using demo_clash_frame(2) demo_slots(1) by (simp_all add: kc_def kq_def demo_slot_def)
  note out = outbound_state [OF demo_clash_frame(1), folded kc_def, unfolded slots]
    outbound_state [OF demo_l4_frames(1), folded kq_def, unfolded slots]
  have i0: "wan_ip_nbo s0 = demo_wan" "current_tick s0 = 0" "\<not> ns_active (sessions s0 i)" "port_cursor s0 = 10000" for i
    by (simp_all add: s0_def)
  have e1: "nat_exec (Outbound (parse demo_clash)) s0 = s1"
    using probe_usable [of s0 60455 32 kc] out(1) [of s0] i0 by (simp add: s1_def slot_usable_def M)
  have i1: "wan_ip_nbo s1 = demo_wan" "current_tick s1 = 0" "sessions s1 60455 = fresh_session (sessions s0 60455) kc 0 (htons 10000)"
    "\<not> ns_active (sessions s1 60456)" "port_cursor s1 = 10001"
    using i0 by (simp_all add: s1_def take_slot_eq next_cursor_def)
  have e2: "nat_exec (Outbound (parse demo_query)) s1 = s2"
    using probe_second(1) [of s1 60455 kq] out(2) [of s1] i1 k by (simp add: s2_def slot_usable_def fresh_session_def M)
  have i2: "wan_ip_nbo s2 = demo_wan" "current_tick s2 = 0" "sessions s2 60455 = sessions s1 60455" "port_cursor s2 = 10002"
    "sessions s2 60456 = fresh_session (sessions s1 60456) kq 0 (htons 10001)" "port_to_index s2 10001 = 60456"
    using i1 by (simp_all add: s2_def take_slot_eq next_cursor_def)
  have e4: "nat_exec (Outbound (parse demo_query)) s3 = s4"
    using probe_second(2) [of s3 60455 kq] out(2) [of s3] i1 i2 k
    by (simp add: s3_def s4_def slot_usable_def fresh_session_def M)
  have "st = nat_run (replicate 101 Tick) (nat_exec (Outbound (parse demo_query)) (nat_run (replicate 200 Tick) s2))"
    using e1 e2 by (simp add: st_def demo_aging_def nat_run_append) (simp add: nat_run_def set_wan_ip_def s0_def)
  then have st: "st = s4\<lparr>current_tick := 301\<rparr>"
    using e4 i2(2) by (simp add: nat_run_ticks s3_def [symmetric]) (simp add: s4_def s3_def upd_session_def)
  show "wan_ip_nbo st = demo_wan" "port_cursor st = 10002" "ns_active (sessions st 60455)" "idle 60455 st = 301"
    "holds_session 60456 (flow_key demo_query) (htons 10001) st" "idle 60456 st = 101"
    using i1 i2 by (simp_all add: st s4_def s3_def upd_session_def fresh_session_def idle_def holds_session_def M kq_def)
qed

theorem nat_expired_slot_rebinds_live_flow_witness:
  "\<exists>st' p. process_outbound (nat_run demo_aging NatEngine_init) (parse demo_query) = (True, st', p) \<and>
     holds_session 60456 (flow_key demo_query) (htons 10001) st' \<and>
     holds_session 60455 (flow_key demo_query) (htons 10002) st' \<and> ld16 (raw_span p) 34 = htons 10002"
proof -
  note st = demo_aged [OF refl]
  show ?thesis
    using nat_expired_slot_rebinds_live_flow [OF refl refl demo_l4_frames(1), of demo_aging 60456 "htons 10001"] st
      demo_slots(1) demo_l4_off
    by (simp add: demo_slot_def [symmetric]) blast
qed

theorem nat_outbound_available_witness:
  "\<exists>st p. process_outbound (nat_run [SetWanIp demo_wan] NatEngine_init) (parse demo_query) = (True, st, p) \<and>
     ld32 (raw_span p) 26 = demo_wan \<and> cursor_ok (ntohs (ld16 (raw_span p) 34))"
proof -
  have "wan_ip_nbo (nat_run [SetWanIp demo_wan] NatEngine_init) = demo_wan"
    "slot_usable (nat_run [SetWanIp demo_wan] NatEngine_init) i" for i
    by (simp_all add: nat_run_def set_wan_ip_def slot_usable_def)
  then show ?thesis
    using nat_outbound_available [OF demo_l4_frames(1), of "[SetWanIp demo_wan]" 0] demo_l4_off
    by (simp add: nat_run_def) blast
qed
end
