(* ===== verification/Dhcp_Reply.thy ===== *)
theory Dhcp_Reply
  imports DhcpEngine
begin

text \<open>
  The reply frame of the DHCP server: its fields, the regions copied from the request, the header
  checksum, and that the server's own option parser reads the options back.
\<close>

section \<open>The reply frame\<close>

lemma reply_sum:
  "unat (foldl (\<lambda>s i. s + ucast (ntohs (ld16 xs (b + 2 * i)))) (0 :: u32) [0..<n]) = word_sum xs b n \<and>
   word_sum xs b n \<le> n * 65535" if "n \<le> 10"
  using that
proof (induction n)
  case (Suc n)
  let ?s = "foldl (\<lambda>s i. s + ucast (ntohs (ld16 xs (b + 2 * i)))) (0 :: u32) [0..<n]"
  have b: "unat (ntohs (ld16 xs (b + 2 * n))) \<le> 65535" using unat_u16_less [of "ntohs (ld16 xs (b + 2 * n))"] by linarith
  have u: "unat (ucast (ntohs (ld16 xs (b + 2 * n))) :: u32) = unat (ntohs (ld16 xs (b + 2 * n)))"
    by (simp add: unsigned_ucast_eq)
  have IH: "unat ?s = word_sum xs b n" "word_sum xs b n \<le> n * 65535" using Suc by auto
  then have "unat ?s + unat (ntohs (ld16 xs (b + 2 * n))) < 4294967296" using Suc.prems b by linarith
  then have "unat (?s + ucast (ntohs (ld16 xs (b + 2 * n)))) = unat ?s + unat (ntohs (ld16 xs (b + 2 * n)))"
    by (simp add: unat_plus_u32 u)
  then show ?case using IH b by (simp add: word_sum_def be16_def)
qed (simp add: word_sum_def)


lemma unat_reply_ip_check: "unat (ntohs (reply_ip_check xs ip)) = 65535 - fold_twice (word_sum xs ip 10)"
proof -
  define x :: u32 where "x = foldl (\<lambda>s i. s + ucast (ntohs (ld16 xs (ip + 2 * i)))) 0 [0..<10]"
  define y where "y = drop_bit 16 x + (x AND 0xFFFF)"
  let ?s = "word_sum xs ip 10"
  let ?t = "?s mod 65536 + ?s div 65536"
  have x: "unat x = ?s" and le: "?s \<le> 655350" using reply_sum [of 10 xs ip] by (simp_all add: x_def)
  have "?s div 65536 \<le> 9" using div_le_mono [OF le, of 65536] by simp
  moreover have "?s mod 65536 < 65536" by simp
  ultimately have t: "?t < 65545" by linarith
  have y: "unat y = ?t"
    using unat_plus_u32 [of "drop_bit 16 x" "x AND 0xFFFF"] t unfolding y_def unat_drop16_u32 unat_mask16_u32 x by linarith
  have "?t div 65536 \<le> ?t" by (rule div_le_dividend)
  then have "unat (y + drop_bit 16 y) = ?t + ?t div 65536"
    using unat_plus_u32 [of y "drop_bit 16 y"] t unfolding unat_drop16_u32 y by linarith
  then have "unat (ucast (y + drop_bit 16 y) :: u16) = fold_twice ?s"
    by (simp only: unat_ucast_u32_u16 fold_twice_def Let_def)
  moreover have "(ucast (NOT (y + drop_bit 16 y)) :: u16) = NOT (ucast (y + drop_bit 16 y))"
    by (rule bit_word_eqI) (simp add: bit_simps)
  ultimately show ?thesis
    by (simp add: reply_ip_check_def Let_def x_def [symmetric] y_def [symmetric] unat_not_u16)
qed

lemma reply_ip_check_verifies:
  assumes "ip + 20 \<le> length xs" "be16 xs (ip + 10) = 0" "0 < word_sum xs ip 10"
  shows "verifies (word_sum (st16 xs (ip + 10) (reply_ip_check xs ip)) ip 10)"
proof -
  let ?s = "word_sum xs ip 10"
  have le: "?s \<le> 655350" using reply_sum [of 10 xs ip] by simp
  have "?s div 65536 \<le> 9" using div_le_mono [OF le, of 65536] by simp
  moreover have "?s mod 65536 < 65536" by simp
  ultimately have m: "fold_twice ?s mod 65535 = ?s mod 65535" by (intro fold_twice_mod_wide) linarith
  have "word_sum (st16 xs (ip + 10) (reply_ip_check xs ip)) ip 10 = ?s + (65535 - fold_twice ?s)"
    using word_sum_st16 [of 5 10 ip xs "ip + 10" "reply_ip_check xs ip"] assms(1,2) by (simp add: unat_reply_ip_check)
  moreover have "65535 dvd int (?s + (65535 - fold_twice ?s))"
  proof -
    have "65535 dvd int ?s - int (fold_twice ?s) + 65535"
      using m [symmetric] by (intro dvd_add) (simp_all only: nat_mod_eq_iff_dvd of_nat_numeral dvd_refl)
    then show ?thesis using fold_twice_less [of ?s] by (simp add: of_nat_diff algebra_simps)
  qed
  ultimately show ?thesis using assms(3)
    by (simp only: verifies_iff) (metis add_is_0 dvd_imp_mod_0 int_dvd_int_iff less_numeral_extra(3) of_nat_numeral)
qed


lemma length_bytes32 [simp]: "length (bytes32 v) = 4"
  by (simp add: bytes32_def bytes16_def)

lemma length_dhcp_options [simp]: "length (dhcp_options t r l) = 38"
  by (simp add: dhcp_options_def)

lemma ld16_take [mem_simps]: "i + 1 < n \<Longrightarrow> ld16 (take n xs) i = ld16 xs i"
  by (simp add: ld16_def)

lemma ld32_take [mem_simps]: "i + 3 < n \<Longrightarrow> ld32 (take n xs) i = ld32 xs i"
  by (simp add: ld32_def mem_simps)

lemma length_build_response: "length (build_response data d st t yi) = 320"
  by (simp add: build_response_def Let_def)

lemma build_response_fields:
  assumes "length data = 512" "d + 240 \<le> 512" "length (lan_if_mac st) = 6"
    and r: "r = build_response data d st t yi"
  shows "ld16 r 12 = ntohs 0x0800" "r ! 14 = 0x45" "r ! 23 = 17" "ld16 r 16 = ntohs 306"
    "ld32 r 26 = router_ip st" "ld32 r 30 = 0xFFFFFFFF"
    "ld16 r 34 = ntohs 67" "ld16 r 36 = ntohs 68" "ld16 r 38 = ntohs 286" "ld16 r 40 = 0"
    "r ! 42 = 2" "ld32 r 46 = ld32 data (d + 4)" "ld32 r 58 = yi" "ld32 r 278 = ntohl 0x63825363"
  unfolding r build_response_def Let_def using assms(1-3)
  by (simp_all add: mem_simps)


lemma build_response_copies:
  assumes "length data = 512" "d + 240 \<le> 512" "length (lan_if_mac st) = 6"
    and r: "r = build_response data d st t yi"
  shows "take 6 r = take 6 (drop (d + 28) data)" "take 6 (drop 6 r) = lan_if_mac st"
    "take 16 (drop 70 r) = take 16 (drop (d + 28) data)"
    "drop 282 r = dhcp_options t (router_ip st) (lease_duration st)"
proof -
  show "take 6 r = take 6 (drop (d + 28) data)"
    unfolding r build_response_def Let_def using assms(1-3)
    by (intro nth_equalityI) (auto simp: mem_simps nth_memcpy)
  show "take 6 (drop 6 r) = lan_if_mac st"
    unfolding r build_response_def Let_def using assms(1-3)
    by (intro nth_equalityI) (auto simp: mem_simps nth_memcpy)
  show "take 16 (drop 70 r) = take 16 (drop (d + 28) data)"
    unfolding r build_response_def Let_def using assms(1-3)
    by (intro nth_equalityI) (auto simp: mem_simps nth_memcpy)
  show "drop 282 r = dhcp_options t (router_ip st) (lease_duration st)"
    unfolding r build_response_def Let_def using assms(1-3)
    by (intro nth_equalityI) (auto simp: mem_simps nth_memcpy)
qed

lemma word_sum_take: "b + 2 * n \<le> k \<Longrightarrow> word_sum (take k xs) b n = word_sum xs b n"
  unfolding word_sum_def be16_def by (intro sum.cong refl) (auto simp: mem_simps)

lemma build_response_verifies:
  assumes "length data = 512" "d + 240 \<le> 512" "length (lan_if_mac st) = 6"
  shows "verifies (region_sum (build_response data d st t yi) 14 20)"
proof -
  obtain q where q: "build_response data d st t yi =
      take 320 (st16 (st16 (st16 (st16 q 24 0) 24 (reply_ip_check (st16 q 24 0) 14)) 38 (ntohs 286)) 40 0)"
    and len: "length q = 512"
    by (simp add: build_response_def Let_def)
  have "be16 (build_response data d st t yi) 14 \<noteq> 0"
    using build_response_fields(2) [OF assms refl, of t yi] by (simp add: be16_def unat_ntohs_ld16)
  then have "0 < be16 (st16 q 24 0) 14" unfolding q by (simp add: be16_def mem_simps len)
  moreover have "be16 (st16 q 24 0) 14 \<le> word_sum (st16 q 24 0) 14 10"
    unfolding word_sum_def by (rule order_trans [OF _ member_le_sum [of 0]]) simp_all
  ultimately have "0 < word_sum (st16 q 24 0) 14 10" by linarith
  then have "verifies (word_sum (st16 (st16 q 24 0) 24 (reply_ip_check (st16 q 24 0) 14)) 14 10)"
    using reply_ip_check_verifies [of 14 "st16 q 24 0"] by (simp add: len be16_def mem_simps)
  then show ?thesis unfolding q region_sum_def by (simp add: word_sum_take word_sum_st16_out)
qed

lemma opt_loop_reply:
  assumes "drop 282 r = dhcp_options t ro l" "length r = 320"
  shows "opt_loop r 320 282 0 0 = (t, 0)"
proof -
  have "r ! (282 + k) = dhcp_options t ro l ! k" for k
    unfolding assms(1) [symmetric] using assms(2) by simp
  from this [of 0] this [of 1] this [of 2] this [of 3] this [of 4] this [of 9] this [of 10]
    this [of 15] this [of 16] this [of 25] this [of 26] this [of 31] this [of 32] this [of 37]
  have o: "r ! 282 = 53" "r ! 283 = 1" "r ! 284 = t" "r ! 285 = 1" "r ! 286 = 4" "r ! 291 = 3" "r ! 292 = 4"
    "r ! 297 = 6" "r ! 298 = 8" "r ! 307 = 51" "r ! 308 = 4" "r ! 313 = 54" "r ! 314 = 4" "r ! 319 = 255"
    by (simp_all add: dhcp_options_def bytes32_def bytes16_def)
  show ?thesis
    by (simp add: opt_loop.simps [of r 320 282] opt_loop.simps [of r 320 285] opt_loop.simps [of r 320 291]
        opt_loop.simps [of r 320 297] opt_loop.simps [of r 320 307] opt_loop.simps [of r 320 313]
        opt_loop.simps [of r 320 319] o assms(2))
qed

text \<open>C30: Every reply the server builds is a well-formed frame of 320 bytes: an IPv4 header whose checksum
  verifies and whose length is that of the rest of the frame, a UDP header from port 67 to port 68 with a
  matching length, the Ethernet destination and client hardware address of the request, its transaction id, the
  offered address, and options in which the message type is the intended one.\<close>

theorem dhcp_reply_well_formed:
  assumes "length data = 512" "dhcp + 240 \<le> 512" "length (lan_if_mac st) = 6"
    and "r = build_response data dhcp st type yi"
  shows "length r = 320 \<and> ipv4_frame r \<and> udp (parse r) = Some 34 \<and>
    verifies (region_sum r 14 20) \<and> unat (ntohs (ld16 r 16)) = length r - 14 \<and>
    ntohs (ld16 r 34) = 67 \<and> ntohs (ld16 r 36) = 68 \<and> unat (ntohs (ld16 r 38)) = length r - 34 \<and>
    take 6 r = take 6 (drop (dhcp + 28) data) \<and> take 16 (drop 70 r) = take 16 (drop (dhcp + 28) data) \<and>
    ld32 r 46 = ld32 data (dhcp + 4) \<and> ld32 r 58 = yi \<and> opt_loop r (length r) 282 0 0 = (type, 0)"
proof -
  note f = build_response_fields [OF assms(1-3), OF assms(4)] and c = build_response_copies [OF assms(1-3), OF assms(4)]
  have len: "length r = 320" by (simp add: assms(4) length_build_response)
  have "ipv4_frame r" "frame_l4_off r = 34" using f len by (simp_all add: ipv4_frame_def frame_l4_off_def)
  moreover have "verifies (region_sum r 14 20)" unfolding assms(4) by (rule build_response_verifies) fact+
  ultimately show ?thesis using f c(1,3) len opt_loop_reply [OF c(4) len] by (simp add: udp_parse)
qed

definition demo_server :: DhcpEngine where
  "demo_server = DhcpEngine_new ''192.168.1.1'' \<lparr>pool_start = 0x0201A8C0, pool_end = 0x0301A8C0, pool_lease = 3600\<rparr>
     (Some [2, 0, 0, 0, 0, 1])"

theorem dhcp_reply_well_formed_witness:
  "length (build_response (replicate 512 7) 42 demo_server 2 0x0201A8C0) = 320 \<and>
   verifies (region_sum (build_response (replicate 512 7) 42 demo_server 2 0x0201A8C0) 14 20)"
  using dhcp_reply_well_formed [of "replicate 512 7" 42 demo_server
      "build_response (replicate 512 7) 42 demo_server 2 0x0201A8C0" 2 "0x0201A8C0"]
  by (simp add: demo_server_def DhcpEngine_new_def)

end
