(* ===== verification/Dhcp_Correct.thy ===== *)
theory Dhcp_Correct
  imports Dhcp_Reply
begin

text \<open>
  Correctness of the DHCP server: the invariant of the lease table and that every operation keeps it, the
  handler as recognition, decision and reply, the protection of running leases, the handshake, and the
  range of the pool.
\<close>

section \<open>The lease table\<close>

text \<open>Addresses are distinct, and no two active leases belong to the same client.\<close>

abbreviation active_leases :: "DhcpEngine \<Rightarrow> nat set" where
  "active_leases st \<equiv> {i. i < pool_count st \<and> lease_active (leases st i)}"

definition dhcp_inv :: "DhcpEngine \<Rightarrow> bool" where
  "dhcp_inv st \<longleftrightarrow> pool_count st \<le> MAX_POOL_SIZE \<and>
     inj_on (\<lambda>i. lease_ip (leases st i)) {..<pool_count st} \<and>
     inj_on (\<lambda>i. lease_mac (leases st i)) (active_leases st)"

lemma find_or_assign_cases:
  assumes "find_or_assign_lease mac st w = (ip, st', w')"
  obtains (known) i where "i < pool_count st" "lease_active (leases st i)" "lease_mac (leases st i) = mac"
      "ip = lease_ip (leases st i)" "st' = st"
  | (fresh) i where "i < pool_count st"
      "\<forall>j < pool_count st. lease_active (leases st j) \<longrightarrow> lease_mac (leases st j) \<noteq> mac"
      "\<not> lease_active (leases st i) \<or> clock w (clock_reads w) > lease_expiry (leases st i)"
      "ip = lease_ip (leases st i)"
      "st' = st\<lparr>leases := (leases st)(i := (leases st i)\<lparr>lease_mac := mac, lease_active := True,
         lease_expiry := clock w (clock_reads w) + lease_duration st * 1000000000\<rparr>)\<rparr>"
  | (full) "\<forall>j < pool_count st. lease_active (leases st j) \<and> lease_mac (leases st j) \<noteq> mac \<and>
       clock w (clock_reads w) \<le> lease_expiry (leases st j)" "ip = 0" "st' = st"
proof -
  let ?A = "find (\<lambda>i. lease_active (leases st i) \<and> lease_mac (leases st i) = mac) [0..<pool_count st]"
  let ?B = "find (\<lambda>i. \<not> lease_active (leases st i) \<or> clock w (clock_reads w) > lease_expiry (leases st i)) [0..<pool_count st]"
  show thesis
  proof (cases ?A)
    case (Some i)
    then have "ip = lease_ip (leases st i)" "st' = st"
      using assms by (auto simp: find_or_assign_lease_def steady_now_def)
    then show thesis using known [of i] Some by (auto simp: find_upt_Some)
  next
    case A: None
    show thesis
    proof (cases ?B)
      case (Some i)
      then have "ip = lease_ip (leases st i)"
        "st' = st\<lparr>leases := (leases st)(i := (leases st i)\<lparr>lease_mac := mac, lease_active := True,
           lease_expiry := clock w (clock_reads w) + lease_duration st * 1000000000\<rparr>)\<rparr>"
        using assms A by (auto simp: find_or_assign_lease_def steady_now_def)
      then show thesis using fresh [of i] A Some by (auto simp: find_upt_Some find_upt_None)
    next
      case None
      then have "ip = 0" "st' = st"
        using assms A by (auto simp: find_or_assign_lease_def steady_now_def)
      then show thesis using full A None by (auto simp: find_upt_None not_less)
    qed
  qed
qed

lemma find_or_assign_world:
  "find_or_assign_lease mac st w = (ip, st', w') \<Longrightarrow> w' = w\<lparr>clock_reads := Suc (clock_reads w)\<rparr>"
  by (auto simp: find_or_assign_lease_def steady_now_def split: option.splits)

lemma find_or_assign_inv:
  assumes "find_or_assign_lease mac st w = (ip, st', w')" "dhcp_inv st"
  shows "dhcp_inv st'"
  using assms(1)
proof (cases rule: find_or_assign_cases)
  case (fresh i)
  have "(\<lambda>j. lease_ip (leases st' j)) = (\<lambda>j. lease_ip (leases st j))"
    by (rule ext) (simp add: fresh(5))
  moreover have "inj_on (\<lambda>j. lease_mac (leases st' j)) (active_leases st')"
  proof (rule inj_onI)
    fix j k
    assume "j \<in> active_leases st'" "k \<in> active_leases st'" "lease_mac (leases st' j) = lease_mac (leases st' k)"
    then show "j = k"
      using fresh(2,5) assms(2) by (auto simp: dhcp_inv_def inj_on_def split: if_splits)
  qed
  moreover have "pool_count st' = pool_count st" by (simp add: fresh(5))
  ultimately show ?thesis using assms(2) by (simp add: dhcp_inv_def)
qed (use assms in auto)

lemma dhcp_inv_cong:
  assumes "dhcp_inv st" "pool_count st' = pool_count st"
    and "\<And>i. lease_mac (leases st' i) = lease_mac (leases st i)" "\<And>i. lease_ip (leases st' i) = lease_ip (leases st i)"
    and "\<And>i. i < pool_count st \<Longrightarrow> lease_active (leases st' i) = lease_active (leases st i)"
  shows "dhcp_inv st'"
proof -
  have "active_leases st' = active_leases st" using assms by auto
  then show ?thesis using assms by (simp add: dhcp_inv_def)
qed

text \<open>An address just found belongs to an active lease.\<close>

lemma found_active:
  assumes "find_or_assign_lease mac st w = (ip, st1, w1)" "dhcp_inv st"
    and "i < pool_count st1" "lease_ip (leases st1 i) = ip"
  shows "lease_active (leases st1 i)"
  using assms(1)
proof (cases rule: find_or_assign_cases)
  case (known j)
  then have "i = j" using assms(2-4) by (auto simp: dhcp_inv_def inj_on_def)
  then show ?thesis using known by simp
next
  case (fresh j)
  then have "i = j" using assms(2-4) by (auto simp: dhcp_inv_def inj_on_def split: if_splits)
  then show ?thesis using fresh by simp
next
  case full
  then show ?thesis using assms(3) by simp
qed

lemma commit_cases:
  assumes "commit_lease ip st w = (st', w')"
  obtains (none) "\<forall>i < pool_count st. lease_ip (leases st i) \<noteq> ip" "st' = st" "w' = w"
  | (some) i where "i < pool_count st" "lease_ip (leases st i) = ip"
      "st' = st\<lparr>leases := (leases st)(i := (leases st i)\<lparr>lease_active := True,
         lease_expiry := clock w (clock_reads w) + lease_duration st * 1000000000\<rparr>)\<rparr>"
      "w' = w\<lparr>clock_reads := Suc (clock_reads w)\<rparr>"
proof (cases "find (\<lambda>i. lease_ip (leases st i) = ip) [0..<pool_count st]")
  case None
  then have "st' = st" "w' = w" using assms by (auto simp: commit_lease_def)
  then show thesis using none None by (auto simp: find_upt_None)
next
  case (Some i)
  then have "st' = st\<lparr>leases := (leases st)(i := (leases st i)\<lparr>lease_active := True,
         lease_expiry := clock w (clock_reads w) + lease_duration st * 1000000000\<rparr>)\<rparr>"
      "w' = w\<lparr>clock_reads := Suc (clock_reads w)\<rparr>"
    using assms by (auto simp: commit_lease_def steady_now_def)
  then show thesis using some [of i] Some by (auto simp: find_upt_Some)
qed

text \<open>What committing it changes: only the expiry of one lease.\<close>

lemma commit_after_find:
  assumes "find_or_assign_lease mac st w = (ip, st1, w1)" "commit_lease ip st1 w1 = (st2, w2)" "dhcp_inv st"
  shows "pool_count st2 = pool_count st1" "lease_mac (leases st2 i) = lease_mac (leases st1 i)"
    "lease_ip (leases st2 i) = lease_ip (leases st1 i)"
    "i < pool_count st1 \<Longrightarrow> lease_active (leases st2 i) = lease_active (leases st1 i)"
    "dhcp_inv st2"
proof -
  show unchanged: "pool_count st2 = pool_count st1" "lease_mac (leases st2 i) = lease_mac (leases st1 i)"
    "lease_ip (leases st2 i) = lease_ip (leases st1 i)"
    "i < pool_count st1 \<Longrightarrow> lease_active (leases st2 i) = lease_active (leases st1 i)" for i
    using assms(2) by (cases rule: commit_cases; use found_active [OF assms(1,3)] in auto)+
  show "dhcp_inv st2"
    using find_or_assign_inv [OF assms(1,3)] unchanged by (rule dhcp_inv_cong)
qed

section \<open>The handler in three stages\<close>

text \<open>Recognising a request: the offset of the DHCP header, the message type, the requested address and the
  client's hardware address.\<close>

definition dhcp_query :: "DhcpMessage \<Rightarrow> (nat \<times> u8 \<times> u32 \<times> bytes) option" where
  "dhcp_query msg =
     (let data = dm_data msg; s = take (dm_len msg) data; dhcp = frame_l4_off s + 8 in
      if ipv4_frame s \<and> s ! 23 = 17 \<and> frame_l4_off s + 8 \<le> length s \<and>
         ntohs (ld16 data (frame_l4_off s + 2)) = 67 \<and> dhcp + 240 \<le> dm_len msg \<and>
         data ! dhcp = 1 \<and> ntohl (ld32 data (dhcp + 236)) = 0x63825363
      then let (t, r) = opt_loop data (dm_len msg) (dhcp + 240) 0 0
           in Some (dhcp, t, if t = 3 \<and> r = 0 then ld32 data (dhcp + 12) else r, take 6 (drop (dhcp + 28) data))
      else None)"

text \<open>Deciding on the reply: its type and address.\<close>

definition dhcp_react ::
  "u8 \<Rightarrow> u32 \<Rightarrow> bytes \<Rightarrow> DhcpEngine \<Rightarrow> World \<Rightarrow> DhcpEngine \<times> World \<times> (u8 \<times> u32) option" where
  "dhcp_react t req mac st w =
     (if t = 1 then
        let (ip, st, w) = find_or_assign_lease mac st w in (st, w, if ip \<noteq> 0 then Some (2, ip) else None)
      else if t = 3 then
        let (ip, st, w) = find_or_assign_lease mac st w in
        if ip = req then let (st, w) = commit_lease ip st w in (st, w, Some (5, ip))
        else (st, w, Some (6, req))
      else (st, w, None))"

lemma handle_dhcp_request_stages:
  "handle_dhcp_request msg fd st w =
     (case dhcp_query msg of
        None \<Rightarrow> Some (st, w)
      | Some (dhcp, t, req, mac) \<Rightarrow>
          (case dhcp_react t req mac st w of
             (st, w, None) \<Rightarrow> Some (st, w)
           | (st, w, Some (rt, yi)) \<Rightarrow> send_response (dm_data msg) dhcp fd rt yi st w))"
proof -
  let ?s = "take (dm_len msg) (dm_data msg)"
  show ?thesis
  proof (cases "ipv4_frame ?s \<and> frame_l4_off ?s \<le> length ?s \<and> ?s ! 23 = 17 \<and> frame_l4_off ?s + 8 \<le> length ?s")
    case True
    then show ?thesis
      unfolding handle_dhcp_request_def dhcp_query_def
      by (auto simp: Let_def parse_simps dhcp_react_def case_prod_unfold not_less split: if_splits)
  next
    case False
    then show ?thesis
      unfolding handle_dhcp_request_def dhcp_query_def
      by (auto simp: Let_def parse_simps)
  qed
qed

lemma dhcp_react_inv:
  assumes "dhcp_react t req mac st w = (st', w', r)" "dhcp_inv st"
  shows "dhcp_inv st'"
proof -
  obtain ip st1 w1 where f: "find_or_assign_lease mac st w = (ip, st1, w1)" by (metis surj_pair)
  obtain st2 w2 where c: "commit_lease ip st1 w1 = (st2, w2)" by fastforce
  show ?thesis
    using assms find_or_assign_inv [OF f] commit_after_find(5) [OF f c]
    unfolding dhcp_react_def f Let_def prod.case c by (auto split: if_splits)
qed

lemma commit_world: "commit_lease ip st w = (st', w') \<Longrightarrow> \<exists>k. w' = w\<lparr>clock_reads := k\<rparr>"
  by (erule commit_cases) (auto intro: exI [of _ "clock_reads w"])

lemma dhcp_react_world:
  assumes "dhcp_react t req mac st w = (st', w', r)"
  shows "\<exists>k. w' = w\<lparr>clock_reads := k\<rparr>"
proof -
  obtain ip st1 w1 where f: "find_or_assign_lease mac st w = (ip, st1, w1)" by (metis surj_pair)
  obtain st2 w2 where c: "commit_lease ip st1 w1 = (st2, w2)" by fastforce
  have "\<exists>k. w = w\<lparr>clock_reads := k\<rparr>" by (intro exI [of _ "clock_reads w"]) simp
  then show ?thesis
    using assms find_or_assign_world [OF f] commit_world [OF c]
    unfolding dhcp_react_def f Let_def prod.case c by (auto split: if_splits)
qed

lemma send_best_effort_returns:
  assumes "sends_return w"
  shows "\<exists>w'. send_best_effort fd pkt c p w = Some w' \<and> same_kernel w w'"
  using same_kernel_try_result [of w fd pkt]
  by (auto simp: send_best_effort_def try_send_returns [OF assms] same_kernel_def split: prod.split)

lemma handle_returns:
  assumes "sends_return w"
  shows "\<exists>st' w'. handle_dhcp_request msg fd st w = Some (st', w') \<and> same_kernel w w' \<and>
    (case dhcp_query msg of None \<Rightarrow> st' = st
     | Some (dhcp, t, req, mac) \<Rightarrow> st' = fst (dhcp_react t req mac st w))"
proof (cases "dhcp_query msg")
  case None
  then show ?thesis by (simp add: handle_dhcp_request_stages)
next
  case (Some q)
  obtain dhcp t req mac where q: "q = (dhcp, t, req, mac)" by (metis surj_pair)
  obtain st1 w1 r where re: "dhcp_react t req mac st w = (st1, w1, r)" by (metis surj_pair)
  obtain k where w1: "w1 = w\<lparr>clock_reads := k\<rparr>" using dhcp_react_world [OF re] by blast
  have "sends_return w1" using assms by (simp add: w1 sends_return_def)
  then obtain w2 where "send_best_effort fd pkt 2 0 w1 = Some w2" "same_kernel w1 w2"
    if "pkt = build_response (dm_data msg) dhcp st1 (fst (the r)) (snd (the r))" for pkt
    using send_best_effort_returns by blast
  then show ?thesis
    using Some q re by (cases r) (auto simp: handle_dhcp_request_stages send_response_def w1 same_kernel_def)
qed

lemma handle_inv:
  assumes "handle_dhcp_request msg fd st w = Some (st', w')" "sends_return w" "dhcp_inv st"
  shows "dhcp_inv st' \<and> sends_return w'"
proof -
  obtain st2 w2 where h: "handle_dhcp_request msg fd st w = Some (st2, w2)" "same_kernel w w2"
    and st: "case dhcp_query msg of None \<Rightarrow> st2 = st | Some (dhcp, t, req, mac) \<Rightarrow> st2 = fst (dhcp_react t req mac st w)"
    using handle_returns [OF assms(2)] by blast
  have "dhcp_inv st2"
    using st assms(3) dhcp_react_inv by (auto split: option.splits) (metis surj_pair fst_conv)+
  then show ?thesis using h assms(1,2) same_kernel_returns by auto
qed

lemma background_loop_inv:
  assumes "sends_return w" "dhcp_inv st"
  shows "\<exists>st' w'. background_loop n fd st w = Some (st', w') \<and> dhcp_inv st' \<and> sends_return w'"
  using assms
proof (induction n arbitrary: st w)
  case (Suc n)
  obtain m q where pop: "spsc_pop 512 (request_queue st) = (m, q)" by fastforce
  let ?st = "st\<lparr>request_queue := q\<rparr>"
  have inv: "dhcp_inv ?st" using Suc.prems(2) by (simp add: dhcp_inv_def)
  show ?case
  proof (cases m)
    case None
    then show ?thesis using pop inv Suc.prems by auto
  next
    case (Some msg)
    obtain st1 w1 where "handle_dhcp_request msg fd ?st w = Some (st1, w1)"
      using handle_returns [OF Suc.prems(1)] by blast
    then show ?thesis
      using pop Some Suc.IH handle_inv [OF _ Suc.prems(1) inv] by auto
  qed
qed simp

section \<open>The pool\<close>

lemma init_pool_leases:
  "fold (\<lambda>i ls. ls(i := (ls i)\<lparr>lease_ip := f i, lease_active := False\<rparr>)) [0..<n] ls i =
    (if i < n then (ls i)\<lparr>lease_ip := f i, lease_active := False\<rparr> else ls i)"
  by (induction n) (auto simp: less_Suc_eq)

lemma to_host_pool_ip:
  assumes "unat (to_host start) + i \<le> unat (to_host fin)"
  shows "unat (to_host (pool_advance start (of_nat i))) = unat (to_host start) + i"
proof -
  have "unat (to_host start) + i < 4294967296" using assms unat_u32_less by (rule le_less_trans)
  then show ?thesis
    by (simp add: to_host_pool_advance unat_word_ariths unat_of_nat take_bit_eq_mod)
qed

lemma init_pool_cases:
  assumes "init_pool start fin st = (st', err)"
  obtains (bad) "unat (to_host fin) < unat (to_host start)" "st' = st"
      "err = Some ''DHCP pool_end is before pool_start''"
  | (good) n where "unat (to_host start) \<le> unat (to_host fin)" "err = None"
      "n = min (unat (to_host fin) - unat (to_host start) + 1) 253" "pool_count st' = n"
      "\<forall>i < n. unat (to_host (lease_ip (leases st' i))) = unat (to_host start) + i \<and> \<not> lease_active (leases st' i)"
      "request_queue st' = request_queue st" "router_ip st' = router_ip st" "lease_duration st' = lease_duration st"
proof (cases "unat (to_host fin) < unat (to_host start)")
  case True
  then show thesis using assms bad by (simp add: init_pool_def)
next
  case False
  let ?n = "min (unat (to_host fin) - unat (to_host start) + 1) 253"
  have st': "st' = st\<lparr>pool_count := ?n, leases := fold (\<lambda>i ls. ls(i := (ls i)\<lparr>lease_ip := pool_advance start (of_nat i),
      lease_active := False\<rparr>)) [0..<?n] (leases st)\<rparr>" "err = None"
    using assms False by (auto simp: init_pool_def Let_def MAX_POOL_SIZE_def)
  have "unat (to_host (pool_advance start (of_nat i))) = unat (to_host start) + i" if "i < ?n" for i
    using that False by (intro to_host_pool_ip [of _ _ fin]) linarith
  then show thesis using False st' by (intro good [of ?n]) (auto simp: init_pool_leases)
qed

lemma init_pool_inv:
  assumes "init_pool start fin st = (st', err)" "dhcp_inv st"
  shows "dhcp_inv st'"
  using assms(1)
proof (cases rule: init_pool_cases)
  case bad
  then show ?thesis using assms(2) by simp
next
  case (good n)
  have "inj_on (\<lambda>i. lease_ip (leases st' i)) {..<pool_count st'}"
  proof (rule inj_onI)
    fix i j assume "i \<in> {..<pool_count st'}" "j \<in> {..<pool_count st'}" "lease_ip (leases st' i) = lease_ip (leases st' j)"
    then have "unat (to_host start) + i = unat (to_host start) + j" using good(4,5) by (metis lessThan_iff)
    then show "i = j" by simp
  qed
  moreover have "active_leases st' = {}" using good(4,5) by auto
  then have "inj_on (\<lambda>i. lease_mac (leases st' i)) (active_leases st')" by (simp only: inj_on_empty)
  ultimately show ?thesis using good(3,4) unfolding dhcp_inv_def by (simp add: MAX_POOL_SIZE_def)
qed

section \<open>Runs of the engine\<close>

datatype dhcp_op = Reconfigure DhcpPoolConfig | Set_router u32 | Intercept ParsedPacket | Background int

fun dhcp_exec :: "dhcp_op \<Rightarrow> DhcpEngine \<times> World \<Rightarrow> (DhcpEngine \<times> World) option" where
  "dhcp_exec (Reconfigure cfg) (st, w) = Some (fst (reconfigure cfg st), w)"
| "dhcp_exec (Set_router ip) (st, w) = Some (set_router_ip ip st, w)"
| "dhcp_exec (Intercept pkt) (st, w) = Some (intercept_request pkt st, w)"
| "dhcp_exec (Background fd) (st, w) = process_background_tasks fd st w"

fun dhcp_run :: "dhcp_op list \<Rightarrow> DhcpEngine \<times> World \<Rightarrow> (DhcpEngine \<times> World) option" where
  "dhcp_run [] s = Some s"
| "dhcp_run (op # ops) s = do { s \<leftarrow> dhcp_exec op s; dhcp_run ops s }"

lemma dhcp_exec_inv:
  assumes "sends_return w" "dhcp_inv st"
  shows "\<exists>st' w'. dhcp_exec op (st, w) = Some (st', w') \<and> dhcp_inv st' \<and> sends_return w'"
proof (cases op)
  case (Reconfigure cfg)
  have "dhcp_inv (st\<lparr>lease_duration := pool_lease cfg\<rparr>)" using assms(2) by (simp add: dhcp_inv_def)
  then have "dhcp_inv (fst (reconfigure cfg st))"
    using init_pool_inv by (metis reconfigure_def surj_pair fst_conv)
  then show ?thesis using assms(1) Reconfigure by simp
next
  case (Background fd)
  then show ?thesis using background_loop_inv [OF assms] by (simp add: process_background_tasks_def)
qed (use assms in \<open>auto simp: set_router_ip_def intercept_request_def dhcp_inv_def Let_def\<close>)

lemma dhcp_new_inv: "dhcp_inv (DhcpEngine_new ip cfg hw)"
proof -
  have "dhcp_inv (fst (init_pool (pool_start cfg) (pool_end cfg) st))" if "dhcp_inv st" for st
    using that init_pool_inv by (metis surj_pair fst_conv)
  then show ?thesis
    unfolding DhcpEngine_new_def Let_def
    by (simp add: dhcp_inv_def MAX_POOL_SIZE_def split: option.split)
qed

lemma dhcp_run_inv:
  assumes "sends_return w" "dhcp_inv st"
  shows "\<exists>st' w'. dhcp_run ops (st, w) = Some (st', w') \<and> dhcp_inv st' \<and> sends_return w'"
  using assms
proof (induction ops arbitrary: st w)
  case (Cons op ops)
  then show ?case using dhcp_exec_inv [OF Cons.prems, of op] by auto
qed simp

text \<open>C7: Whatever is requested of the server, in whatever order, every call returns (once the system calls
  are not interrupted for ever), the pool holds at most 253 addresses, no address occurs twice in it, and no
  two active leases belong to the same client.\<close>

theorem dhcp_reachable_inv:
  assumes "sends_return w"
  shows "\<exists>st w'. dhcp_run ops (DhcpEngine_new ip cfg hw, w) = Some (st, w') \<and>
    pool_count st \<le> MAX_POOL_SIZE \<and>
    (\<forall>i j. i < pool_count st \<longrightarrow> j < pool_count st \<longrightarrow> lease_ip (leases st i) = lease_ip (leases st j) \<longrightarrow> i = j) \<and>
    (\<forall>i j. i < pool_count st \<longrightarrow> j < pool_count st \<longrightarrow> lease_active (leases st i) \<longrightarrow> lease_active (leases st j) \<longrightarrow>
       lease_mac (leases st i) = lease_mac (leases st j) \<longrightarrow> i = j)"
  using dhcp_run_inv [OF assms dhcp_new_inv, of ops ip cfg hw]
  by (auto simp: dhcp_inv_def inj_on_def)

section \<open>Leases are kept\<close>

lemma find_keeps:
  assumes "find_or_assign_lease mac st w = (ip, st', w')" "i < pool_count st" "lease_active (leases st i)"
    and "clock w (clock_reads w) \<le> lease_expiry (leases st i)"
  shows "leases st' i = leases st i" "pool_count st' = pool_count st"
  using assms(1) by (cases rule: find_or_assign_cases; use assms(2-) in auto)+

lemma react_keeps:
  assumes "dhcp_react t req mac st w = (st', w', r)" "dhcp_inv st" "i < pool_count st" "lease_active (leases st i)"
    and "clock w (clock_reads w) \<le> lease_expiry (leases st i)"
  shows "lease_mac (leases st' i) = lease_mac (leases st i) \<and> lease_ip (leases st' i) = lease_ip (leases st i) \<and>
    lease_active (leases st' i)"
proof -
  obtain ip st1 w1 where f: "find_or_assign_lease mac st w = (ip, st1, w1)" by (metis surj_pair)
  obtain st2 w2 where c: "commit_lease ip st1 w1 = (st2, w2)" by fastforce
  note keep = find_keeps [OF f assms(3-5)] commit_after_find(2-4) [OF f c assms(2), of i]
  show ?thesis
    using assms(1,3,4) keep unfolding dhcp_react_def f Let_def prod.case c by (auto split: if_splits)
qed

text \<open>C20: A lease is safe while it runs: as long as the expiry of an active lease has not passed, no
  message, from whichever client, takes the address away from its holder.\<close>

theorem dhcp_lease_protected:
  assumes "sends_return w" "handle_dhcp_request msg fd st w = Some (st', w')" "dhcp_inv st"
    and "i < pool_count st" "lease_active (leases st i)" "clock w (clock_reads w) \<le> lease_expiry (leases st i)"
  shows "lease_active (leases st' i) \<and> lease_mac (leases st' i) = lease_mac (leases st i) \<and>
    lease_ip (leases st' i) = lease_ip (leases st i)"
proof -
  have "case dhcp_query msg of None \<Rightarrow> st' = st | Some (dhcp, t, req, mac) \<Rightarrow> st' = fst (dhcp_react t req mac st w)"
    using handle_returns [OF assms(1), of msg fd st] assms(2) by auto
  then show ?thesis
    using react_keeps [OF _ assms(3-6)] assms(5)
    by (auto split: option.splits) (metis surj_pair fst_conv)+
qed


section \<open>The handshake\<close>

text \<open>The interface takes every frame, though calls may be interrupted.\<close>

definition accepts_all :: "World \<Rightarrow> bool" where
  "accepts_all w \<longleftrightarrow> (\<forall>k s. send_answer w k s = Errno EINTR \<or> send_answer w k s = Sent s)"

lemma send_best_effort_delivers:
  assumes "sends_return w" "accepts_all w"
  shows "\<exists>k. send_best_effort fd pkt c p w = Some (w\<lparr>sends := k, wire := wire w @ [(fd, pkt)]\<rparr>)"
proof -
  let ?k = "sends w + interrupts w (length pkt)"
  have "send_answer w ?k (length pkt) = Sent (length pkt)"
    using assms(2) answer_after_interrupts(1) [OF assms(1)] unfolding accepts_all_def by metis
  then show ?thesis
    by (intro exI [of _ "Suc ?k"]) (simp add: send_best_effort_def try_send_returns [OF assms(1)] try_result_def Let_def)
qed

lemma handle_replies:
  assumes "sends_return w" "accepts_all w" "dhcp_query msg = Some (d, t, req, mac)"
    and "dhcp_react t req mac st w = (st', w1, Some (rt, yi))"
  shows "\<exists>w'. handle_dhcp_request msg fd st w = Some (st', w') \<and> same_kernel w w' \<and> clock_reads w' = clock_reads w1 \<and>
    wire w' = wire w @ [(fd, build_response (dm_data msg) d st' rt yi)]"
proof -
  obtain k where w1: "w1 = w\<lparr>clock_reads := k\<rparr>" using dhcp_react_world [OF assms(4)] by blast
  have "sends_return w1" "accepts_all w1" using assms(1,2) by (simp_all add: w1 sends_return_def accepts_all_def)
  from send_best_effort_delivers [OF this, of fd "build_response (dm_data msg) d st' rt yi" 2 0]
  show ?thesis using assms(3,4) by (auto simp: handle_dhcp_request_stages send_response_def w1 same_kernel_def)
qed

text \<open>An address for the client: its own, or one that is free or has run out.\<close>

definition address_available :: "bytes \<Rightarrow> DhcpEngine \<Rightarrow> int \<Rightarrow> bool" where
  "address_available mac st now \<longleftrightarrow>
     (\<exists>i < pool_count st. \<not> lease_active (leases st i) \<or> now > lease_expiry (leases st i) \<or> lease_mac (leases st i) = mac)"

lemma find_available:
  assumes "find_or_assign_lease mac st w = (ip, st', w')" "address_available mac st (clock w (clock_reads w))"
  obtains i where "i < pool_count st'" "lease_active (leases st' i)" "lease_mac (leases st' i) = mac"
    "lease_ip (leases st' i) = ip" "lease_ip (leases st i) = ip" "pool_count st' = pool_count st"
    "lease_duration st' = lease_duration st"
  using assms(1)
proof (cases rule: find_or_assign_cases)
  case (known i)
  then show thesis by (intro that [of i]) auto
next
  case (fresh i)
  then show thesis by (intro that [of i]) auto
next
  case full
  then show thesis using assms(2) by (force simp: address_available_def)
qed

text \<open>A client that holds an address is given the same one again.\<close>

lemma find_known:
  assumes "dhcp_inv st" "i < pool_count st" "lease_active (leases st i)" "lease_mac (leases st i) = mac"
  shows "find_or_assign_lease mac st w = (lease_ip (leases st i), st, w\<lparr>clock_reads := Suc (clock_reads w)\<rparr>)"
proof -
  obtain ip st' w' where f: "find_or_assign_lease mac st w = (ip, st', w')" by (metis surj_pair)
  from f have "ip = lease_ip (leases st i) \<and> st' = st"
  proof (cases rule: find_or_assign_cases)
    case (known j)
    then have "j = i" using assms by (auto simp: dhcp_inv_def inj_on_def)
    then show ?thesis using known by simp
  qed (use assms in auto)
  then show ?thesis using f find_or_assign_world [OF f] by simp
qed

lemma commit_known:
  assumes "dhcp_inv st" "i < pool_count st"
  shows "commit_lease (lease_ip (leases st i)) st w =
    (st\<lparr>leases := (leases st)(i := (leases st i)\<lparr>lease_active := True,
       lease_expiry := clock w (clock_reads w) + lease_duration st * 1000000000\<rparr>)\<rparr>, w\<lparr>clock_reads := Suc (clock_reads w)\<rparr>)"
proof -
  obtain st' w' where c: "commit_lease (lease_ip (leases st i)) st w = (st', w')" by fastforce
  from c show ?thesis
  proof (cases rule: commit_cases)
    case none
    then show ?thesis using assms(2) by blast
  next
    case (some j)
    then have "j = i" using assms by (auto simp: dhcp_inv_def inj_on_def)
    then show ?thesis using some c by simp
  qed
qed

text \<open>A client that asks for the address it holds gets an ACK and a new expiry.\<close>

lemma request_known:
  assumes "sends_return w" "accepts_all w" "dhcp_inv st"
    and "i < pool_count st" "lease_active (leases st i)" "lease_mac (leases st i) = mac" "lease_ip (leases st i) = ip"
    and "dhcp_query msg = Some (d, 3, ip, mac)"
  shows "\<exists>st' w'. handle_dhcp_request msg fd st w = Some (st', w') \<and>
    wire w' = wire w @ [(fd, build_response (dm_data msg) d st' 5 ip)] \<and>
    (\<exists>i < pool_count st'. leases st' i = \<lparr>lease_mac = mac, lease_ip = ip, lease_active = True,
       lease_expiry = clock w (clock_reads w + 1) + lease_duration st * 1000000000\<rparr>)"
proof -
  let ?L = "(leases st i)\<lparr>lease_active := True, lease_expiry := clock w (Suc (clock_reads w)) + lease_duration st * 1000000000\<rparr>"
  let ?st' = "st\<lparr>leases := (leases st)(i := ?L)\<rparr>"
  have "dhcp_react 3 ip mac st w = (?st', w\<lparr>clock_reads := Suc (Suc (clock_reads w))\<rparr>, Some (5, ip))"
    using find_known [OF assms(3-6)] commit_known [OF assms(3,4)] assms(7) by (simp add: dhcp_react_def)
  from handle_replies [OF assms(1,2,8) this, of fd] obtain w' where
    "handle_dhcp_request msg fd st w = Some (?st', w')"
    "wire w' = wire w @ [(fd, build_response (dm_data msg) d ?st' 5 ip)]" by blast
  moreover have "i < pool_count ?st'" "leases ?st' i = \<lparr>lease_mac = mac, lease_ip = ip, lease_active = True,
      lease_expiry = clock w (clock_reads w + 1) + lease_duration st * 1000000000\<rparr>"
    using assms(4-7) by simp_all
  ultimately show ?thesis by blast
qed

text \<open>C11: The handshake works.  When the pool has an address for a client, its DISCOVER is answered by an
  OFFER of some address of the pool, and a REQUEST of that client for the offered address is answered by an
  ACK, after which the client holds the address for the lease duration from the time of the ACK.\<close>

theorem dhcp_handshake:
  assumes "sends_return w" "accepts_all w" "dhcp_inv st" "\<forall>i < pool_count st. lease_ip (leases st i) \<noteq> 0"
    and "address_available mac st (clock w (clock_reads w))" "dhcp_query m1 = Some (d1, 1, r1, mac)"
  shows "\<exists>ip st1 w1. handle_dhcp_request m1 fd st w = Some (st1, w1) \<and> (\<exists>i < pool_count st. lease_ip (leases st i) = ip) \<and>
    wire w1 = wire w @ [(fd, build_response (dm_data m1) d1 st1 2 ip)] \<and>
    (\<forall>m2 d2. dhcp_query m2 = Some (d2, 3, ip, mac) \<longrightarrow>
       (\<exists>st2 w2. handle_dhcp_request m2 fd st1 w1 = Some (st2, w2) \<and>
          wire w2 = wire w1 @ [(fd, build_response (dm_data m2) d2 st2 5 ip)] \<and>
          (\<exists>i < pool_count st2. leases st2 i = \<lparr>lease_mac = mac, lease_ip = ip, lease_active = True,
             lease_expiry = clock w (clock_reads w + 2) + lease_duration st * 1000000000\<rparr>)))"
proof -
  obtain ip st1 w1 where f: "find_or_assign_lease mac st w = (ip, st1, w1)" by (metis surj_pair)
  have inv1: "dhcp_inv st1" using find_or_assign_inv [OF f assms(3)] .
  obtain i where i: "i < pool_count st1" "lease_active (leases st1 i)" "lease_mac (leases st1 i) = mac"
    "lease_ip (leases st1 i) = ip" "lease_ip (leases st i) = ip" "pool_count st1 = pool_count st"
    "lease_duration st1 = lease_duration st"
    using find_available [OF f assms(5)] .
  have "ip \<noteq> 0" using assms(4) i by auto
  then have "dhcp_react 1 r1 mac st w = (st1, w1, Some (2, ip))" by (simp add: dhcp_react_def f)
  from handle_replies [OF assms(1,2,6) this] obtain w1' where
    h1: "handle_dhcp_request m1 fd st w = Some (st1, w1')" "same_kernel w w1'" "clock_reads w1' = Suc (clock_reads w)"
      "wire w1' = wire w @ [(fd, build_response (dm_data m1) d1 st1 2 ip)]"
    using find_or_assign_world [OF f] by auto
  have k: "sends_return w1'" "accepts_all w1'" "clock w1' = clock w"
    using h1(2) assms(1,2) by (simp_all add: same_kernel_def sends_return_def accepts_all_def)
  have "\<exists>st2 w2. handle_dhcp_request m2 fd st1 w1' = Some (st2, w2) \<and>
      wire w2 = wire w1' @ [(fd, build_response (dm_data m2) d2 st2 5 ip)] \<and>
      (\<exists>i < pool_count st2. leases st2 i = \<lparr>lease_mac = mac, lease_ip = ip, lease_active = True,
         lease_expiry = clock w (clock_reads w + 2) + lease_duration st * 1000000000\<rparr>)"
    if "dhcp_query m2 = Some (d2, 3, ip, mac)" for m2 d2
    using request_known [OF k(1,2) inv1 i(1-4) that, of fd] i(7) h1(3) k(3) by simp
  then show ?thesis using h1(1,4) i(1,5,6) by auto
qed

text \<open>Setting up the pool gives it exactly the addresses from the first to the last of the range, at
  most 253 of them and all free, and a range that ends before it starts is refused without a change.\<close>

theorem init_pool_range:
  assumes "init_pool start_ip end_ip st = (st', err)"
  shows "if unat (to_host end_ip) < unat (to_host start_ip) then err \<noteq> None \<and> st' = st
    else err = None \<and> pool_count st' = min (unat (to_host end_ip) - unat (to_host start_ip) + 1) MAX_POOL_SIZE \<and>
      (\<forall>i < pool_count st'. unat (to_host (lease_ip (leases st' i))) = unat (to_host start_ip) + i \<and>
         \<not> lease_active (leases st' i))"
  using assms by (cases rule: init_pool_cases) (auto simp: MAX_POOL_SIZE_def)

section \<open>Sample traffic\<close>

text \<open>A client's message: the type and the requested address are the options.\<close>

definition demo_message :: "u8 \<Rightarrow> bytes \<Rightarrow> DhcpMessage" where
  "demo_message t ip = \<lparr>dm_len = 292, dm_data =
     replicate 12 0 @ [8, 0] @ [0x45] @ replicate 8 0 @ [17] @ replicate 10 0 @ [0, 68, 0, 67, 1, 2, 0, 0] @
     [1, 1, 6, 0] @ replicate 24 0 @ [2, 0, 0, 0, 0, 9] @ replicate 202 0 @ [0x63, 0x82, 0x53, 0x63] @
     [53, 1, t, 50, 4] @ ip @ [255] @ replicate 220 0\<rparr>"


lemma demo_query:
  assumes "length ip = 4"
  shows "dhcp_query (demo_message t ip) = Some (42, t, if t = 3 \<and> ld32 ip 0 = 0 then 0 else ld32 ip 0, [2, 0, 0, 0, 0, 9])"
proof -
  let ?m = "demo_message t ip"
  obtain a b c d where ip: "ip = [a, b, c, d]"
    using assms by (auto simp: length_Suc_conv numeral_eq_Suc)
  have "opt_loop (dm_data ?m) 292 282 0 0 = (t, ld32 ip 0)"
    by (simp add: opt_loop.simps [of _ 292 282] opt_loop.simps [of _ 292 285] opt_loop.simps [of _ 292 291]
        demo_message_def nth_append ld32_def ld16_def ip)
  then show ?thesis
    by (simp add: dhcp_query_def Let_def demo_message_def nth_append ld32_def ld16_def ipv4_frame_def frame_l4_off_def word_eval ip)
qed

lemma demo_server_pool:
  "pool_count demo_server = 2" "leases demo_server 0 = empty_lease\<lparr>lease_ip := 0x0201A8C0\<rparr>"
  "leases demo_server 1 = empty_lease\<lparr>lease_ip := 0x0301A8C0\<rparr>" "lease_duration demo_server = 3600"
  by (simp_all add: demo_server_def DhcpEngine_new_def init_pool_def MAX_POOL_SIZE_def to_host_def pool_advance_def
      to_net_def word_eval upt_conv_Cons empty_lease_def)

lemma demo_server_inv: "dhcp_inv demo_server"
  unfolding demo_server_def by (rule dhcp_new_inv)

lemma demo_world_accepts: "accepts_all demo_world"
  by (simp add: accepts_all_def demo_world_def)

theorem dhcp_reachable_inv_witness:
  "\<exists>st w'. dhcp_run [Intercept (parse (dm_data (demo_message 1 [0, 0, 0, 0]))), Background 7] (demo_server, demo_world) = Some (st, w') \<and>
    pool_count st \<le> MAX_POOL_SIZE"
  using dhcp_reachable_inv [OF demo_world_ok(1),
      of "[Intercept (parse (dm_data (demo_message 1 [0, 0, 0, 0]))), Background 7]"] unfolding demo_server_def by blast

text \<open>The engine after a DISCOVER of the sample client.\<close>

definition demo_held :: DhcpEngine where
  "demo_held = fst (snd (find_or_assign_lease [2, 0, 0, 0, 0, 9] demo_server demo_world))"

lemma demo_held:
  "dhcp_inv demo_held" "pool_count demo_held = 2"
  "leases demo_held 0 = \<lparr>lease_mac = [2, 0, 0, 0, 0, 9], lease_ip = 0x0201A8C0, lease_active = True, lease_expiry = 3600000000000\<rparr>"
proof -
  show "dhcp_inv demo_held"
    using find_or_assign_inv demo_server_inv unfolding demo_held_def by (metis surj_pair fst_conv snd_conv)
  show "pool_count demo_held = 2"
    "leases demo_held 0 = \<lparr>lease_mac = [2, 0, 0, 0, 0, 9], lease_ip = 0x0201A8C0, lease_active = True, lease_expiry = 3600000000000\<rparr>"
    unfolding demo_held_def
    by (simp_all add: find_or_assign_lease_def steady_now_def demo_server_pool demo_server_pool(3) [unfolded One_nat_def] upt_conv_Cons demo_world_def empty_lease_def)
qed

theorem dhcp_lease_protected_witness:
  "\<exists>st' w'. handle_dhcp_request (demo_message 3 [192, 168, 1, 2]) 7 demo_held demo_world = Some (st', w') \<and>
     lease_active (leases st' 0) \<and> lease_mac (leases st' 0) = [2, 0, 0, 0, 0, 9] \<and> lease_ip (leases st' 0) = 0x0201A8C0"
proof -
  obtain st' w' where h: "handle_dhcp_request (demo_message 3 [192, 168, 1, 2]) 7 demo_held demo_world = Some (st', w')"
    using handle_returns [OF demo_world_ok(1)] by blast
  have "clock demo_world (clock_reads demo_world) \<le> lease_expiry (leases demo_held 0)" by (simp add: demo_held demo_world_def)
  from dhcp_lease_protected [OF demo_world_ok(1) h demo_held(1) _ _ this] h show ?thesis
    by (simp add: demo_held)
qed

theorem dhcp_handshake_witness:
  "\<exists>ip st1 w1. handle_dhcp_request (demo_message 1 [0, 0, 0, 0]) 7 demo_server demo_world = Some (st1, w1) \<and>
    wire w1 = [(7, build_response (dm_data (demo_message 1 [0, 0, 0, 0])) 42 st1 2 ip)]"
proof -
  have "lease_ip (leases demo_server i) \<noteq> 0" if "i < pool_count demo_server" for i
  proof -
    have "i = 0 \<or> i = 1" using that by (simp add: demo_server_pool less_2_cases_iff)
    then show ?thesis by (elim disjE) (simp_all add: demo_server_pool del: One_nat_def)
  qed
  moreover have "address_available [2, 0, 0, 0, 0, 9] demo_server (clock demo_world (clock_reads demo_world))"
    unfolding address_available_def by (intro exI [of _ 0]) (simp add: demo_server_pool empty_lease_def)
  moreover have "dhcp_query (demo_message 1 [0, 0, 0, 0]) = Some (42, 1, 0, [2, 0, 0, 0, 0, 9])"
    by (simp add: demo_query ld32_def ld16_def word_eval)
  ultimately show ?thesis
    using dhcp_handshake [OF demo_world_ok(1) demo_world_accepts demo_server_inv, of "[2, 0, 0, 0, 0, 9]"
        "demo_message 1 [0, 0, 0, 0]" 42 0 7]
    by (auto simp: demo_world_def)
qed

theorem init_pool_range_witness:
  "pool_count (fst (init_pool 0x0201A8C0 0x0301A8C0 demo_server)) = 2"
  using init_pool_range [of "0x0201A8C0" "0x0301A8C0" demo_server, OF prod.collapse [symmetric]]
  by (simp add: to_host_def word_eval MAX_POOL_SIZE_def)

end
