(* ===== verification/Forward_Correct.thy ===== *)
theory Forward_Correct
  imports ForwardEngine Nat_Correct Dhcp_Correct
begin

text \<open>
  What the packet pipeline does: the disposition of every frame, the interception of DHCP, the telemetry of a
  run of frames, the next hops written into forwarded frames, and a flow that goes out through the upstream
  worker and comes back through the downstream one.
\<close>

section \<open>A consumer of the application\<close>

definition consumer_ok :: "PacketConsumer \<Rightarrow> bool" where
  "consumer_ok c \<longleftrightarrow> (core_id c = 2 \<or> core_id c = 3) \<and> pipeline c = pipeline_for (core_id c) \<and> routes c = route_table \<and>
     callbacks c = app_events \<and> ctx c = \<lparr>rc_tx_fd = tx_fd c, rc_shaper = Some (nat (core_id c) - 2)\<rparr> \<and>
     nat_engine c \<and> dhcp_engine c"

lemma consumer_ok_new:
  "consumer_ok (PacketConsumer_new rx (downstream_config fd app_events))"
  "consumer_ok (PacketConsumer_new rx (upstream_config fd app_events))"
  by (simp_all add: consumer_ok_def PacketConsumer_new_def downstream_config_def upstream_config_def)

lemma consumer_ok_stats [simp]: "consumer_ok (c\<lparr>stats := st\<rparr>) = consumer_ok c"
  by (simp add: consumer_ok_def)

section \<open>The steps before routing\<close>

text \<open>What happens to a packet before it is classified: whether a step has consumed it, the packet and the
  shared state.\<close>

definition prepare :: "PacketConsumer \<Rightarrow> ParsedPacket \<Rightarrow> Shared \<Rightarrow> bool \<times> ParsedPacket \<times> Shared" where
  "prepare c pkt s =
     (case step_dhcp_interceptor c pkt s of (h, _, pkt, s) \<Rightarrow>
        if h then (True, pkt, s)
        else case step_nat_downstream c pkt s of (_, _, pkt, s) \<Rightarrow>
          if core_id c = 2 then
            case step_eth_rewrite_wan_to_lan c pkt s of (h, _, pkt, s) \<Rightarrow> (h, pkt, s)
          else case step_nat_upstream c pkt s of (_, _, pkt, s) \<Rightarrow>
            case step_eth_rewrite_lan_to_wan c pkt s of (h, _, pkt, s) \<Rightarrow> (h, pkt, s))"

lemma step_consumer:
  "step_dhcp_interceptor c pkt s = (h, c', pkt', s') \<Longrightarrow> c' = c"
  "step_nat_downstream c pkt s = (h, c', pkt', s') \<Longrightarrow> c' = c \<and> \<not> h"
  "step_nat_upstream c pkt s = (h, c', pkt', s') \<Longrightarrow> c' = c \<and> \<not> h"
  "step_eth_rewrite_lan_to_wan c pkt s = (h, c', pkt', s') \<Longrightarrow> c' = c"
  "step_eth_rewrite_wan_to_lan c pkt s = (h, c', pkt', s') \<Longrightarrow> c' = c"
  by (auto simp: step_dhcp_interceptor_def step_nat_downstream_def step_nat_upstream_def step_eth_rewrite_lan_to_wan_def
      step_eth_rewrite_wan_to_lan_def Let_def split: if_splits option.splits prod.splits)

definition route_of :: "PacketConsumer \<Rightarrow> ParsedPacket \<Rightarrow> Shared \<Rightarrow> Shared option" where
  "route_of c pkt s =
     (let prio = process (LARGE_PACKET_THRESHOLD_BYTES (sh_cfg s)) pkt;
          s = s\<lparr>sh_world := dispatch_packet (callbacks c) pkt prio (sh_world s)\<rparr>
      in routes c (if effective_bridge_mode (tel (sh_world s)) then 1 else 0) (prio_index prio) (ctx c) (raw_span pkt)
           (prio_index prio) (core_id c) s)"

abbreviation counted :: "PacketConsumer \<Rightarrow> ParsedPacket \<Rightarrow> Shared \<Rightarrow> PacketConsumer" where
  "counted c pkt s \<equiv> c\<lparr>stats := count_packet (prio_index (process (LARGE_PACKET_THRESHOLD_BYTES (sh_cfg s)) pkt))
     (length (raw_span pkt)) (stats c)\<rparr>"

lemma step_qos_routing_eq:
  "step_qos_routing c pkt s = map_option (\<lambda>s'. (True, counted c pkt s, pkt, s')) (route_of c pkt s)"
proof -
  have "Option.bind x (\<lambda>s. Some (f s)) = map_option f x" for x :: "Shared option" and f :: "Shared \<Rightarrow> step_result"
    by (cases x) simp_all
  then show ?thesis by (simp add: step_qos_routing_def route_of_def Let_def)
qed

lemma run_pipeline_prepare:
  assumes "consumer_ok c"
  shows "run_pipeline (pipeline c) c pkt s =
    (case prepare c pkt s of (h, pkt, s) \<Rightarrow>
       if h then Some (c, s) else map_option (\<lambda>s'. (counted c pkt s, s')) (route_of c pkt s))"
proof -
  obtain h1 c1 p1 s1 where 1: "step_dhcp_interceptor c pkt s = (h1, c1, p1, s1)" by (rule prod_cases4)
  obtain h2 c2 p2 s2 where 2: "step_nat_downstream c p1 s1 = (h2, c2, p2, s2)" by (rule prod_cases4)
  obtain h3 c3 p3 s3 where 3: "step_eth_rewrite_wan_to_lan c p2 s2 = (h3, c3, p3, s3)" by (rule prod_cases4)
  obtain h4 c4 p4 s4 where 4: "step_nat_upstream c p2 s2 = (h4, c4, p4, s4)" by (rule prod_cases4)
  obtain h5 c5 p5 s5 where 5: "step_eth_rewrite_lan_to_wan c p4 s4 = (h5, c5, p5, s5)" by (rule prod_cases4)
  note eqs = step_consumer(1) [OF 1] step_consumer(2) [OF 2] step_consumer(5) [OF 3] step_consumer(3) [OF 4] step_consumer(4) [OF 5]
  show ?thesis
  proof (cases "core_id c = 2")
    case True
    then have p: "pipeline c = pipeline_for 2" using assms by (simp add: consumer_ok_def)
    show ?thesis unfolding p using True 1 2 3 eqs
      by (cases "route_of c p3 s3") (simp_all add: pipeline_for_def prepare_def step_qos_routing_eq)
  next
    case False
    then have p: "pipeline c = pipeline_for 3" using assms by (auto simp: consumer_ok_def)
    show ?thesis unfolding p using False 1 2 4 5 eqs
      by (cases "route_of c p5 s5") (simp_all add: pipeline_for_def prepare_def step_qos_routing_eq)
  qed
qed


lemma process_inbound_icmp_length: "length (raw_span (snd (snd (process_inbound_icmp st pkt)))) = length (raw_span pkt)"
  unfolding process_inbound_icmp_def by (auto simp: Let_def split: option.split if_split resolution.split prod.split)

lemma process_inbound_length: "length (raw_span (snd (snd (process_inbound st pkt)))) = length (raw_span pkt)"
  unfolding process_inbound_def
  by (auto simp: Let_def process_inbound_icmp_length split: option.split if_split resolution.split prod.split)

lemma process_outbound_icmp_length: "length (raw_span (snd (snd (process_outbound_icmp st pkt)))) = length (raw_span pkt)"
  unfolding process_outbound_icmp_def by (auto simp: Let_def split: option.split if_split prod.split)

lemma process_outbound_length: "length (raw_span (snd (snd (process_outbound st pkt)))) = length (raw_span pkt)"
  unfolding process_outbound_def
  by (auto simp: Let_def process_outbound_icmp_length split: option.split if_split prod.split)

text \<open>The steps before routing touch neither the sockets and counters nor the shapers, and keep the length of
  the frame.\<close>

lemma step_frame:
  "step_dhcp_interceptor c pkt s = (h, c', pkt', s') \<Longrightarrow>
     sh_world s' = sh_world s \<and> sh_shapers s' = sh_shapers s \<and> sh_cfg s' = sh_cfg s \<and> sh_plane s' = sh_plane s \<and> pkt' = pkt"
  "step_nat_downstream c pkt s = (h, c', pkt', s') \<Longrightarrow>
     sh_world s' = sh_world s \<and> sh_shapers s' = sh_shapers s \<and> sh_cfg s' = sh_cfg s \<and> sh_plane s' = sh_plane s \<and>
     length (raw_span pkt') = length (raw_span pkt)"
  "step_nat_upstream c pkt s = (h, c', pkt', s') \<Longrightarrow>
     sh_world s' = sh_world s \<and> sh_shapers s' = sh_shapers s \<and> sh_cfg s' = sh_cfg s \<and> sh_plane s' = sh_plane s \<and>
     length (raw_span pkt') = length (raw_span pkt)"
  "step_eth_rewrite_lan_to_wan c pkt s = (h, c', pkt', s') \<Longrightarrow> s' = s \<and> length (raw_span pkt') = length (raw_span pkt)"
  "step_eth_rewrite_wan_to_lan c pkt s = (h, c', pkt', s') \<Longrightarrow> s' = s \<and> length (raw_span pkt') = length (raw_span pkt)"
proof -
  show "step_dhcp_interceptor c pkt s = (h, c', pkt', s') \<Longrightarrow>
     sh_world s' = sh_world s \<and> sh_shapers s' = sh_shapers s \<and> sh_cfg s' = sh_cfg s \<and> sh_plane s' = sh_plane s \<and> pkt' = pkt"
    by (auto simp: step_dhcp_interceptor_def Let_def split: if_splits option.splits)
  show "step_nat_downstream c pkt s = (h, c', pkt', s') \<Longrightarrow>
     sh_world s' = sh_world s \<and> sh_shapers s' = sh_shapers s \<and> sh_cfg s' = sh_cfg s \<and> sh_plane s' = sh_plane s \<and>
     length (raw_span pkt') = length (raw_span pkt)"
    using process_inbound_length [of "sh_nat s" pkt] by (auto simp: step_nat_downstream_def split: if_splits prod.splits)
  show "step_nat_upstream c pkt s = (h, c', pkt', s') \<Longrightarrow>
     sh_world s' = sh_world s \<and> sh_shapers s' = sh_shapers s \<and> sh_cfg s' = sh_cfg s \<and> sh_plane s' = sh_plane s \<and>
     length (raw_span pkt') = length (raw_span pkt)"
    using process_outbound_length [of "sh_nat s" pkt] by (auto simp: step_nat_upstream_def split: if_splits prod.splits)
  show "step_eth_rewrite_lan_to_wan c pkt s = (h, c', pkt', s') \<Longrightarrow> s' = s \<and> length (raw_span pkt') = length (raw_span pkt)"
    by (auto simp: step_eth_rewrite_lan_to_wan_def Let_def split: if_splits option.splits)
  show "step_eth_rewrite_wan_to_lan c pkt s = (h, c', pkt', s') \<Longrightarrow> s' = s \<and> length (raw_span pkt') = length (raw_span pkt)"
    by (auto simp: step_eth_rewrite_wan_to_lan_def Let_def split: if_splits option.splits)
qed

lemma prepare_frame:
  assumes "prepare c pkt s = (h, pkt', s')"
  shows "sh_world s' = sh_world s" "sh_shapers s' = sh_shapers s" "sh_cfg s' = sh_cfg s" "sh_plane s' = sh_plane s"
    "length (raw_span pkt') = length (raw_span pkt)"
proof -
  obtain h1 c1 p1 s1 where 1: "step_dhcp_interceptor c pkt s = (h1, c1, p1, s1)" by (rule prod_cases4)
  obtain h2 c2 p2 s2 where 2: "step_nat_downstream c p1 s1 = (h2, c2, p2, s2)" by (rule prod_cases4)
  obtain h3 c3 p3 s3 where 3: "step_eth_rewrite_wan_to_lan c p2 s2 = (h3, c3, p3, s3)" by (rule prod_cases4)
  obtain h4 c4 p4 s4 where 4: "step_nat_upstream c p2 s2 = (h4, c4, p4, s4)" by (rule prod_cases4)
  obtain h5 c5 p5 s5 where 5: "step_eth_rewrite_lan_to_wan c p4 s4 = (h5, c5, p5, s5)" by (rule prod_cases4)
  note eqs = step_frame(1) [OF 1] step_frame(2) [OF 2] step_frame(5) [OF 3] step_frame(3) [OF 4] step_frame(4) [OF 5]
  have p: "prepare c pkt s = (if h1 then (True, p1, s1) else if core_id c = 2 then (h3, p3, s3) else (h5, p5, s5))"
    by (simp add: prepare_def 1 2 3 4 5)
  show "sh_world s' = sh_world s" "sh_shapers s' = sh_shapers s" "sh_cfg s' = sh_cfg s" "sh_plane s' = sh_plane s"
    "length (raw_span pkt') = length (raw_span pkt)"
    using assms eqs unfolding p by (auto split: if_splits)
qed

section \<open>What becomes of a frame\<close>

datatype disposition = Consumed | Forwarded Priority bytes

definition disposition :: "PacketConsumer \<Rightarrow> bytes \<Rightarrow> Shared \<Rightarrow> disposition" where
  "disposition c fr s =
     (case prepare c (parse fr) s of (h, pkt, s') \<Rightarrow>
        if h then Consumed
        else Forwarded (process (LARGE_PACKET_THRESHOLD_BYTES (sh_cfg s)) pkt) (raw_span pkt))"

text \<open>The effect of routing one frame.\<close>

definition routed :: "PacketConsumer \<Rightarrow> Priority \<Rightarrow> bytes \<Rightarrow> Shared \<Rightarrow> Shared \<Rightarrow> bool" where
  "routed c prio fr s s' \<longleftrightarrow>
     (if effective_bridge_mode (tel (sh_world s)) \<or> prio = High
      then sh_shapers s' = sh_shapers s \<and>
        (wire (sh_world s') = wire (sh_world s) @ [(tx_fd c, fr)] \<and> tel (sh_world s') = tel (sh_world s) \<or>
         wire (sh_world s') = wire (sh_world s) \<and>
         tel (sh_world s') = count_drop (nat (core_id c)) (prio_index prio) (tel (sh_world s)))
      else let i = nat (core_id c) - 2; e = enqueue_normal fr (sh_shapers s i) (sh_world s) in
        sh_shapers s' = (sh_shapers s)(i := fst e) \<and> sh_world s' = snd e)"

lemma enqueue_same_kernel: "same_kernel w (snd (enqueue_normal fr sh w))"
  by (auto simp: enqueue_normal_def Let_def same_kernel_def split: prod.split)

lemma send_best_effort_result:
  assumes "sends_return w" "atomic_sends w"
  obtains w' where "send_best_effort fd pkt core prio w = Some w'" "same_kernel w w'"
    "wire w' = wire w @ [(fd, pkt)] \<and> tel w' = tel w \<or> wire w' = wire w \<and> tel w' = count_drop core prio (tel w)"
proof -
  obtain r w1 where t: "try_result fd pkt w = (r, w1)" by fastforce
  have w1: "same_kernel w w1" "tel w1 = tel w" "wire w1 = wire w @ (if r = Complete then [(fd, pkt)] else [])"
    using same_kernel_try_result [of w fd pkt] try_result_world(1) [of fd pkt w] try_result_wire [OF assms(2), of fd pkt]
    by (simp_all add: t)
  show thesis
    using w1 that [of "if r \<noteq> Complete then w1\<lparr>tel := count_drop core prio (tel w1)\<rparr> else w1"]
    by (auto simp: send_best_effort_def try_send_returns [OF assms(1)] t same_kernel_def split: if_splits)
qed

lemma route_of_routed:
  assumes "consumer_ok c" "sends_return (sh_world s)" "atomic_sends (sh_world s)"
  obtains s' where "route_of c pkt s = Some s'" "same_kernel (sh_world s) (sh_world s')" "sh_cfg s' = sh_cfg s"
    "sh_plane s' = sh_plane s" "sh_nat s' = sh_nat s" "sh_dhcp s' = sh_dhcp s"
    "routed c (process (LARGE_PACKET_THRESHOLD_BYTES (sh_cfg s)) pkt) (raw_span pkt) s s'"
proof -
  let ?p = "process (LARGE_PACKET_THRESHOLD_BYTES (sh_cfg s)) pkt"
  have ok: "routes c = route_table" "callbacks c = app_events" "rc_tx_fd (ctx c) = tx_fd c" "rc_shaper (ctx c) = Some (nat (core_id c) - 2)"
    using assms(1) by (auto simp: consumer_ok_def)
  show thesis
  proof (cases "effective_bridge_mode (tel (sh_world s)) \<or> ?p = High")
    case True
    obtain w' where w': "send_best_effort (tx_fd c) (raw_span pkt) (nat (core_id c)) (prio_index ?p) (sh_world s) = Some w'"
      "same_kernel (sh_world s) w'"
      "wire w' = wire (sh_world s) @ [(tx_fd c, raw_span pkt)] \<and> tel w' = tel (sh_world s) \<or>
       wire w' = wire (sh_world s) \<and> tel w' = count_drop (nat (core_id c)) (prio_index ?p) (tel (sh_world s))"
      using send_best_effort_result [OF assms(2,3)] by blast
    have "route_of c pkt s = Some (s\<lparr>sh_world := w'\<rparr>)"
      using True w'(1) by (cases ?p) (auto simp: route_of_def Let_def ok route_table_def fast_path_handler_def)
    then show thesis using w' True by (intro that [of "s\<lparr>sh_world := w'\<rparr>"]) (auto simp: routed_def)
  next
    case False
    let ?i = "nat (core_id c) - 2"
    let ?e = "enqueue_normal (raw_span pkt) (sh_shapers s ?i) (sh_world s)"
    have n: "?p = Normal" using False by (cases ?p) auto
    have "route_of c pkt s = Some (s\<lparr>sh_shapers := (sh_shapers s)(?i := fst ?e), sh_world := snd ?e\<rparr>)"
      using False n by (simp add: route_of_def Let_def ok route_table_def shaper_handler_def case_prod_unfold)
    then show thesis using False enqueue_same_kernel
      by (intro that [of "s\<lparr>sh_shapers := (sh_shapers s)(?i := fst ?e), sh_world := snd ?e\<rparr>"]) (auto simp: routed_def Let_def)
  qed
qed


lemma routed_cong: "sh_world s1 = sh_world s2 \<Longrightarrow> sh_shapers s1 = sh_shapers s2 \<Longrightarrow> routed c p fr s1 s' = routed c p fr s2 s'"
  by (simp add: routed_def Let_def)

lemma process_frame_result:
  assumes "consumer_ok c" "sends_return (sh_world s)" "atomic_sends (sh_world s)"
  obtains (consumed) s1 where "disposition c fr s = Consumed" "process_frame c fr s = Some (commit_stats c s1)"
      "sh_world s1 = sh_world s" "sh_shapers s1 = sh_shapers s" "sh_cfg s1 = sh_cfg s" "sh_plane s1 = sh_plane s"
      "s1 = snd (snd (prepare c (parse fr) s))"
  | (forwarded) prio fr' s1 where "disposition c fr s = Forwarded prio fr'"
      "process_frame c fr s = Some (commit_stats (c\<lparr>stats := count_packet (prio_index prio) (length fr') (stats c)\<rparr>) s1)"
      "length fr' = length fr" "routed c prio fr' s s1" "same_kernel (sh_world s) (sh_world s1)" "sh_cfg s1 = sh_cfg s"
      "sh_plane s1 = sh_plane s" "sh_nat s1 = sh_nat (snd (snd (prepare c (parse fr) s)))"
      "sh_dhcp s1 = sh_dhcp (snd (snd (prepare c (parse fr) s)))"
proof -
  obtain h pkt sp where p: "prepare c (parse fr) s = (h, pkt, sp)" by (rule prod_cases3)
  note f = prepare_frame [OF p]
  have "callbacks c = app_events" using assms(1) by (simp add: consumer_ok_def)
  then have pf: "process_frame c fr s =
      Option.bind (if h then Some (c, sp) else map_option (\<lambda>s'. (counted c pkt sp, s')) (route_of c pkt sp)) (\<lambda>(c, s). Some (commit_stats c s))"
    by (simp add: process_frame_def on_packet_event_def run_pipeline_prepare [OF assms(1)] p)
  show thesis
  proof (cases h)
    case True
    then show thesis using f p pf by (intro consumed [of sp]) (auto simp: disposition_def)
  next
    case False
    have "sends_return (sh_world sp)" "atomic_sends (sh_world sp)" using assms(2,3) f(1) by simp_all
    then obtain s1 where s1: "route_of c pkt sp = Some s1" "same_kernel (sh_world sp) (sh_world s1)" "sh_cfg s1 = sh_cfg sp"
      "sh_plane s1 = sh_plane sp" "sh_nat s1 = sh_nat sp" "sh_dhcp s1 = sh_dhcp sp"
      "routed c (process (LARGE_PACKET_THRESHOLD_BYTES (sh_cfg sp)) pkt) (raw_span pkt) sp s1"
      using route_of_routed [OF assms(1)] by blast
    let ?p = "process (LARGE_PACKET_THRESHOLD_BYTES (sh_cfg s)) pkt"
    have "disposition c fr s = Forwarded ?p (raw_span pkt)" using False p by (simp add: disposition_def)
    moreover have "routed c ?p (raw_span pkt) s s1" using s1(7) f routed_cong [of sp s] by simp
    ultimately show thesis
      using False pf f s1 p by (intro forwarded [of ?p "raw_span pkt" s1]) auto
  qed
qed

lemma commit_stats_effect:
  assumes "consumer_ok c" "commit_stats c s = (c', s')"
  shows "consumer_ok c'" "core_id c' = core_id c" "tx_fd c' = tx_fd c" "wire (sh_world s') = wire (sh_world s)" "sh_shapers s' = sh_shapers s"
    "same_kernel (sh_world s) (sh_world s')" "sh_cfg s' = sh_cfg s" "sh_plane s' = sh_plane s" "sh_nat s' = sh_nat s" "sh_dhcp s' = sh_dhcp s"
    "effective_bridge_mode (tel (sh_world s')) = effective_bridge_mode (tel (sh_world s))"
    "cm_dropped (core_metrics (tel (sh_world s')) k) i = cm_dropped (core_metrics (tel (sh_world s)) k) i"
proof -
  have cb: "callbacks c = app_events" "0 \<le> core_id c" "core_id c < 4" using assms(1) by (auto simp: consumer_ok_def)
  have "cm_dropped (core_metrics (commit_batch b (core_id c) t) k) i = cm_dropped (core_metrics t k) i" for b t
    using commit_batch_core [OF cb(2,3)] commit_batch_other [of k "core_id c"] by (cases "k = nat (core_id c)") simp_all
  then show "cm_dropped (core_metrics (tel (sh_world s')) k) i = cm_dropped (core_metrics (tel (sh_world s)) k) i"
    using assms(2) cb by (auto simp: commit_stats_def split: if_splits)
qed (use assms in \<open>auto simp: commit_stats_def consumer_ok_def same_kernel_def frame_simps split: if_splits\<close>)

lemma count_drop_dropped:
  "cm_dropped (core_metrics (count_drop core i t) core) i = cm_dropped (core_metrics t core) i + 1"
  "effective_bridge_mode (count_drop core i t) = effective_bridge_mode t"
  by (simp_all add: count_drop_def Let_def)

text \<open>C4: What becomes of a received frame.  Unless a step consumes it, the frame (rewritten, but of the same
  length) is routed exactly once: straight to the socket of the other side when it has high priority or the
  router bridges, where it is sent as a whole or counted as one drop; and otherwise into the shaper of the
  direction, without anything being sent.  A consumed frame is neither sent nor queued.\<close>

theorem frame_disposition:
  assumes "consumer_ok c" "sends_return (sh_world s)" "atomic_sends (sh_world s)"
  shows "\<exists>c' s'. process_frame c fr s = Some (c', s') \<and> consumer_ok c' \<and>
    (case disposition c fr s of
       Consumed \<Rightarrow> wire (sh_world s') = wire (sh_world s) \<and> sh_shapers s' = sh_shapers s
     | Forwarded prio fr' \<Rightarrow>
         length fr' = length fr \<and>
         (let drops = (\<lambda>s. cm_dropped (core_metrics (tel (sh_world s)) (nat (core_id c))) (prio_index prio));
              i = nat (core_id c) - 2 in
          if effective_bridge_mode (tel (sh_world s)) \<or> prio = High
          then sh_shapers s' = sh_shapers s \<and>
            (wire (sh_world s') = wire (sh_world s) @ [(tx_fd c, fr')] \<and> drops s' = drops s \<or>
             wire (sh_world s') = wire (sh_world s) \<and> drops s' = drops s + 1)
          else wire (sh_world s') = wire (sh_world s) \<and>
            sh_shapers s' = (sh_shapers s)(i := fst (enqueue_normal fr' (sh_shapers s i) (sh_world s)))))"
  using assms
proof (cases rule: process_frame_result [where fr = fr])
  case (consumed s1)
  obtain c' s' where cs: "commit_stats c s1 = (c', s')" by fastforce
  show ?thesis using consumed commit_stats_effect [OF assms(1) cs] cs by auto
next
  case (forwarded prio fr' s1)
  let ?c = "c\<lparr>stats := count_packet (prio_index prio) (length fr') (stats c)\<rparr>"
  obtain c' s' where cs: "commit_stats ?c s1 = (c', s')" by fastforce
  have ok: "consumer_ok ?c" using assms(1) by simp
  have w: "wire (snd (enqueue_normal fr' sh w)) = wire w" for sh w
    by (auto simp: enqueue_normal_def Let_def split: prod.split)
  show ?thesis
    using forwarded commit_stats_effect [OF ok cs] cs
    by (auto simp: routed_def Let_def count_drop_dropped w split: if_splits)
qed


section \<open>Interception of DHCP\<close>

definition dhcp_frame :: "bytes \<Rightarrow> bool" where
  "dhcp_frame fr \<longleftrightarrow> ipv4_frame fr \<and> fr ! 23 = 17 \<and> frame_l4_off fr + 8 \<le> length fr \<and>
     ntohs (ld16 fr (frame_l4_off fr + 2)) \<in> {67, 68}"

lemma prepare_dhcp:
  "core_id c = 3 \<Longrightarrow> dhcp_engine c \<Longrightarrow> dhcp_frame fr \<Longrightarrow>
     prepare c (parse fr) s = (True, parse fr, s\<lparr>sh_dhcp := intercept_request (parse fr) (sh_dhcp s)\<rparr>)"
  by (auto simp: prepare_def step_dhcp_interceptor_def dhcp_frame_def parse_simps Let_def)

text \<open>C22: DHCP stays inside: a DHCP message received from the LAN is handed to the DHCP server and to nothing
  else.  It is not translated, not sent and not queued for the WAN, whatever the state of the router.\<close>

theorem dhcp_intercepted:
  assumes "consumer_ok c" "core_id c = 3" "dhcp_frame fr" "sends_return (sh_world s)" "atomic_sends (sh_world s)"
  shows "\<exists>c' s'. process_frame c fr s = Some (c', s') \<and> sh_dhcp s' = intercept_request (parse fr) (sh_dhcp s) \<and>
    sh_nat s' = sh_nat s \<and> wire (sh_world s') = wire (sh_world s) \<and> sh_shapers s' = sh_shapers s"
proof -
  have p: "prepare c (parse fr) s = (True, parse fr, s\<lparr>sh_dhcp := intercept_request (parse fr) (sh_dhcp s)\<rparr>)"
    using assms(1-3) by (intro prepare_dhcp) (auto simp: consumer_ok_def)
  then have "disposition c fr s = Consumed" by (simp add: disposition_def)
  with assms(1,4,5) show ?thesis
  proof (cases rule: process_frame_result [where fr = fr])
    case (consumed s1)
    obtain c' s' where cs: "commit_stats c s1 = (c', s')" by fastforce
    show ?thesis using consumed commit_stats_effect [OF assms(1) cs] cs p by auto
  qed simp
qed

section \<open>Telemetry\<close>

text \<open>What has been counted for a core: committed and pending.\<close>

abbreviation metrics :: "PacketConsumer \<Rightarrow> Shared \<Rightarrow> CoreMetrics" where
  "metrics c s \<equiv> core_metrics (tel (sh_world s)) (nat (core_id c))"

definition tally :: "PacketConsumer \<Rightarrow> Shared \<Rightarrow> u64 \<times> u64 \<times> (u64 \<times> u64) \<times> (u64 \<times> u64)" where
  "tally c s =
     (cm_pkts (metrics c s) + bs_pkts (stats c), cm_bytes (metrics c s) + bs_bytes (stats c),
      (cm_prio_pkts (metrics c s) 0 + bs_prio_pkts (stats c) 0, cm_prio_pkts (metrics c s) 1 + bs_prio_pkts (stats c) 1),
      (cm_prio_bytes (metrics c s) 0 + bs_prio_bytes (stats c) 0, cm_prio_bytes (metrics c s) 1 + bs_prio_bytes (stats c) 1))"

lemma tally_commit:
  assumes "consumer_ok c" "commit_stats c s = (c', s')"
  shows "tally c' s' = tally c s"
proof -
  have cb: "callbacks c = app_events" "0 \<le> core_id c" "core_id c < 4" using assms(1) by (auto simp: consumer_ok_def)
  show ?thesis
    using assms(2) cb commit_batch_core [OF cb(2,3), of "stats c" "tel (sh_world s)"]
    by (auto simp: commit_stats_def tally_def BatchStats_reset_def split: if_splits)
qed

fun tally_add :: "disposition \<Rightarrow> u64 \<times> u64 \<times> (u64 \<times> u64) \<times> (u64 \<times> u64) \<Rightarrow> u64 \<times> u64 \<times> (u64 \<times> u64) \<times> (u64 \<times> u64)" where
  "tally_add Consumed t = t"
| "tally_add (Forwarded High fr) (p, b, (p0, p1), (b0, b1)) =
     (p + 1, b + of_nat (length fr), (p0 + 1, p1), (b0 + of_nat (length fr), b1))"
| "tally_add (Forwarded Normal fr) (p, b, (p0, p1), (b0, b1)) =
     (p + 1, b + of_nat (length fr), (p0, p1 + 1), (b0, b1 + of_nat (length fr)))"

lemma count_drop_metrics:
  "cm_pkts (core_metrics (count_drop k i t) j) = cm_pkts (core_metrics t j)"
  "cm_bytes (core_metrics (count_drop k i t) j) = cm_bytes (core_metrics t j)"
  "cm_prio_pkts (core_metrics (count_drop k i t) j) = cm_prio_pkts (core_metrics t j)"
  "cm_prio_bytes (core_metrics (count_drop k i t) j) = cm_prio_bytes (core_metrics t j)"
  by (simp_all add: count_drop_def Let_def)

lemma enqueue_metrics: "core_metrics (tel (snd (enqueue_normal fr sh w))) = core_metrics (tel w)"
  by (auto simp: enqueue_normal_def Let_def split: prod.split)

lemma routed_tally:
  assumes "routed c prio fr s s1"
  shows "tally (c\<lparr>stats := count_packet (prio_index prio) (length fr) (stats c)\<rparr>) s1 = tally_add (Forwarded prio fr) (tally c s)"
  using assms
  by (cases prio) (auto simp: routed_def Let_def tally_def count_packet_def count_drop_metrics enqueue_metrics algebra_simps split: if_splits)

lemma pending_step:
  assumes "unat (p :: u64) < 32"
  shows "(p + 1) AND 31 = 0 \<or> unat (p + 1) < 32"
proof (cases "unat p = 31")
  case True
  then have "p = 31" by (intro unsigned_word_eqI) simp
  then show ?thesis by simp
next
  case False
  then have "unat (p + 1) = unat p + 1" using assms by (simp add: unat_word_ariths)
  then show ?thesis using assms False by simp
qed

lemma commit_pending:
  assumes "commit_stats c s = (c', s')" "bs_pkts (stats c) AND 31 = 0 \<or> unat (bs_pkts (stats c)) < 32"
  shows "unat (bs_pkts (stats c')) < 32"
  using assms by (auto simp: commit_stats_def BatchStats_reset_def split: if_splits)

lemma process_frame_tally:
  assumes "consumer_ok c" "sends_return (sh_world s)" "atomic_sends (sh_world s)" "unat (bs_pkts (stats c)) < 32"
  shows "\<exists>c' s'. process_frame c fr s = Some (c', s') \<and> consumer_ok c' \<and> same_kernel (sh_world s) (sh_world s') \<and>
    tally c' s' = tally_add (disposition c fr s) (tally c s) \<and> unat (bs_pkts (stats c')) < 32"
  using assms(1-3)
proof (cases rule: process_frame_result [where fr = fr])
  case (consumed s1)
  obtain c' s' where cs: "commit_stats c s1 = (c', s')" by fastforce
  have "tally c s1 = tally c s" using consumed by (simp add: tally_def)
  then show ?thesis
    using consumed commit_stats_effect [OF assms(1) cs] cs tally_commit [OF assms(1) cs] commit_pending [OF cs] assms(4) by auto
next
  case (forwarded prio fr' s1)
  let ?c = "c\<lparr>stats := count_packet (prio_index prio) (length fr') (stats c)\<rparr>"
  obtain c' s' where cs: "commit_stats ?c s1 = (c', s')" by fastforce
  have ok: "consumer_ok ?c" using assms(1) by simp
  have "bs_pkts (stats ?c) AND 31 = 0 \<or> unat (bs_pkts (stats ?c)) < 32"
    using pending_step [OF assms(4)] by (simp add: count_packet_def)
  moreover have "same_kernel (sh_world s) (sh_world s')"
    using forwarded(5) commit_stats_effect(6) [OF ok cs] by (rule same_kernel_trans)
  ultimately show ?thesis
    using forwarded cs commit_stats_effect(1) [OF ok cs] tally_commit [OF ok cs] routed_tally [OF forwarded(4)] commit_pending [OF cs]
    by simp
qed


fun process_frames :: "PacketConsumer \<Rightarrow> bytes list \<Rightarrow> Shared \<Rightarrow> (PacketConsumer \<times> Shared) option" where
  "process_frames c [] s = Some (c, s)"
| "process_frames c (fr # frs) s = do { (c, s) \<leftarrow> process_frame c fr s; process_frames c frs s }"

fun dispositions :: "PacketConsumer \<Rightarrow> bytes list \<Rightarrow> Shared \<Rightarrow> disposition list" where
  "dispositions c [] s = []"
| "dispositions c (fr # frs) s =
     disposition c fr s # (case process_frame c fr s of None \<Rightarrow> [] | Some (c, s) \<Rightarrow> dispositions c frs s)"

lemma process_frames_tally:
  assumes "consumer_ok c" "sends_return (sh_world s)" "atomic_sends (sh_world s)" "unat (bs_pkts (stats c)) < 32"
  shows "\<exists>c' s'. process_frames c frs s = Some (c', s') \<and> consumer_ok c' \<and> length (dispositions c frs s) = length frs \<and>
    tally c' s' = fold tally_add (dispositions c frs s) (tally c s) \<and> unat (bs_pkts (stats c')) < 32"
  using assms
proof (induction frs arbitrary: c s)
  case (Cons fr frs)
  obtain c1 s1 where 1: "process_frame c fr s = Some (c1, s1)" "consumer_ok c1" "same_kernel (sh_world s) (sh_world s1)"
    "tally c1 s1 = tally_add (disposition c fr s) (tally c s)" "unat (bs_pkts (stats c1)) < 32"
    using process_frame_tally [OF Cons.prems] by blast
  have "sends_return (sh_world s1)" "atomic_sends (sh_world s1)"
    using 1(3) Cons.prems(2,3) same_kernel_returns same_kernel_atomic by blast+
  from Cons.IH [OF 1(2) this 1(5)] show ?case using 1(1) by (simp add: 1(4))
qed auto

lemma fold_tally_add:
  "fold tally_add ds (p, b, (p0, p1), (b0, b1)) =
     (let hi = [length fr. Forwarded High fr \<leftarrow> ds]; no = [length fr. Forwarded Normal fr \<leftarrow> ds] in
      (p + of_nat (length hi + length no), b + of_nat (sum_list hi + sum_list no),
       (p0 + of_nat (length hi), p1 + of_nat (length no)), (b0 + of_nat (sum_list hi), b1 + of_nat (sum_list no))))"
proof (induction ds arbitrary: p b p0 p1 b0 b1)
  case (Cons d ds)
  show ?case
  proof (cases d)
    case (Forwarded prio fr)
    then show ?thesis by (cases prio) (simp_all add: Cons.IH Let_def algebra_simps)
  qed (simp add: Cons.IH Let_def)
qed (simp add: Let_def)

text \<open>C23: Nothing is lost or counted twice in the telemetry.  After any sequence of frames, the committed
  counters of the core plus the pending batch have grown by exactly the frames that were routed and their bytes,
  in total and per priority, and fewer than 32 frames are pending.\<close>

theorem telemetry_conserved:
  assumes "consumer_ok c" "sends_return (sh_world s)" "atomic_sends (sh_world s)" "unat (bs_pkts (stats c)) < 32"
    and "hi = [length fr. Forwarded High fr \<leftarrow> dispositions c frs s]" "no = [length fr. Forwarded Normal fr \<leftarrow> dispositions c frs s]"
  shows "\<exists>c' s'. process_frames c frs s = Some (c', s') \<and> length (dispositions c frs s) = length frs \<and>
    cm_pkts (metrics c' s') + bs_pkts (stats c') = cm_pkts (metrics c s) + bs_pkts (stats c) + of_nat (length hi + length no) \<and>
    cm_bytes (metrics c' s') + bs_bytes (stats c') = cm_bytes (metrics c s) + bs_bytes (stats c) + of_nat (sum_list hi + sum_list no) \<and>
    cm_prio_pkts (metrics c' s') 0 + bs_prio_pkts (stats c') 0 = cm_prio_pkts (metrics c s) 0 + bs_prio_pkts (stats c) 0 + of_nat (length hi) \<and>
    cm_prio_pkts (metrics c' s') 1 + bs_prio_pkts (stats c') 1 = cm_prio_pkts (metrics c s) 1 + bs_prio_pkts (stats c) 1 + of_nat (length no) \<and>
    cm_prio_bytes (metrics c' s') 0 + bs_prio_bytes (stats c') 0 = cm_prio_bytes (metrics c s) 0 + bs_prio_bytes (stats c) 0 + of_nat (sum_list hi) \<and>
    cm_prio_bytes (metrics c' s') 1 + bs_prio_bytes (stats c') 1 = cm_prio_bytes (metrics c s) 1 + bs_prio_bytes (stats c) 1 + of_nat (sum_list no) \<and>
    unat (bs_pkts (stats c')) < 32"
proof -
  obtain c' s' where r: "process_frames c frs s = Some (c', s')" "length (dispositions c frs s) = length frs"
    "tally c' s' = fold tally_add (dispositions c frs s) (tally c s)" "unat (bs_pkts (stats c')) < 32"
    using process_frames_tally [OF assms(1-4)] by blast
  then have "tally c' s' = (cm_pkts (metrics c s) + bs_pkts (stats c) + of_nat (length hi + length no),
      cm_bytes (metrics c s) + bs_bytes (stats c) + of_nat (sum_list hi + sum_list no),
      (cm_prio_pkts (metrics c s) 0 + bs_prio_pkts (stats c) 0 + of_nat (length hi),
       cm_prio_pkts (metrics c s) 1 + bs_prio_pkts (stats c) 1 + of_nat (length no)),
      (cm_prio_bytes (metrics c s) 0 + bs_prio_bytes (stats c) 0 + of_nat (sum_list hi),
       cm_prio_bytes (metrics c s) 1 + bs_prio_bytes (stats c) 1 + of_nat (sum_list no)))"
    unfolding assms(5,6) by (simp add: tally_def fold_tally_add Let_def)
  then show ?thesis using r by (simp add: tally_def)
qed


section \<open>Next hops\<close>

definition macs_ok :: "L2Snapshot \<Rightarrow> bool" where
  "macs_ok snap \<longleftrightarrow> length (lan_hw snap) = 6 \<and> length (wan_hw snap) = 6 \<and> length (gw_hw snap) = 6 \<and>
     (\<forall>i < arp_count snap. length (arp_mac (arp snap i)) = 6)"

definition next_hop :: "L2Snapshot \<Rightarrow> u32 \<Rightarrow> bytes option" where
  "next_hop snap dst =
     (if wan_cfg_valid snap \<and> ipv4_in_subnet dst (wan_prefix_len snap) (snap_wan_ip snap) then resolve_mac_onlink snap dst
      else if default_gw_ip_configured snap \<and> gw_hw_valid snap then Some (gw_hw snap) else None)"

lemma next_hop_length: "macs_ok snap \<Longrightarrow> next_hop snap dst = Some m \<Longrightarrow> length m = 6"
  by (auto simp: next_hop_def macs_ok_def resolve_mac_onlink_def find_Some_iff split: if_splits)

lemma resolve_length: "macs_ok snap \<Longrightarrow> resolve_mac_onlink snap dst = Some m \<Longrightarrow> length m = 6"
  by (auto simp: macs_ok_def resolve_mac_onlink_def find_Some_iff)

lemma process_inbound_layout:
  "eth (snd (snd (process_inbound st pkt))) = eth pkt \<and> ipv4 (snd (snd (process_inbound st pkt))) = ipv4 pkt"
  unfolding process_inbound_def process_inbound_icmp_def
  by (auto simp: Let_def split: option.split if_split resolution.split prod.split)

lemma process_outbound_layout:
  "eth (snd (snd (process_outbound st pkt))) = eth pkt \<and> ipv4 (snd (snd (process_outbound st pkt))) = ipv4 pkt"
  unfolding process_outbound_def process_outbound_icmp_def
  by (auto simp: Let_def split: option.split if_split prod.split)

text \<open>The two addresses written over the head of a frame.\<close>

lemma rewritten_head:
  assumes "length src = 6" "length dst = 6" "34 \<le> length xs"
  shows "take 6 (memcpy (memcpy xs 6 src) 0 dst) = dst" "take 6 (drop 6 (memcpy (memcpy xs 6 src) 0 dst)) = src"
    "drop 12 (memcpy (memcpy xs 6 src) 0 dst) = drop 12 xs"
  using assms by (auto simp: nth_memcpy intro!: nth_equalityI)

lemma step_lan_to_wan_next_hop:
  assumes "eth pkt = Some 0" "ipv4 pkt = Some 14" "34 \<le> length (raw_span pkt)" "enable_nat (sh_cfg s)"
    and snap: "snap = snapshot (sh_plane s)" "ready snap" "macs_ok snap"
    and unicast: "ipv4_needs_eth_rewrite_for_forward (raw_span pkt) 14"
  shows "case next_hop snap (ld32 (raw_span pkt) 30) of
      None \<Rightarrow> fst (step_eth_rewrite_lan_to_wan c pkt s)
    | Some m \<Rightarrow> step_eth_rewrite_lan_to_wan c pkt s =
        (False, c, pkt\<lparr>raw_span := memcpy (memcpy (raw_span pkt) 6 (wan_hw snap)) 0 m\<rparr>, s)"
  using assms by (auto simp: step_eth_rewrite_lan_to_wan_def next_hop_def Let_def split: option.splits)


lemma step_wan_to_lan_next_hop:
  assumes "eth pkt = Some 0" "ipv4 pkt = Some 14" "34 \<le> length (raw_span pkt)" "enable_nat (sh_cfg s)"
    and snap: "snap = snapshot (sh_plane s)" "ready snap" "macs_ok snap"
    and unicast: "ipv4_needs_eth_rewrite_for_forward (raw_span pkt) 14"
  shows "step_eth_rewrite_wan_to_lan c pkt s =
    (False, c, case resolve_mac_onlink snap (ld32 (raw_span pkt) 30) of None \<Rightarrow> pkt
       | Some m \<Rightarrow> pkt\<lparr>raw_span := memcpy (memcpy (raw_span pkt) 6 (lan_hw snap)) 0 m\<rparr>, s)"
  using assms by (auto simp: step_eth_rewrite_wan_to_lan_def resolve_mac_onlink_def Let_def split: option.splits)

lemma interceptor_passes:
  "core_id c = 2 \<or> \<not> dhcp_frame fr \<Longrightarrow> step_dhcp_interceptor c (parse fr) s = (False, c, parse fr, s)"
  by (auto simp: step_dhcp_interceptor_def dhcp_frame_def parse_simps Let_def split: option.splits if_splits)

lemma rewritten_frame:
  assumes "length src = 6" "length dst = 6" "34 \<le> length xs"
  shows "memcpy (memcpy xs 6 src) 0 dst = dst @ src @ drop 12 xs"
  using assms by (auto simp: nth_memcpy nth_append intro!: nth_equalityI)

lemma eth_parse_ipv4: "ipv4_frame fr \<Longrightarrow> eth (parse fr) = Some 0 \<and> ipv4 (parse fr) = Some 14"
  by (simp add: ipv4_parse) (simp add: parse_def Let_def ipv4_frame_def)

text \<open>The steps of the upstream pipeline on a unicast frame, and those of the downstream pipeline.\<close>

lemma prepare_upstream:
  assumes c: "consumer_ok c" "core_id c = 3" and fr: "ipv4_frame fr" "\<not> dhcp_frame fr"
    and nat: "enable_nat (sh_cfg s)" "process_inbound (sh_nat s) (parse fr) = (b1, st1, p1)" "process_outbound st1 p1 = (b2, st2, p2)"
    and snap: "snap = snapshot (sh_plane s)" "ready snap" "macs_ok snap"
    and unicast: "ipv4_needs_eth_rewrite_for_forward (raw_span p2) 14"
  shows "case next_hop snap (ld32 (raw_span p2) 30) of
      None \<Rightarrow> fst (prepare c (parse fr) s)
    | Some m \<Rightarrow> prepare c (parse fr) s = (False, p2\<lparr>raw_span := m @ wan_hw snap @ drop 12 (raw_span p2)\<rparr>, s\<lparr>sh_nat := st2\<rparr>)"
proof -
  have p2: "eth p2 = Some 0" "ipv4 p2 = Some 14" "34 \<le> length (raw_span p2)"
    using process_inbound_layout [of "sh_nat s" "parse fr"] process_outbound_layout [of st1 p1] nat(2,3) fr(1)
      process_inbound_length [of "sh_nat s" "parse fr"] process_outbound_length [of st1 p1] eth_parse_ipv4 [OF fr(1)]
    by (simp_all add: ipv4_frame_def)
  let ?s = "s\<lparr>sh_nat := st2\<rparr>"
  have e: "nat_engine c" using c by (simp add: consumer_ok_def)
  have p: "prepare c (parse fr) s = (case step_eth_rewrite_lan_to_wan c p2 ?s of (h, _, pkt, s) \<Rightarrow> (h, pkt, s))"
    using c(2) nat e interceptor_passes [of c fr s] fr(2)
    by (simp add: prepare_def step_nat_downstream_def step_nat_upstream_def)
  have len: "length (wan_hw snap) = 6" using snap(3) by (simp add: macs_ok_def)
  show ?thesis
    using step_lan_to_wan_next_hop [OF p2, of ?s snap c] nat(1) snap unicast rewritten_frame [OF len next_hop_length [OF snap(3)] p2(3)]
    unfolding p by (auto split: option.splits prod.splits)
qed

lemma prepare_downstream:
  assumes c: "consumer_ok c" "core_id c = 2" and fr: "ipv4_frame fr"
    and nat: "enable_nat (sh_cfg s)" "process_inbound (sh_nat s) (parse fr) = (b1, st1, p1)"
    and snap: "snap = snapshot (sh_plane s)" "ready snap" "macs_ok snap"
    and unicast: "ipv4_needs_eth_rewrite_for_forward (raw_span p1) 14"
  shows "prepare c (parse fr) s = (False, case resolve_mac_onlink snap (ld32 (raw_span p1) 30) of None \<Rightarrow> p1
       | Some m \<Rightarrow> p1\<lparr>raw_span := m @ lan_hw snap @ drop 12 (raw_span p1)\<rparr>, s\<lparr>sh_nat := st1\<rparr>)"
proof -
  have p1: "eth p1 = Some 0" "ipv4 p1 = Some 14" "34 \<le> length (raw_span p1)"
    using process_inbound_layout [of "sh_nat s" "parse fr"] nat(2) fr
      process_inbound_length [of "sh_nat s" "parse fr"] eth_parse_ipv4 [OF fr]
    by (simp_all add: ipv4_frame_def)
  let ?s = "s\<lparr>sh_nat := st1\<rparr>"
  have e: "nat_engine c" using c by (simp add: consumer_ok_def)
  have p: "prepare c (parse fr) s = (case step_eth_rewrite_wan_to_lan c p1 ?s of (h, _, pkt, s) \<Rightarrow> (h, pkt, s))"
    using c(2) nat e interceptor_passes [of c fr s] by (simp add: prepare_def step_nat_downstream_def)
  have len: "length (lan_hw snap) = 6" using snap(3) by (simp add: macs_ok_def)
  show ?thesis
    using step_wan_to_lan_next_hop [OF p1, of ?s snap c] nat(1) snap unicast rewritten_frame [OF len resolve_length [OF snap(3)] p1(3)]
    unfolding p by (auto split: option.splits prod.splits)
qed

text \<open>C15: Next hops towards the Internet.  With NAT on and the link addresses known, a unicast frame from the LAN
  that is not DHCP leaves with the WAN interface as its source and, as its destination, the neighbour that owns
  the address when it is on the WAN link and the default gateway otherwise, over the NAT's output; when the next
  hop is not known the frame is dropped and never sent with a stale address.\<close>

theorem upstream_next_hop:
  assumes "consumer_ok c" "core_id c = 3" "ipv4_frame fr" "\<not> dhcp_frame fr"
    and "enable_nat (sh_cfg s)" "process_inbound (sh_nat s) (parse fr) = (b1, st1, p1)" "process_outbound st1 p1 = (b2, st2, p2)"
    and "snap = snapshot (sh_plane s)" "ready snap" "macs_ok snap" "ipv4_needs_eth_rewrite_for_forward (raw_span p2) 14"
  shows "case next_hop snap (ld32 (raw_span p2) 30) of
      None \<Rightarrow> disposition c fr s = Consumed
    | Some m \<Rightarrow> \<exists>prio. disposition c fr s = Forwarded prio (m @ wan_hw snap @ drop 12 (raw_span p2))"
  using prepare_upstream [OF assms] by (auto simp: disposition_def split: option.splits prod.splits)


section \<open>A flow there and back\<close>

lemma nth_head: "length m = 6 \<Longrightarrow> length src = 6 \<Longrightarrow> 12 \<le> i \<Longrightarrow> i < length xs \<Longrightarrow> (m @ src @ drop 12 xs) ! i = xs ! i"
  by (auto simp: nth_append)

lemma head_fields:
  assumes "length m = 6" "length src = 6" "12 \<le> i"
  shows "i + 1 < length xs \<Longrightarrow> ld16 (m @ src @ drop 12 xs) i = ld16 xs i"
    "i + 3 < length xs \<Longrightarrow> ld32 (m @ src @ drop 12 xs) i = ld32 xs i"
  using assms nth_head [OF assms(1,2)] by (simp_all add: ld32_def ld16_def)

lemma unicast_below:
  assumes "ntohl (ld32 xs 30) < 0xE0000000"
  shows "ipv4_needs_eth_rewrite_for_forward xs 14"
proof -
  let ?d = "ntohl (ld32 xs 30)"
  have "unat (drop_bit 24 ?d) < 224" using assms 
    by (simp add: word_less_nat_alt unat_drop_bit_eq drop_bit_nat_def del: drop_bit_numeral_bit0)
  then have "\<not> drop_bit 24 ?d \<ge> 224" by (simp add: word_le_nat_alt)
  moreover have "?d \<noteq> 0xFFFFFFFF" using assms by auto
  ultimately show ?thesis by (simp add: ipv4_needs_eth_rewrite_for_forward_def Let_def)
qed

lemma process_frame_nat:
  assumes "consumer_ok c" "sends_return (sh_world s)" "atomic_sends (sh_world s)" "process_frame c fr s = Some (c', s')"
  shows "sh_nat s' = sh_nat (snd (snd (prepare c (parse fr) s)))"
  using assms(1-3)
proof (cases rule: process_frame_result [where fr = fr])
  case (consumed s1)
  then show ?thesis using commit_stats_effect(9) [OF assms(1), of s1 c' s'] assms(4) by simp
next
  case (forwarded prio fr' s1)
  then have "commit_stats (c\<lparr>stats := count_packet (prio_index prio) (length fr') (stats c)\<rparr>) s1 = (c', s')" using assms(4) by simp
  from commit_stats_effect(9) [OF _ this] forwarded assms(1) show ?thesis by simp
qed

lemma not_for_wan: "l4_frame f \<Longrightarrow> ld32 f 30 \<noteq> wan_ip_nbo st \<Longrightarrow> process_inbound st (parse f) = (False, st, parse f)"
  by (simp add: process_inbound_l4 Let_def)

lemma reply_forwarded:
  assumes cd: "consumer_ok cd" "core_id cd = 2" and g: "l4_frame g"
    and later: "enable_nat (sh_cfg s)" "ready (snapshot (sh_plane s))" "macs_ok (snapshot (sh_plane s))"
    and host: "resolve_mac_onlink (snapshot (sh_plane s)) ip = Some h" "ntohl ip < 0xE0000000"
    and r: "process_inbound (sh_nat s) (parse g) =
      (True, st', (parse g)\<lparr>raw_span := rewrite_l4 g 14 30 (frame_l4_off g + 2) (l4_check g) ip port\<rparr>)"
  shows "\<exists>prio' g'. disposition cd g s = Forwarded prio' g' \<and> length g' = length g \<and> take 6 g' = h \<and>
    ld32 g' 30 = ip \<and> ld16 g' (frame_l4_off g + 2) = port"
proof -
  have f4: "ipv4_frame g" using g by (simp add: l4_frame_def)
  let ?q = "rewrite_l4 g 14 30 (frame_l4_off g + 2) (l4_check g) ip port"
  let ?g = "h @ lan_hw (snapshot (sh_plane s)) @ drop 12 ?q"
  note qf = rewrite_l4_fields(1,2) [OF separate_l4(2) [OF g], of ip port]
  have uni': "ipv4_needs_eth_rewrite_for_forward (raw_span ((parse g)\<lparr>raw_span := ?q\<rparr>)) 14" using host(2) qf by (intro unicast_below) simp
  obtain prio' where d: "disposition cd g s = Forwarded prio' ?g"
    using prepare_downstream [OF cd f4 later(1) r refl later(2,3) uni'] host(1) qf(1) by (simp add: disposition_def)
  have hl: "length h = 6" "length (lan_hw (snapshot (sh_plane s))) = 6"
    using resolve_length [OF later(3) host(1)] later(3) by (simp_all add: macs_ok_def)
  have "34 \<le> frame_l4_off g" "frame_l4_off g + 8 \<le> length ?q" "length ?q = length g" "length ?q = length g" using g by (auto simp: l4_frame_def)
  note g' = head_fields(1) [OF hl, of "frame_l4_off g + 2" ?q] head_fields(2) [OF hl, of 30 ?q] this
  have "length ?g = length g" "take 6 ?g = h" using hl g' by simp_all
  moreover have "ld32 ?g 30 = ip" using g' qf(1) by simp
  moreover have "ld16 ?g (frame_l4_off g + 2) = port" using g' qf(2) by simp
  ultimately show ?thesis using d by blast
qed

text \<open>C1: A flow there and back through both workers.  A host on the LAN sends a TCP or UDP frame \<open>f\<close> to an address outside; the
  upstream worker forwards it as \<open>f'\<close>.  Later (at most 300 ticks, fewer than 50000 outbound packets in all) an answer \<open>g\<close> to \<open>f'\<close>
  arrives at the WAN address.  Then the downstream worker forwards it to the link address of the host, and the destination address
  and port are those \<open>f\<close> came from.\<close>

theorem flow_round_trip:
  assumes cu: "consumer_ok cu" "core_id cu = 3" and cd: "consumer_ok cd" "core_id cd = 2"
    and world: "sends_return (sh_world s)" "atomic_sends (sh_world s)"
    and s: "sh_nat s = nat_run before NatEngine_init" "enable_nat (sh_cfg s)" "ready (snapshot (sh_plane s))" "macs_ok (snapshot (sh_plane s))"
    and f: "l4_frame f" "\<not> dhcp_frame f" "ld32 f 30 \<noteq> wan_ip_nbo (sh_nat s)" "ipv4_needs_eth_rewrite_for_forward f 14"
    and out: "fst (process_outbound (sh_nat s) (parse f))"
    and sent: "process_frame cu f s = Some (cu', s1)" "disposition cu f s = Forwarded prio f'"
    and later: "sh_nat s' = nat_run between (sh_nat s1)" "length (filter is_outbound (before @ between)) < 50000"
      "length (filter ((=) Tick) between) \<le> 300" "enable_nat (sh_cfg s')" "ready (snapshot (sh_plane s'))" "macs_ok (snapshot (sh_plane s'))"
    and g: "l4_frame g" "ld32 g 30 = wan_ip_nbo (sh_nat s')" "ld32 g 26 = ld32 f' 30"
      "ld16 g (frame_l4_off g) = ld16 f' (frame_l4_off f + 2)" "ld16 g (frame_l4_off g + 2) = ld16 f' (frame_l4_off f)"
    and host: "resolve_mac_onlink (snapshot (sh_plane s')) (ld32 f 26) = Some h" "ntohl (ld32 f 26) < 0xE0000000"
  shows "\<exists>prio' g'. disposition cd g s' = Forwarded prio' g' \<and> length g' = length g \<and> take 6 g' = h \<and>
    ld32 g' 30 = ld32 f 26 \<and> ld16 g' (frame_l4_off g + 2) = ld16 f (frame_l4_off f)"
proof -
  obtain st p where o: "process_outbound (sh_nat s) (parse f) = (True, st, p)" using out by (cases "process_outbound (sh_nat s) (parse f)") auto
  obtain ext where p: "raw_span p = rewrite_l4 f 14 26 (frame_l4_off f) (l4_check f) (wan_ip_nbo (sh_nat s)) ext"
    using o unfolding process_outbound_l4 [OF f(1)] by (auto simp: Let_def split: if_splits prod.splits)
  note pf = rewrite_source_fields [OF f(1) p]
  have f4: "ipv4_frame f" "ipv4_frame g" using f(1) g(1) by (simp_all add: l4_frame_def)
  have uni: "ipv4_needs_eth_rewrite_for_forward (raw_span p) 14" using f(4) pf by (simp add: ipv4_needs_eth_rewrite_for_forward_def)
  note up = prepare_upstream [OF cu f4(1) f(2) s(2) not_for_wan [OF f(1,3)] o refl s(3,4) uni]
  obtain m where m: "next_hop (snapshot (sh_plane s)) (ld32 (raw_span p) 30) = Some m"
    using up sent(2) by (auto simp: disposition_def split: option.splits prod.splits)
  have len: "length m = 6" "length (wan_hw (snapshot (sh_plane s))) = 6" using next_hop_length [OF s(4) m] s(4) by (simp_all add: macs_ok_def)
  have lp: "length (raw_span p) = length f" using process_outbound_length [of "sh_nat s" "parse f"] o by simp
  have f': "f' = m @ wan_hw (snapshot (sh_plane s)) @ drop 12 (raw_span p)" using up m sent(2) by (simp add: disposition_def)
  have st: "sh_nat s1 = st" using process_frame_nat [OF cu(1) world sent(1)] up m by simp
  have off: "34 \<le> frame_l4_off f" "frame_l4_off f + 8 \<le> length f" using f(1) by (auto simp: l4_frame_def)
  have fields: "ld32 f' 30 = ld32 (raw_span p) 30" "ld16 f' (frame_l4_off f) = ld16 (raw_span p) (frame_l4_off f)"
    "ld16 f' (frame_l4_off f + 2) = ld16 (raw_span p) (frame_l4_off f + 2)"
    unfolding f' using head_fields [OF len] off lp by simp_all
  obtain st' where r: "process_inbound (sh_nat s') (parse g) = (True, st', (parse g)\<lparr>raw_span :=
     rewrite_l4 g 14 30 (frame_l4_off g + 2) (l4_check g) (ld32 f 26) (ld16 f (frame_l4_off f))\<rparr>)"
    using reply_translated [OF o [unfolded s(1)] f(1) g(1) later(2,3)] g(2-) unfolding later(1) st fields by blast
  show ?thesis by (rule reply_forwarded [OF cd g(1) later(4-6) host r])
qed

section \<open>Sample runs\<close>

text \<open>A router with one known host on the LAN and a gateway on the WAN.\<close>

definition demo_snap :: L2Snapshot where
  "demo_snap = L2Snapshot_init\<lparr>lan_hw := [2, 0, 0, 0, 0, 1], wan_hw := [2, 0, 0, 0, 0, 2], gw_hw := [2, 0, 0, 0, 0, 3],
     arp := (\<lambda>_. \<lparr>ip_nbo = 0x320CA8C0, arp_mac = [2, 0, 0, 0, 0, 4]\<rparr>), arp_count := 1, gw_hw_valid := True,
     default_gw_ip_configured := True, ready := True\<rparr>"

definition demo_shared :: Shared where
  "demo_shared =
     \<lparr>sh_nat = nat_run [SetWanIp demo_wan] NatEngine_init, sh_dhcp = demo_server, sh_shapers = (\<lambda>_. demo_shaper),
      sh_plane = \<lparr>snaps = (\<lambda>_. demo_snap), active = 0\<rparr>, sh_cfg = Config_defaults, sh_world = demo_world\<rparr>"

definition demo_up :: PacketConsumer where
  "demo_up = PacketConsumer_new 4 (upstream_config 5 app_events)"

definition demo_down :: PacketConsumer where
  "demo_down = PacketConsumer_new 5 (downstream_config 4 app_events)"

lemma demo_consumers: "consumer_ok demo_up" "core_id demo_up = 3" "consumer_ok demo_down" "core_id demo_down = 2"
  "unat (bs_pkts (stats demo_up)) < 32"
  using consumer_ok_new
  by (simp_all add: demo_up_def demo_down_def PacketConsumer_new_def upstream_config_def downstream_config_def BatchStats_reset_def)

lemma demo_shared:
  "snapshot (sh_plane demo_shared) = demo_snap" "ready demo_snap" "macs_ok demo_snap" "enable_nat (sh_cfg demo_shared)"
  "sh_nat demo_shared = nat_run [SetWanIp demo_wan] NatEngine_init" "sends_return (sh_world demo_shared)" "atomic_sends (sh_world demo_shared)"
  "resolve_mac_onlink demo_snap 0x320CA8C0 = Some [2, 0, 0, 0, 0, 4]" "next_hop demo_snap ip = Some [2, 0, 0, 0, 0, 3]"
  using demo_world_ok
  by (simp_all add: demo_shared_def demo_snap_def snapshot_def macs_ok_def Config_defaults_def resolve_mac_onlink_def next_hop_def L2Snapshot_init_def)

lemma demo_query_plain: "\<not> dhcp_frame demo_query" "ld32 demo_query 30 = 0x08080808" "ipv4_needs_eth_rewrite_for_forward demo_query 14"
proof -
  have "ntohs (ld16 demo_query 36) = 53" by (simp add: demo_query_def ld16_def word_eval)
  then show "\<not> dhcp_frame demo_query" by (simp add: dhcp_frame_def demo_l4_off)
  show d: "ld32 demo_query 30 = 0x08080808" by (simp add: demo_query_def ld32_def ld16_def mk32_def mk16_def)
  have "ntohl 0x08080808 < 0xE0000000" by (simp add: word_eval)
  then show "ipv4_needs_eth_rewrite_for_forward demo_query 14" by (intro unicast_below) (simp add: d)
qed

lemma demo_not_inbound:
  "process_inbound (nat_run [SetWanIp demo_wan] NatEngine_init) (parse demo_query) =
     (False, nat_run [SetWanIp demo_wan] NatEngine_init, parse demo_query)"
  by (rule not_for_wan [OF demo_l4_frames(1)]) (simp add: demo_query_plain nat_run_def set_wan_ip_def)

theorem upstream_next_hop_witness:
  "\<exists>prio. disposition demo_up demo_query demo_shared =
     Forwarded prio ([2, 0, 0, 0, 0, 3, 2, 0, 0, 0, 0, 2] @ drop 12 demo_sent)"
proof -
  have "ipv4_needs_eth_rewrite_for_forward demo_sent 14" using demo_query_plain by (simp add: ipv4_needs_eth_rewrite_for_forward_def demo_sent_fields)
  moreover have "ipv4_frame demo_query" using demo_l4_frames(1) by (simp add: l4_frame_def)
  ultimately show ?thesis
    using upstream_next_hop [OF demo_consumers(1,2) _ demo_query_plain(1) demo_shared(4) demo_not_inbound [folded demo_shared(5)] demo_outbound [folded demo_shared(5)] refl]
    by (simp add: demo_shared) (simp add: demo_snap_def)
qed


theorem frame_disposition_witness:
  "\<exists>c' s'. process_frame demo_up demo_query demo_shared = Some (c', s') \<and> consumer_ok c' \<and> length (wire (sh_world s')) \<le> 1"
proof -
  have "wire (sh_world demo_shared) = []" by (simp add: demo_shared_def demo_world_def)
  then show ?thesis
    using frame_disposition [OF demo_consumers(1) demo_shared(6,7), of demo_query]
    by (force simp: Let_def split: disposition.splits if_splits)
qed

definition demo_discover :: bytes where
  "demo_discover = [255, 255, 255, 255, 255, 255, 2, 0, 0, 0, 0, 9, 8, 0,
     0x45, 0, 0, 28, 0, 0, 0, 0, 64, 17, 0, 0, 0, 0, 0, 0, 255, 255, 255, 255,
     0, 68, 0, 67, 0, 8, 0, 0]"

theorem dhcp_intercepted_witness:
  "\<exists>c' s'. process_frame demo_up demo_discover demo_shared = Some (c', s') \<and>
     sh_dhcp s' = intercept_request (parse demo_discover) demo_server \<and> wire (sh_world s') = []"
proof -
  have off: "frame_l4_off demo_discover = 34" by (simp add: frame_l4_off_def demo_discover_def)
  have "dhcp_frame demo_discover"
    unfolding dhcp_frame_def off ipv4_frame_def by (simp add: demo_discover_def ld16_def word_eval)
  moreover have "sh_dhcp demo_shared = demo_server" "wire (sh_world demo_shared) = []"
    by (simp_all add: demo_shared_def demo_world_def)
  ultimately show ?thesis using dhcp_intercepted [OF demo_consumers(1,2) _ demo_shared(6,7), of demo_discover] by auto
qed

theorem telemetry_conserved_witness:
  "\<exists>c' s'. process_frames demo_up [demo_discover, demo_query] demo_shared = Some (c', s') \<and> unat (bs_pkts (stats c')) < 32"
  using telemetry_conserved [OF demo_consumers(1) demo_shared(6,7) demo_consumers(5) refl refl, of "[demo_discover, demo_query]"] by blast

theorem flow_round_trip_witness:
  "\<exists>cu' s1 s2 prio g'. process_frame demo_up demo_query demo_shared = Some (cu', s1) \<and> sh_nat s2 = nat_run [Tick] (sh_nat s1) \<and>
     disposition demo_down demo_reply s2 = Forwarded prio g' \<and> take 6 g' = [2, 0, 0, 0, 0, 4] \<and> ld32 g' 30 = 0x320CA8C0 \<and> ld16 g' 36 = 0x3930"
proof -
  let ?s = demo_shared
  have uni: "ipv4_needs_eth_rewrite_for_forward demo_sent 14" "ipv4_frame demo_query"
    using demo_query_plain demo_l4_frames(1) by (simp_all add: ipv4_needs_eth_rewrite_for_forward_def demo_sent_fields l4_frame_def)
  obtain cu s1 where p: "process_frame demo_up demo_query ?s = Some (cu, s1)"
    using process_frame_tally [OF demo_consumers(1) demo_shared(6,7) demo_consumers(5)] by blast
  define f where "f = [2, 0, 0, 0, 0, 3] @ [2, 0, 0, 0, 0, 2] @ drop 12 demo_sent"
  have prep: "prepare demo_up (parse demo_query) ?s = (False, (parse demo_query)\<lparr>raw_span := f\<rparr>, ?s\<lparr>sh_nat := demo_engine\<rparr>)"
    using prepare_upstream [OF demo_consumers(1,2) uni(2) demo_query_plain(1) demo_shared(4) demo_not_inbound [folded demo_shared(5)]
      demo_outbound [folded demo_shared(5)] refl] uni(1)
    by (simp add: demo_shared f_def) (simp add: demo_snap_def)
  then obtain prio where d: "disposition demo_up demo_query ?s = Forwarded prio f" by (simp add: disposition_def)
  have n: "sh_nat s1 = demo_engine" using process_frame_nat [OF demo_consumers(1) demo_shared(6,7) p] prep by simp
  let ?s2 = "?s\<lparr>sh_nat := nat_run [Tick] (sh_nat s1)\<rparr>"
  have len: "length demo_sent = 42" using process_outbound_length [of "sh_nat ?s" "parse demo_query"] demo_outbound
    by (simp add: demo_shared(5)) (simp add: demo_query_def)
  have ff: "ld32 f 30 = 0x08080808" "ld16 f 36 = 0x3500" "ld16 f 34 = htons 10000"
    using head_fields [of "[2, 0, 0, 0, 0, 3]" "[2, 0, 0, 0, 0, 2]" _ demo_sent] len demo_sent_fields by (simp_all add: f_def)
  have "wan_ip_nbo (nat_run [SetWanIp demo_wan] NatEngine_init) = demo_wan" "wan_ip_nbo (nat_run [Tick] demo_engine) = demo_wan"
    by (simp add: nat_run_def set_wan_ip_def) (rule demo_engine_wan)
  moreover have "ntohl 0x320CA8C0 < 0xE0000000" by (simp add: word_eval)
  ultimately have "\<exists>prio' g'. disposition demo_down demo_reply ?s2 = Forwarded prio' g' \<and> length g' = length demo_reply \<and> take 6 g' = [2, 0, 0, 0, 0, 4] \<and>
    ld32 g' 30 = ld32 demo_query 26 \<and> ld16 g' (frame_l4_off demo_reply + 2) = ld16 demo_query (frame_l4_off demo_query)"
    by (intro flow_round_trip [OF demo_consumers(1-4) demo_shared(6,7,5) demo_shared(4) _ _ demo_l4_frames(1) demo_query_plain(1) _ demo_query_plain(3)
        _ p d, of ?s2 "[Tick]"])
      (simp_all only: demo_shared Shared.simps demo_query_plain demo_query_fields demo_reply_fields demo_l4_off demo_l4_frames ff n demo_engine_wan, simp_all add: demo_outbound demo_shared ff demo_reply_fields demo_engine_wan)
  then show ?thesis
    using p by (intro exI [of _ cu] exI [of _ s1] exI [of _ ?s2]) (auto simp: demo_l4_off demo_query_fields)
qed

end
