(* ===== verification/ParameterServices.thy ===== *)
theory ParameterServices
  imports Forward_Correct
begin

text \<open>
  The periodic services of \<^verbatim>\<open>ParameterServices.cpp\<close>: the collector of system telemetry, the tracker of the WAN
  address, the QoS controller and the small tickers.  The files of \<^verbatim>\<open>/proc\<close>, \<^verbatim>\<open>/sys\<close> and \<^verbatim>\<open>/etc\<close> are answers of the
  kernel, functions of the number of the read.
\<close>

section \<open>Reading system files\<close>

record Sys =
  reads :: nat
  file_answer :: "nat \<Rightarrow> string \<Rightarrow> string option"
  nprocessors :: "nat \<Rightarrow> int"

definition sys_read :: "string \<Rightarrow> nat \<Rightarrow> Sys \<Rightarrow> string option \<times> Sys" where
  "sys_read path n s = (map_option (take n) (file_answer s (reads s) path), s\<lparr>reads := Suc (reads s)\<rparr>)"

text \<open>The buffer as a C string.\<close>

definition readSysfd :: "string \<Rightarrow> nat \<Rightarrow> Sys \<Rightarrow> string \<times> Sys" where
  "readSysfd path out_size s =
     (case sys_read path (out_size - 1) s of
        (None, s) \<Rightarrow> ([], s)
      | (Some out, s) \<Rightarrow>
          if out \<noteq> [] then (c_str (if last out = CHR 0x0A then butlast out else out), s) else ([], s))"

section \<open>Scanning numbers\<close>

fun strstr :: "string \<Rightarrow> string \<Rightarrow> string option" where
  "strstr [] t = (if t = [] then Some [] else None)"
| "strstr (c # s) t = (if take (length t) (c # s) = t then Some (c # s) else strstr s t)"

text \<open>The conversion \<^verbatim>\<open>%lu\<close>: blanks, an optional sign, digits; out of range it saturates.\<close>

definition scan_ulong :: "string \<Rightarrow> (u64 \<times> string) option" where
  "scan_ulong s =
     (let s = dropWhile is_space s;
          neg = (s \<noteq> [] \<and> hd s = CHR ''-'');
          s = (if s \<noteq> [] \<and> (hd s = CHR ''-'' \<or> hd s = CHR ''+'') then tl s else s);
          ds = takeWhile is_digit s;
          v = (if dec_val ds < 2 ^ 64 then if neg then - of_nat (dec_val ds) else of_nat (dec_val ds) else 0xFFFFFFFFFFFFFFFF)
      in if ds = [] then None else Some (v, drop (length ds) s))"

fun scan_ulongs :: "nat \<Rightarrow> string \<Rightarrow> u64 list" where
  "scan_ulongs 0 s = []"
| "scan_ulongs (Suc n) s = (case scan_ulong s of None \<Rightarrow> [] | Some (v, s) \<Rightarrow> v # scan_ulongs n s)"

text \<open>\<^verbatim>\<open>atof\<close> on the plain decimal numbers these files hold.\<close>

definition atof :: "string \<Rightarrow> real" where
  "atof s =
     (let s = dropWhile is_space s;
          sg = (if s \<noteq> [] \<and> hd s = CHR ''-'' then -1 else 1);
          s = (if s \<noteq> [] \<and> (hd s = CHR ''-'' \<or> hd s = CHR ''+'') then tl s else s);
          ds = takeWhile is_digit s;
          r = drop (length ds) s;
          fs = (if r \<noteq> [] \<and> hd r = CHR ''.'' then takeWhile is_digit (tl r) else [])
      in sg * (real (dec_val ds) + real (dec_val fs) / 10 ^ length fs))"

section \<open>The telemetry collector\<close>

record TelemetryCollector =
  stat_total :: "nat \<Rightarrow> u64"
  stat_idle :: "nat \<Rightarrow> u64"

definition TelemetryCollector_init :: TelemetryCollector where
  "TelemetryCollector_init = \<lparr>stat_total = (\<lambda>_. 0), stat_idle = (\<lambda>_. 0)\<rparr>"

definition cpu_sample ::
  "nat \<Rightarrow> u64 list \<Rightarrow> TelemetryCollector \<Rightarrow> Telemetry \<Rightarrow> TelemetryCollector \<times> Telemetry" where
  "cpu_sample ci nums c t =
     (let total = sum_list nums;
          idle = nums ! 3;
          dt = total - stat_total c ci;
          di = idle - stat_idle c ci;
          pct = (if dt > 0 then sint (ucast (100 * (dt - di) div dt) :: u32) else 0)
      in (c\<lparr>stat_total := (stat_total c)(ci := total), stat_idle := (stat_idle c)(ci := idle)\<rparr>,
          t\<lparr>core_metrics := (core_metrics t)(ci := (core_metrics t ci)\<lparr>cpu_load_pct := pct\<rparr>)\<rparr>))"

fun cpu_loop :: "nat list \<Rightarrow> string \<Rightarrow> TelemetryCollector \<Rightarrow> Telemetry \<Rightarrow> TelemetryCollector \<times> Telemetry" where
  "cpu_loop [] p c t = (c, t)"
| "cpu_loop (ci # cores) p c t =
     (let tag = ''cpu'' @ dec ci @ '' '' in
      case strstr p tag of
        None \<Rightarrow> (c, t)
      | Some line \<Rightarrow>
          let nums = scan_ulongs 7 (drop (length tag) line);
              (c, t) = (if length nums = 7 then cpu_sample ci nums c t else (c, t))
          in cpu_loop cores p c t)"

definition refreshCpu :: "TelemetryCollector \<Rightarrow> Telemetry \<Rightarrow> Sys \<Rightarrow> TelemetryCollector \<times> Telemetry \<times> Sys" where
  "refreshCpu c t s =
     (let (sbuf, s) = readSysfd ''/proc/stat'' 1024 s in
      if sbuf = [] then (c, t, s)
      else
        let nproc = max 1 (nprocessors s (reads s));
            max_ci = nat (min nproc 4);
            (c, t) = cpu_loop [0..<max_ci] sbuf c t
        in (c, t, s))"

definition device_row :: "string \<Rightarrow> (u32 \<times> string) option" where
  "device_row line =
     (case scan_words [19, 7, 7, 19] (c_str line) of
        [ip_str, hw, flags, mac] \<Rightarrow>
          (case try_parse_ipv4 ip_str of
             None \<Rightarrow> None
           | Some ip \<Rightarrow> if flags \<noteq> ''0x0'' then Some (ip, take 17 mac) else None)
      | _ \<Rightarrow> None)"

function device_loop ::
  "string \<Rightarrow> nat \<Rightarrow> bool \<Rightarrow> (nat \<Rightarrow> DeviceEntry) \<Rightarrow> nat \<times> bool \<times> (nat \<Rightarrow> DeviceEntry)" where
  "device_loop line dcnt changed tbl =
     (if line = [] \<or> \<not> dcnt < MAX_TRACKED_DEVICES then (dcnt, changed, tbl)
      else
        case device_row line of
          None \<Rightarrow> device_loop (next_line line) dcnt changed tbl
        | Some (ip, mac) \<Rightarrow>
            let slot = tbl dcnt;
                (slot, changed) = (if dev_ip slot \<noteq> ip then (slot\<lparr>dev_ip := ip\<rparr>, True) else (slot, changed));
                (slot, changed) = (if dev_mac slot \<noteq> mac then (slot\<lparr>dev_mac := mac\<rparr>, True) else (slot, changed))
            in device_loop (next_line line) (dcnt + 1) changed (tbl(dcnt := slot)))"
  by pat_completeness auto
termination
  by (relation "measure (\<lambda>(l, d, c, t). length l)") (auto simp: length_next_line)

declare device_loop.simps [simp del]

definition refreshDevices :: "Telemetry \<Rightarrow> Sys \<Rightarrow> Telemetry \<times> Sys" where
  "refreshDevices t s =
     (case sys_read ''/proc/net/arp'' 4095 s of
        (None, s) \<Rightarrow> (t, s)
      | (Some buf, s) \<Rightarrow>
          if buf = [] then (t, s)
          else
            let prev_cnt = device_count t;
                (dcnt, changed, tbl) = device_loop (next_line buf) 0 False (device_table t);
                changed = (if of_nat dcnt \<noteq> prev_cnt then True else changed);
                t = t\<lparr>device_table := tbl, device_count := of_nat dcnt\<rparr>
            in (if changed then t\<lparr>device_table_revision := device_table_revision t + 1\<rparr> else t, s))"

definition collector_tick1Hz :: "TelemetryCollector \<Rightarrow> Telemetry \<Rightarrow> Sys \<Rightarrow> TelemetryCollector \<times> Telemetry \<times> Sys" where
  "collector_tick1Hz c t s =
     (let (tbuf, s) = readSysfd ''/sys/class/thermal/thermal_zone0/temp'' 16 s;
          t = (if tbuf \<noteq> [] then t\<lparr>cpu_temp_celsius := atof tbuf / 1000\<rparr> else t)
      in refreshCpu c t s)"

definition meminfo :: "string \<Rightarrow> string \<Rightarrow> u64" where
  "meminfo key mbuf =
     (case strstr mbuf key of
        None \<Rightarrow> 0
      | Some m \<Rightarrow> (case scan_ulong (drop (length key) m) of None \<Rightarrow> 0 | Some (v, _) \<Rightarrow> v))"

definition collector_tick5s :: "Telemetry \<Rightarrow> Sys \<Rightarrow> Telemetry \<times> Sys" where
  "collector_tick5s t s =
     (let (host, s) = readSysfd ''/etc/hostname'' 64 s;
          (kern, s) = readSysfd ''/proc/version'' 128 s;
          t = t\<lparr>sys_info := (sys_info t)\<lparr>hostname := host, kernel_short := kern\<rparr>\<rparr>;
          (ubuf, s) = readSysfd ''/proc/uptime'' 32 s;
          t = (if ubuf \<noteq> [] then t\<lparr>sys_info := (sys_info t)\<lparr>uptime_seconds := of_int \<lfloor>atof ubuf\<rfloor>\<rparr>\<rparr> else t);
          (mbuf, s) = readSysfd ''/proc/meminfo'' 512 s;
          t = (if mbuf \<noteq> [] then
                 t\<lparr>sys_info := (sys_info t)\<lparr>mem_total_kb := meminfo ''MemTotal:'' mbuf,
                                           mem_avail_kb := meminfo ''MemAvailable:'' mbuf\<rparr>\<rparr>
               else t)
      in refreshDevices t s)"

section \<open>The other services\<close>

definition wan_tracker_tick5s :: "Config \<Rightarrow> NatEngine \<Rightarrow> Net \<Rightarrow> NatEngine \<times> Net" where
  "wan_tracker_tick5s cfg nt k =
     (if \<not> enable_nat cfg then (nt, k)
      else
        let (s, k) = get_local_ip (g_iface_wan cfg) k in
        if s = [] then (nt, k)
        else case parse_ip_str s of
          Inl _ \<Rightarrow> (nt, k)
        | Inr e \<Rightarrow>
            let h = ntohl e in
            if h = 0 \<or> drop_bit 24 h = 127 then (nt, k)
            else if e = wan_ip_snapshot nt then (nt, k)
            else (set_wan_ip e nt, k))"

text \<open>The QoS controller works on the shared state and on the two base rates.\<close>

abbreviation upd_tel :: "(Telemetry \<Rightarrow> Telemetry) \<Rightarrow> Shared \<Rightarrow> Shared" where
  "upd_tel f s \<equiv> s\<lparr>sh_world := (sh_world s)\<lparr>tel := f (tel (sh_world s))\<rparr>\<rparr>"

definition qos_mode :: "Shared \<Rightarrow> Shared" where
  "qos_mode s =
     (let t = tel (sh_world s) in
      if mode_config_dirty t then
        let accel_on = acceleration_pending t in
        upd_tel (\<lambda>t. t\<lparr>mode_config_dirty := False, effective_acceleration := accel_on, effective_bridge_mode := \<not> accel_on\<rparr>)
          (s\<lparr>sh_cfg := (sh_cfg s)\<lparr>ENABLE_ACCELERATION := accel_on\<rparr>\<rparr>)
      else s)"

definition qos_tick1Hz :: "real \<times> real \<Rightarrow> Shared \<Rightarrow> (real \<times> real) \<times> Shared" where
  "qos_tick1Hz base s =
     (let s = qos_mode s; t = tel (sh_world s) in
      if qos_global_bw_dirty t then
        let dl = qos_global_dl_mbps_pending t;
            ul = qos_global_ul_mbps_pending t;
            s = upd_tel (\<lambda>t. t\<lparr>qos_global_bw_dirty := False, effective_qos_global_dl_mbps := dl, effective_qos_global_ul_mbps := ul\<rparr>) s;
            s = s\<lparr>sh_shapers := (sh_shapers s)(0 := set_rate_limit dl (sh_shapers s 0))\<rparr>;
            s = s\<lparr>sh_shapers := (sh_shapers s)(1 := set_rate_limit ul (sh_shapers s 1))\<rparr>
        in ((dl, ul), s)
      else (base, s))"

definition dhcp_tick1Hz :: "int \<Rightarrow> Shared \<Rightarrow> Shared option" where
  "dhcp_tick1Hz lan_fd s =
     do {
       (d, w) \<leftarrow> process_background_tasks lan_fd (sh_dhcp s) (sh_world s);
       Some (s\<lparr>sh_dhcp := d, sh_world := w\<rparr>)
     }"

definition ticker_tick1Hz :: "Shared \<Rightarrow> Shared" where
  "ticker_tick1Hz s = s\<lparr>sh_nat := tick (sh_nat s)\<rparr>"

end
