(* ===== verification/NetworkConfig.thy ===== *)
theory NetworkConfig
  imports ForwardingState Dhcp_Correct
begin

text \<open>
  \<^verbatim>\<open>NetworkConfig.cpp\<close>: bringing the LAN interface into the subnet of the DHCP pool.  The warnings on
  \<^verbatim>\<open>stderr\<close> are left out.
\<close>

record NetworkConfig =
  effective_lan_gateway :: u32

definition NetworkConfig_init :: NetworkConfig where
  "NetworkConfig_init = \<lparr>effective_lan_gateway = 0\<rparr>"

definition parse_kern :: "string \<Rightarrow> u32 option" where
  "parse_kern s = (if s = [] then None else case parse_ip_str s of Inl _ \<Rightarrow> None | Inr ip \<Rightarrow> Some ip)"

text \<open>The address of the LAN interface, and whether it is in the subnet of the pool.\<close>

definition kernel_gateway :: "Config \<Rightarrow> int \<Rightarrow> u32 \<Rightarrow> Net \<Rightarrow> bool \<times> u32 option \<times> Net" where
  "kernel_gateway cfg prefix anchor k =
     (let (kern_s, k) = get_local_ip (g_iface_lan cfg) k;
          kern = parse_kern kern_s
      in (case kern of None \<Rightarrow> False | Some ip \<Rightarrow> ipv4_in_subnet ip prefix anchor, kern, k))"

definition set_router :: "Config \<Rightarrow> int \<Rightarrow> Net \<Rightarrow> bool \<times> Net" where
  "set_router cfg prefix = set_iface_ipv4_and_prefix (g_iface_lan cfg) (ROUTER_IP cfg) prefix"

definition sync ::
  "Config \<Rightarrow> NetworkConfig \<Rightarrow> DhcpEngine \<Rightarrow> Net \<Rightarrow> (string + unit) \<times> NetworkConfig \<times> DhcpEngine \<times> Net" where
  "sync cfg nc dhcp k =
     (case parse_ip_str (DHCP_POOL_START cfg) of
        Inl e \<Rightarrow> (Inl (''DHCP_POOL_START: '' @ e), nc, dhcp, k)
      | Inr pool_lo \<Rightarrow>
     case parse_ip_str (DHCP_POOL_END cfg) of
        Inl e \<Rightarrow> (Inl (''DHCP_POOL_END: '' @ e), nc, dhcp, k)
      | Inr pool_hi \<Rightarrow>
     if ntohl pool_lo > ntohl pool_hi then (Inl ''DHCP pool start is after pool end'', nc, dhcp, k)
     else let prefix = infer_prefix_covering_pool pool_lo pool_hi in
     if prefix > 32 then (Inl ''invalid DHCP pool prefix derivation'', nc, dhcp, k)
     else case parse_ip_str (ROUTER_IP cfg) of
        Inl e \<Rightarrow> (Inl (''ROUTER_IP: '' @ e), nc, dhcp, k)
      | Inr router \<Rightarrow>
     let k = (if APPLY_ROUTER_IP_TO_LAN cfg then snd (set_router cfg prefix k) else k);
         (ok, kern, k) = kernel_gateway cfg prefix pool_lo k;
         r = (if ok then Inr (ok, kern, k)
              else if ipv4_in_subnet router prefix pool_lo then
                (case set_router cfg prefix k of
                   (False, k) \<Rightarrow> Inl (''set_iface ROUTER_IP: '' @ strerror k (calls k), k)
                 | (True, k) \<Rightarrow> Inr (kernel_gateway cfg prefix pool_lo k))
              else Inl (''ROUTER_IP is not in the DHCP pool subnet (derived /'' @ dec (nat prefix) @
                        ''); fix ROUTER_IP or DHCP_POOL_*'', k))
     in case r of
          Inl (e, k) \<Rightarrow> (Inl e, nc, dhcp, k)
        | Inr (ok, kern, k) \<Rightarrow>
            (case (ok, kern) of
               (True, Some ip) \<Rightarrow> (Inr (), nc\<lparr>effective_lan_gateway := ip\<rparr>, set_router_ip ip dhcp, k)
             | _ \<Rightarrow> (Inl (''IFACE_LAN has no IPv4 in the DHCP pool subnet; set APPLY_ROUTER_IP_TO_LAN=true '' @
                          ''with ROUTER_IP inside the pool subnet, or assign manually.''), nc, dhcp, k)))"

definition refresh_dhcp_router :: "Config \<Rightarrow> DhcpEngine \<Rightarrow> Net \<Rightarrow> DhcpEngine \<times> Net" where
  "refresh_dhcp_router cfg dhcp k =
     (let (s, k) = get_local_ip (g_iface_lan cfg) k in
      if s = [] then (dhcp, k)
      else case parse_ip_str s of
        Inl _ \<Rightarrow> (dhcp, k)
      | Inr ip \<Rightarrow> if ip \<noteq> router_ip_snapshot dhcp then (set_router_ip ip dhcp, k) else (dhcp, k))"

section \<open>Lemmas\<close>

text \<open>What the interface queries return when the kernel has an address.\<close>

lemma get_local_ip_some:
  "get_local_ip iface k =
     (if socket_answer k (calls k)
      then (case ifaddr_answer k (Suc (calls k)) (ifr_name iface) of
              None \<Rightarrow> ([], k\<lparr>calls := Suc (Suc (calls k))\<rparr>)
            | Some a \<Rightarrow> (ip_to_str a, k\<lparr>calls := Suc (Suc (calls k))\<rparr>))
      else ([], k\<lparr>calls := Suc (calls k)\<rparr>))"
  by (simp add: get_local_ip_def net_ask_def split: option.split)

lemma kernel_gateway_ok:
  assumes "kernel_gateway cfg prefix anchor k = (True, kern, k')"
  shows "\<exists>ip n. kern = Some ip \<and> ipv4_in_subnet ip prefix anchor \<and> ifaddr_answer k n (ifr_name (g_iface_lan cfg)) = Some ip"
proof (cases "ifaddr_answer k (Suc (calls k)) (ifr_name (g_iface_lan cfg))")
  case (Some a)
  then have "kern = Some a" "ipv4_in_subnet a prefix anchor"
    using assms by (simp_all add: kernel_gateway_def parse_kern_def get_local_ip_some parse_ip_to_str Let_def split: if_splits)
  then show ?thesis using Some by blast
qed (use assms in \<open>simp add: kernel_gateway_def parse_kern_def get_local_ip_some Let_def split: if_splits\<close>)

lemma same_net_set_router: "same_net k (snd (set_router cfg prefix k))"
  by (auto simp: set_router_def set_iface_ipv4_and_prefix_def net_ask_def net_set_def same_net_def Let_def
      split: bool.split option.split)

lemma same_net_kernel_gateway: "same_net k (snd (snd (kernel_gateway cfg prefix anchor k)))"
  using same_net_calls(3) [of k "g_iface_lan cfg"] by (auto simp: kernel_gateway_def Let_def split: prod.splits)


lemma subnet_sym: "p \<le> 32 \<Longrightarrow> 0 \<le> p \<Longrightarrow> ipv4_in_subnet a p c \<Longrightarrow> ipv4_in_subnet b p c \<Longrightarrow> ipv4_in_subnet a p b"
  by (simp add: ipv4_in_subnet_def Let_def split: if_splits)

text \<open>Every successful run ends with an address of the LAN interface in the subnet of the pool.\<close>

lemma sync_cases:
  assumes "sync cfg nc dhcp k = (r, nc', dhcp', k')"
  obtains (failed) e where "r = Inl e" "nc' = nc" "dhcp' = dhcp"
  | (synced) lo hi ip k1 prefix where "r = Inr ()" "parse_ip_str (DHCP_POOL_START cfg) = Inr lo" "parse_ip_str (DHCP_POOL_END cfg) = Inr hi"
      "ntohl lo \<le> ntohl hi" "prefix = infer_prefix_covering_pool lo hi" "same_net k k1"
      "kernel_gateway cfg prefix lo k1 = (True, Some ip, k')"
      "nc' = nc\<lparr>effective_lan_gateway := ip\<rparr>" "dhcp' = set_router_ip ip dhcp"
proof (cases "r")
  case (Inl e)
  then show thesis using assms
    by (intro failed [of e]) (auto simp: sync_def Let_def split: sum.splits if_splits prod.splits option.splits bool.splits)
next
  case (Inr u)
  obtain lo hi where lh: "parse_ip_str (DHCP_POOL_START cfg) = Inr lo" "parse_ip_str (DHCP_POOL_END cfg) = Inr hi" "\<not> ntohl lo > ntohl hi"
    using assms Inr by (auto simp: sync_def split: sum.splits if_splits)
  let ?p = "infer_prefix_covering_pool lo hi"
  define k0 where "k0 = (if APPLY_ROUTER_IP_TO_LAN cfg then snd (set_router cfg ?p k) else k)"
  obtain ok kern k1 where g: "kernel_gateway cfg ?p lo k0 = (ok, kern, k1)" by (rule prod_cases3)
  obtain set k2 where s: "set_router cfg ?p k1 = (set, k2)" by fastforce
  have n: "same_net k k0" "same_net k0 k1" "same_net k1 k2"
    using same_net_set_router [of k cfg ?p] same_net_set_router [of k1 cfg ?p] same_net_kernel_gateway [of k0 cfg ?p lo] g s
    by (simp_all add: k0_def)
  show thesis
    using assms Inr lh g s n
    by (intro synced [of lo hi ?p "if ok then k0 else k2" "effective_lan_gateway nc'"])
      (auto simp: sync_def k0_def [symmetric] Let_def not_less dest: same_net_trans split: sum.splits if_splits prod.splits option.splits bool.splits)
qed

text \<open>The gateway the DHCP server announces.  When the synchronisation succeeds, the announced router is an
  address the kernel reported for the LAN interface, and every address of the pool lies in its subnet, so clients
  can reach it; when it fails, neither the gateway nor the DHCP server has changed.\<close>

lemma sync_gateway:
  assumes "sync cfg nc dhcp k = (r, nc', dhcp', k')"
  shows "case r of
      Inl e \<Rightarrow> nc' = nc \<and> dhcp' = dhcp
    | Inr _ \<Rightarrow> \<exists>lo hi gw n. parse_ip_str (DHCP_POOL_START cfg) = Inr lo \<and> parse_ip_str (DHCP_POOL_END cfg) = Inr hi \<and>
        effective_lan_gateway nc' = gw \<and> dhcp' = dhcp\<lparr>router_ip := gw\<rparr> \<and>
        ifaddr_answer k n (ifr_name (g_iface_lan cfg)) = Some gw \<and>
        (\<forall>x. ntohl lo \<le> ntohl x \<and> ntohl x \<le> ntohl hi \<longrightarrow> ipv4_in_subnet x (infer_prefix_covering_pool lo hi) gw)"
  using assms
proof (cases rule: sync_cases)
  case (synced lo hi ip k1 prefix)
  obtain n where n: "ipv4_in_subnet ip prefix lo" "ifaddr_answer k1 n (ifr_name (g_iface_lan cfg)) = Some ip"
    using kernel_gateway_ok [OF synced(7)] by auto
  have c: "0 \<le> prefix" "prefix \<le> 32" "ntohl lo \<le> ntohl x \<and> ntohl x \<le> ntohl hi \<Longrightarrow> ipv4_in_subnet x prefix lo" for x
    using infer_prefix_covers [of lo hi prefix] synced(4,5) by (auto simp: word_le_nat_alt)
  have "ipv4_in_subnet x prefix ip" if "ntohl lo \<le> ntohl x \<and> ntohl x \<le> ntohl hi" for x
    using subnet_sym [OF c(2,1) c(3) [OF that] n(1)] .
  then show ?thesis using synced n by (auto simp: set_router_ip_def same_net_def)
qed simp


lemma demo_pool_text:
  "parse_ip_str ''192.168.12.50'' = Inr 0x320CA8C0" "parse_ip_str ''192.168.12.255'' = Inr 0xFF0CA8C0"
  "parse_ip_str ''192.168.12.1'' = Inr 0x010CA8C0"
  using parse_ip_to_str [of "0x320CA8C0"] parse_ip_to_str [of "0xFF0CA8C0"] parse_ip_to_str [of "0x010CA8C0"]
  by (simp_all add: ip_to_str_def dec.simps digit_char_eval)

lemma demo_pool_prefix: "infer_prefix_covering_pool 0x320CA8C0 0xFF0CA8C0 = 24"
  by (simp add: infer_prefix_covering_pool_def word_eval prefix_bits_numeral Let_def)

lemma demo_sync:
  assumes n: "same_net demo_net k"
  shows "fst (sync Config_defaults nc d k) = Inr ()"
proof -
  have "ipv4_in_subnet 0x010CA8C0 24 0x320CA8C0" by (simp add: ipv4_in_subnet_def word_eval)
  moreover have "\<not> ntohl 0x320CA8C0 > ntohl 0xFF0CA8C0" by (simp add: word_eval)
  moreover have "fst (kernel_gateway Config_defaults 24 0x320CA8C0 k) = True" "fst (snd (kernel_gateway Config_defaults 24 0x320CA8C0 k)) = Some 0x010CA8C0"
    if "same_net demo_net k" for k
    using that calculation by (simp_all add: kernel_gateway_def get_local_ip_some parse_kern_def parse_ip_to_str same_net_def demo_net_def Config_defaults_def Let_def ifr_name_def c_str_def ip_to_str_def dec.simps digit_char_eval demo_pool_text)
  ultimately show ?thesis
    using same_net_trans [OF n same_net_set_router [of k Config_defaults 24]]
    by (simp add: sync_def Config_defaults_def demo_pool_text demo_pool_prefix case_prod_unfold)
qed

end
