(* ===== verification/Services_Correct.thy ===== *)
theory Services_Correct
  imports ParameterServices NetworkConfig
begin

text \<open>
  What the periodic services do: the processor load from \<^verbatim>\<open>/proc/stat\<close>, the device table from
  \<^verbatim>\<open>/proc/net/arp\<close>, the settings the dashboard leaves for the QoS controller, and the WAN address.
\<close>

section \<open>The processor load\<close>

definition nums_text :: "u64 list \<Rightarrow> string" where
  "nums_text ns = concat (map (\<lambda>n. CHR '' '' # dec (unat n)) ns)"

text \<open>\<^verbatim>\<open>/proc/stat\<close> as the kernel prints it: the totals, a line per processor, and more.\<close>

definition cpu_line :: "nat \<Rightarrow> u64 list \<Rightarrow> string" where
  "cpu_line i ns = ''cpu'' @ dec i @ nums_text ns @ [CHR 0x0A]"

fun cpu_lines :: "nat \<Rightarrow> u64 list list \<Rightarrow> string" where
  "cpu_lines i [] = []"
| "cpu_lines i (ns # nss) = cpu_line i ns @ cpu_lines (Suc i) nss"

definition stat_head :: "u64 list \<Rightarrow> u64 list list \<Rightarrow> string" where
  "stat_head agg cpus = ''cpu '' @ nums_text agg @ [CHR 0x0A] @ cpu_lines 0 cpus"

lemma strstr_skip:
  assumes "c \<notin> set w"
  shows "strstr (w @ r) (c # t) = strstr r (c # t)"
  using assms by (induction w) auto

lemma nums_text_chars: "c \<in> set (nums_text ns) \<Longrightarrow> c = CHR '' '' \<or> is_digit c"
  by (auto simp: nums_text_def dec_digits split: if_splits)

lemma not_digit [simp]: "\<not> is_digit (CHR ''c'')" "\<not> is_digit (CHR '' '')" "\<not> is_digit (CHR 0x0A)" "\<not> is_digit (CHR 0x00)"
  "\<not> is_digit (CHR ''p'')" "\<not> is_digit (CHR ''u'')" "\<not> is_digit (CHR ''-'')" "\<not> is_digit (CHR ''+'')"
  by (simp_all add: is_digit_def)

lemma dec_digit: "i < 10 \<Longrightarrow> dec i = [digit_char i]"
  by (simp add: dec.simps)

lemma digit_char_inj: "i < 10 \<Longrightarrow> j < 10 \<Longrightarrow> digit_char i = digit_char j \<longleftrightarrow> i = j"
  by (metis digit_val_digit_char)

lemma no_c_tail: "CHR ''c'' \<notin> set (''pu'' @ dec i @ nums_text ns @ [CHR 0x0A])"
  using dec_digits [of "CHR ''c''" i] nums_text_chars [of "CHR ''c''" ns] by auto

lemma strstr_other_line:
  assumes "i < 10" "j < 10" "i \<noteq> j"
  shows "strstr (cpu_line i ns @ r) (''cpu'' @ dec j @ '' '') = strstr r (''cpu'' @ dec j @ '' '')"
proof -
  let ?w = "''pu'' @ dec i @ nums_text ns @ [CHR 0x0A]"
  have "cpu_line i ns @ r = CHR ''c'' # ?w @ r" by (simp add: cpu_line_def)
  moreover have "take (length (''cpu'' @ dec j @ '' '')) (CHR ''c'' # ?w @ r) \<noteq> ''cpu'' @ dec j @ '' ''"
    using assms by (simp add: dec_digit digit_char_inj)
  ultimately have "strstr (cpu_line i ns @ r) (''cpu'' @ dec j @ '' '') = strstr (?w @ r) (''cpu'' @ dec j @ '' '')"
    by (simp only: strstr.simps if_False)
  also have "\<dots> = strstr r (''cpu'' @ dec j @ '' '')"
    using strstr_skip [OF no_c_tail, of i ns r "''pu'' @ dec j @ '' ''"] by simp
  finally show ?thesis .
qed

lemma strstr_total_line:
  assumes "j < 10"
  shows "strstr (''cpu '' @ nums_text ns @ [CHR 0x0A] @ r) (''cpu'' @ dec j @ '' '') = strstr r (''cpu'' @ dec j @ '' '')"
proof -
  have n: "CHR '' '' \<noteq> digit_char j" using digit_char_digit [OF assms] by (metis not_digit(2))
  have "CHR ''c'' \<notin> set (''pu '' @ nums_text ns @ [CHR 0x0A])" using nums_text_chars [of "CHR ''c''" ns] by auto
  then have "strstr ((''pu '' @ nums_text ns @ [CHR 0x0A]) @ r) (CHR ''c'' # ''pu'' @ dec j @ '' '') = strstr r (CHR ''c'' # ''pu'' @ dec j @ '' '')"
    by (rule strstr_skip)
  then show ?thesis using n assms by (simp add: dec_digit)
qed

lemma nums_text_Cons: "nums_text (n # ns) = CHR '' '' # dec (unat n) @ nums_text ns"
  by (simp add: nums_text_def)

lemma strstr_own_line:
  assumes "j < 10" "ns \<noteq> []"
  shows "strstr (cpu_line j ns @ r) (''cpu'' @ dec j @ '' '') = Some (cpu_line j ns @ r)"
  using assms by (cases ns) (simp_all add: cpu_line_def dec_digit nums_text_Cons)

lemma strstr_cpu_lines:
  assumes "i \<le> j" "j < i + length cpus" "j < 10" "\<forall>ns \<in> set cpus. ns \<noteq> []"
  shows "\<exists>r'. strstr (cpu_lines i cpus @ r) (''cpu'' @ dec j @ '' '') = Some (cpu_line j (cpus ! (j - i)) @ r')"
  using assms
proof (induction cpus arbitrary: i)
  case (Cons ns cpus)
  show ?case
  proof (cases "i = j")
    case True
    then show ?thesis using Cons.prems strstr_own_line [of j ns] by auto
  next
    case False
    then have "\<exists>r'. strstr (cpu_lines (Suc i) cpus @ r) (''cpu'' @ dec j @ '' '') = Some (cpu_line j (cpus ! (j - Suc i)) @ r')"
      using Cons.prems by (intro Cons.IH) auto
    moreover have "(ns # cpus) ! (j - i) = cpus ! (j - Suc i)" using False Cons.prems(1) by (simp add: nth_Cons')
    ultimately show ?thesis using False Cons.prems strstr_other_line [of i j ns] by simp
  qed
qed simp

text \<open>Scanning the numbers of a line.\<close>

lemma is_space_not_digit: "is_digit c \<Longrightarrow> \<not> is_space c"
  by (auto simp: is_digit_def is_space_def)

lemma scan_ulong_dec:
  assumes "r = [] \<or> \<not> is_digit (hd r)"
  shows "scan_ulong (dec (unat (n :: u64)) @ r) = Some (n, r)"
proof -
  obtain d ds where d: "dec (unat n) = d # ds" using dec_nonempty [of "unat n"] by (cases "dec (unat n)") auto
  have dg: "is_digit d" "\<forall>x \<in> set (dec (unat n)). is_digit x" using dec_digits [of _ "unat n"] d by auto
  have t: "takeWhile is_digit (dec (unat n) @ r) = dec (unat n)"
    using dg(2) assms by (cases r) (auto simp: takeWhile_append takeWhile_eq_all_conv)
  have sp: "dropWhile is_space (dec (unat n) @ r) = dec (unat n) @ r" using is_space_not_digit [OF dg(1)] d by simp
  have sg: "hd (dec (unat n) @ r) \<noteq> CHR ''-''" "hd (dec (unat n) @ r) \<noteq> CHR ''+''" using dg(1) d by auto
  have "unat n < 2 ^ 64" using unsigned_less [of n] by simp
  moreover have "dec (unat n) @ r \<noteq> []" "dec (unat n) \<noteq> []" by (simp_all add: d)
  ultimately show ?thesis using sg unfolding scan_ulong_def sp Let_def by (simp add: t)
qed

lemma scan_ulong_blank: "scan_ulong (CHR '' '' # s) = scan_ulong s"
  by (simp add: scan_ulong_def is_space_def)

lemma scan_ulongs_text:
  assumes "k \<le> length ns" "r = [] \<or> \<not> is_digit (hd r)"
  shows "scan_ulongs k (nums_text ns @ r) = take k ns"
  using assms
proof (induction k arbitrary: ns)
  case (Suc k)
  then obtain n ms where ns: "ns = n # ms" by (cases ns) auto
  have "nums_text ms @ r = [] \<or> \<not> is_digit (hd (nums_text ms @ r))"
    using Suc.prems(2) by (cases ms) (auto simp: nums_text_def)
  then show ?case using Suc ns by (simp add: nums_text_Cons scan_ulong_blank scan_ulong_dec)
qed simp

lemma scan_own_line:
  assumes "j < 10" "7 \<le> length ns"
  shows "scan_ulongs 7 (drop (length (''cpu'' @ dec j @ '' '')) (cpu_line j ns @ r)) = take 7 ns"
proof -
  obtain n ms where ns: "ns = n # ms" using assms(2) by (cases ns) auto
  have "drop (length (''cpu'' @ dec j @ '' '')) (cpu_line j ns @ r) = dec (unat n) @ nums_text ms @ [CHR 0x0A] @ r"
    using assms(1) by (simp add: cpu_line_def dec_digit ns nums_text_Cons)
  moreover have "scan_ulongs 7 (CHR '' '' # s) = scan_ulongs 7 s" for s
    by (simp add: numeral_eq_Suc scan_ulong_blank)
  ultimately show ?thesis
    using scan_ulongs_text [of 7 ns "[CHR 0x0A] @ r"] assms(2) by (simp add: ns nums_text_Cons)
qed


text \<open>One sample: the share of time the processor was busy since the last one.\<close>

definition total7 :: "u64 list \<Rightarrow> nat" where
  "total7 ns = sum_list (map unat (take 7 ns))"

definition busy_pct :: "nat \<Rightarrow> nat \<Rightarrow> nat" where
  "busy_pct dt di = (if dt = 0 then 0 else 100 * (dt - di) div dt)"

lemma busy_pct_le: "busy_pct dt di \<le> 100"
  using div_le_mono [of "100 * (dt - di)" "100 * dt" dt] by (auto simp: busy_pct_def split: if_splits)

definition plausible :: "TelemetryCollector \<Rightarrow> nat \<Rightarrow> u64 list \<Rightarrow> bool" where
  "plausible c ci ns \<longleftrightarrow> 7 \<le> length ns \<and> 100 * total7 ns < 2 ^ 64 \<and> unat (stat_total c ci) \<le> total7 ns \<and>
     unat (stat_idle c ci) \<le> unat (ns ! 3) \<and>
     unat (ns ! 3) - unat (stat_idle c ci) \<le> total7 ns - unat (stat_total c ci)"

lemma unat_sum_list: "sum_list (map unat (ns :: u64 list)) < 2 ^ 64 \<Longrightarrow> unat (sum_list ns) = sum_list (map unat ns)"
proof (induction ns)
  case (Cons a ns)
  then show ?case using unat_add_lem [of a "sum_list ns"] by simp
qed simp

lemma unat_u64_diff: "unat (b :: u64) \<le> unat a \<Longrightarrow> unat (a - b) = unat a - unat b"
  by (simp add: unat_sub word_le_nat_alt)

lemma sint_small:
  assumes "unat (v :: u64) \<le> 100"
  shows "sint (ucast v :: u32) = int (unat v)"
proof -
  have "uint v = int (unat v)" by simp
  then have "uint v \<le> 100" using assms by linarith
  then have "uint (ucast v :: u32) = uint v" by (simp add: unsigned_ucast_eq take_bit_int_eq_self)
  moreover have "signed_take_bit 31 (uint v) = uint v"
    using \<open>uint v \<le> 100\<close> order_trans [OF _ uint_ge_0, of "- (2 ^ 31)" v] by (intro signed_take_bit_int_eq_self) simp_all
  ultimately show ?thesis by (simp add: sint_uint)
qed

lemma cpu_sample_plausible:
  assumes "plausible c ci ns"
  shows "\<exists>c' t'. cpu_sample ci (take 7 ns) c t = (c', t') \<and>
    cpu_load_pct (core_metrics t' ci) = int (busy_pct (total7 ns - unat (stat_total c ci)) (unat (ns ! 3) - unat (stat_idle c ci))) \<and>
    (\<forall>j. j \<noteq> ci \<longrightarrow> stat_total c' j = stat_total c j \<and> stat_idle c' j = stat_idle c j \<and> core_metrics t' j = core_metrics t j)"
proof -
  define T where "T = sum_list (take 7 ns)"
  define dt where "dt = T - stat_total c ci"
  define di where "di = ns ! 3 - stat_idle c ci"
  have T: "unat T = total7 ns" using assms unat_sum_list [of "take 7 ns"] by (simp add: plausible_def total7_def T_def take_map)
  have udt: "unat dt = total7 ns - unat (stat_total c ci)" using assms T unat_u64_diff [of "stat_total c ci" T] by (simp add: plausible_def dt_def)
  have udi: "unat di = unat (ns ! 3) - unat (stat_idle c ci)" using assms unat_u64_diff by (simp add: plausible_def di_def)
  have busy: "unat (dt - di) = unat dt - unat di" using assms by (intro unat_u64_diff) (simp add: udt udi plausible_def)
  have le: "100 * unat dt < 2 ^ 64"
    using assms le_less_trans [OF mult_le_mono2 [OF diff_le_self [of "total7 ns" "unat (stat_total c ci)"], of 100]] by (simp only: udt plausible_def)
  have "unat (100 * (dt - di)) = 100 * (unat dt - unat di)"
    using le busy by (subst unat_mult_lem [THEN iffD1]) auto
  then have pct: "unat (100 * (dt - di) div dt) = 100 * (unat dt - unat di) div unat dt" by (simp add: unat_div)
  define V where "V = 100 * (dt - di) div dt"
  have v: "unat V = busy_pct (unat dt) (unat di)" unfolding V_def pct busy_pct_def by simp
  have "sint (ucast V :: u32) = int (unat V)" using busy_pct_le [of "unat dt" "unat di"] by (intro sint_small) (simp add: v)
  moreover have "dt = 0 \<Longrightarrow> busy_pct (unat dt) (unat di) = 0" by (simp add: busy_pct_def)
  moreover have "cpu_sample ci (take 7 ns) c t =
      (c\<lparr>stat_total := (stat_total c)(ci := T), stat_idle := (stat_idle c)(ci := ns ! 3)\<rparr>,
       t\<lparr>core_metrics := (core_metrics t)(ci := (core_metrics t ci)\<lparr>cpu_load_pct := if dt > 0 then sint (ucast V :: u32) else 0\<rparr>)\<rparr>)"
    unfolding cpu_sample_def V_def dt_def di_def T_def Let_def by simp
  ultimately show ?thesis using udt udi by (auto simp: v word_neq_0_conv [symmetric])
qed


definition load_of :: "TelemetryCollector \<Rightarrow> nat \<Rightarrow> u64 list \<Rightarrow> nat" where
  "load_of c ci ns = busy_pct (total7 ns - unat (stat_total c ci)) (unat (ns ! 3) - unat (stat_idle c ci))"

lemma cpu_loop_loads:
  assumes "distinct cores" "\<forall>ci \<in> set cores. ci < length cpus \<and> ci < 10 \<and> plausible c ci (cpus ! ci)" "\<forall>ns \<in> set cpus. ns \<noteq> []"
  shows "\<exists>c' t'. cpu_loop cores (stat_head agg cpus @ r) c t = (c', t') \<and>
    (\<forall>ci \<in> set cores. cpu_load_pct (core_metrics t' ci) = int (load_of c ci (cpus ! ci))) \<and>
    (\<forall>j. j \<notin> set cores \<longrightarrow> core_metrics t' j = core_metrics t j)"
  using assms(1,2)
proof (induction cores arbitrary: c t)
  case (Cons ci cores)
  have ci: "ci < length cpus" "ci < 10" "plausible c ci (cpus ! ci)" using Cons.prems by auto
  obtain r' where r': "strstr (cpu_lines 0 cpus @ r) (''cpu'' @ dec ci @ '' '') = Some (cpu_line ci (cpus ! ci) @ r')"
    using strstr_cpu_lines [of 0 ci cpus r] ci assms(3) by auto
  have find: "strstr (stat_head agg cpus @ r) (''cpu'' @ dec ci @ '' '') = Some (cpu_line ci (cpus ! ci) @ r')"
    unfolding stat_head_def append_assoc strstr_total_line [OF ci(2)] by (rule r')
  have scan: "scan_ulongs 7 (drop (length (''cpu'' @ dec ci @ '' '')) (cpu_line ci (cpus ! ci) @ r')) = take 7 (cpus ! ci)"
    using ci by (intro scan_own_line) (simp_all add: plausible_def)
  obtain c1 t1 where s: "cpu_sample ci (take 7 (cpus ! ci)) c t = (c1, t1)" "cpu_load_pct (core_metrics t1 ci) = int (load_of c ci (cpus ! ci))"
    "\<And>j. j \<noteq> ci \<Longrightarrow> stat_total c1 j = stat_total c j \<and> stat_idle c1 j = stat_idle c j \<and> core_metrics t1 j = core_metrics t j"
    using cpu_sample_plausible [OF ci(3), of t] unfolding load_of_def by blast
  have step: "cpu_loop (ci # cores) (stat_head agg cpus @ r) c t = cpu_loop cores (stat_head agg cpus @ r) c1 t1"
    using ci(3) by (simp only: cpu_loop.simps find scan s(1) Let_def option.case split: if_split) (simp add: plausible_def)
  have same: "j \<noteq> ci \<Longrightarrow> plausible c1 j ns = plausible c j ns \<and> load_of c1 j ns = load_of c j ns" for j ns
    using s(3) by (simp add: plausible_def load_of_def)
  have neq: "j \<noteq> ci" if "j \<in> set cores" for j using that Cons.prems(1) by auto
  then have "\<forall>j \<in> set cores. j < length cpus \<and> j < 10 \<and> plausible c1 j (cpus ! j)" using Cons.prems(2) same by auto
  then obtain c' t' where "cpu_loop cores (stat_head agg cpus @ r) c1 t1 = (c', t')"
    "\<forall>j \<in> set cores. cpu_load_pct (core_metrics t' j) = int (load_of c1 j (cpus ! j))" "\<forall>j. j \<notin> set cores \<longrightarrow> core_metrics t' j = core_metrics t1 j"
    using Cons.IH [of c1 t1] Cons.prems(1) by auto
  then show ?case unfolding step using s(2,3) same neq Cons.prems(1) by auto
qed simp

lemma stat_head_plain: "CHR 0x00 \<notin> set (stat_head agg cpus)"
proof -
  have n: "CHR 0x00 \<notin> set (nums_text ns)" for ns using nums_text_chars [of "CHR 0x00" ns] by auto
  have d: "CHR 0x00 \<notin> set (dec i)" for i using dec_digits [of "CHR 0x00" i] by auto
  have "CHR 0x00 \<notin> set (cpu_lines i cpus)" for i
    by (induction i cpus rule: cpu_lines.induct) (use n d in \<open>auto simp: cpu_line_def\<close>)
  then show ?thesis using n by (simp add: stat_head_def)
qed

text \<open>Only the end of the buffer is touched.\<close>

lemma readSysfd_head:
  assumes "file_answer s (reads s) path = Some (h @ r)" "r \<noteq> []" "length h < n - 1" "CHR 0x00 \<notin> set h"
  shows "\<exists>r'. readSysfd path n s = (h @ r', s\<lparr>reads := Suc (reads s)\<rparr>)"
proof -
  define q where "q = take (n - 1 - length h) r"
  have q: "q \<noteq> []" "take (n - 1) (h @ r) = h @ q" using assms(2,3) by (simp_all add: q_def)
  then have "\<exists>q'. (if last (h @ q) = CHR 0x0A then butlast (h @ q) else h @ q) = h @ q'" by (auto simp: butlast_append)
  then obtain q' where "(if last (h @ q) = CHR 0x0A then butlast (h @ q) else h @ q) = h @ q'" ..
  then show ?thesis using q assms(1) c_str_append [OF assms(4)] by (simp add: readSysfd_def sys_read_def)
qed

text \<open>The processor load.  From \<^verbatim>\<open>/proc/stat\<close> as the kernel prints it, with counters that do not run
  backwards, one refresh stores for every processor (at most four) the percentage of time it was busy since the last
  refresh, a number from 0 to 100, and touches no other processor.\<close>

theorem cpu_load_percent:
  assumes "file_answer s (reads s) ''/proc/stat'' = Some (stat_head agg cpus @ r)" "r \<noteq> []" "length (stat_head agg cpus) < 1023"
    and "m = nat (min (max 1 (nprocessors s (Suc (reads s)))) 4)" "m \<le> length cpus" "\<forall>ns \<in> set cpus. ns \<noteq> []"
    and "\<forall>ci < m. plausible c ci (cpus ! ci)"
  shows "\<exists>c' t' s'. refreshCpu c t s = (c', t', s') \<and>
    (\<forall>ci < m. cpu_load_pct (core_metrics t' ci) =
       int (busy_pct (total7 (cpus ! ci) - unat (stat_total c ci)) (unat (cpus ! ci ! 3) - unat (stat_idle c ci))) \<and>
       0 \<le> cpu_load_pct (core_metrics t' ci) \<and> cpu_load_pct (core_metrics t' ci) \<le> 100) \<and>
    (\<forall>j \<ge> m. core_metrics t' j = core_metrics t j)"
proof -
  obtain r' where rd: "readSysfd ''/proc/stat'' 1024 s = (stat_head agg cpus @ r', s\<lparr>reads := Suc (reads s)\<rparr>)"
    using readSysfd_head [OF assms(1,2) _ stat_head_plain, of 1024] assms(3) by auto
  have "m \<le> 4" using assms(4) by auto
  then have "\<forall>ci \<in> set [0..<m]. ci < length cpus \<and> ci < 10 \<and> plausible c ci (cpus ! ci)" using assms(5,7) by auto
  then obtain c' t' where l: "cpu_loop [0..<m] (stat_head agg cpus @ r') c t = (c', t')"
    "\<forall>ci \<in> set [0..<m]. cpu_load_pct (core_metrics t' ci) = int (load_of c ci (cpus ! ci))"
    "\<forall>j. j \<notin> set [0..<m] \<longrightarrow> core_metrics t' j = core_metrics t j"
    using cpu_loop_loads [OF distinct_upt _ assms(6), of 0 m c agg r' t] by auto
  have "refreshCpu c t s = (c', t', s\<lparr>reads := Suc (reads s)\<rparr>)"
    using l(1) by (simp add: refreshCpu_def rd assms(4) Let_def) (simp add: stat_head_def)
  then show ?thesis using l(2,3) busy_pct_le by (auto simp: load_of_def)
qed

definition demo_sys :: Sys where
  "demo_sys = \<lparr>reads = 0, file_answer = (\<lambda>_ path. if path = ''/proc/stat''
     then Some (stat_head [30, 0, 0, 70, 0, 0, 0] [[30, 0, 0, 70, 0, 0, 0, 0]] @ ''intr 1'') else None), nprocessors = (\<lambda>_. 1)\<rparr>"

theorem cpu_load_percent_witness:
  "\<exists>c' t' s'. refreshCpu TelemetryCollector_init Telemetry_init demo_sys = (c', t', s') \<and> cpu_load_pct (core_metrics t' 0) = 30"
proof -
  have len: "length (stat_head [30, 0, 0, 70, 0, 0, 0] [[30, 0, 0, 70, 0, 0, 0, 0]]) < 1023"
    by (simp add: stat_head_def cpu_line_def nums_text_def dec.simps)
  have pl: "plausible TelemetryCollector_init 0 [30, 0, 0, 70, 0, 0, 0, 0]"
    by (simp add: plausible_def TelemetryCollector_init_def total7_def)
  have f: "file_answer demo_sys (reads demo_sys) ''/proc/stat'' =
      Some (stat_head [30, 0, 0, 70, 0, 0, 0] [[30, 0, 0, 70, 0, 0, 0, 0]] @ ''intr 1'')"
    "1 = nat (min (max 1 (nprocessors demo_sys (Suc (reads demo_sys)))) 4)"
    by (simp_all add: demo_sys_def)
  show ?thesis
    using cpu_load_percent [OF f(1) _ len f(2), of TelemetryCollector_init Telemetry_init] pl
    by (auto simp: busy_pct_def total7_def TelemetryCollector_init_def)
qed

section \<open>The table of devices\<close>

definition device_of :: "KernelArpEntry \<Rightarrow> DeviceEntry" where
  "device_of e = \<lparr>dev_ip = ent_ip e, dev_mac = mac_text (ent_mac e)\<rparr>"

definition arp_devices :: "KernelArpEntry list \<Rightarrow> DeviceEntry list" where
  "arp_devices es = map device_of (filter (\<lambda>e. ent_flags e \<noteq> 0) es)"

lemma device_row_line:
  assumes "entry_ok e"
  shows "device_row (arp_line e @ r) = (if ent_flags e = 0 then None else Some (ent_ip e, mac_text (ent_mac e)))"
proof -
  have f: "ent_flags e < 16" and m: "length (ent_mac e) = 6" using assms by (auto simp: entry_ok_def)
  have c: "c_str (arp_line e @ r) = arp_line e @ c_str r" using arp_line_plain(1) [OF assms] by (rule c_str_append)
  have w: "scan_words [19, 7, 7, 19] (arp_line e @ c_str r) =
    [ip_to_str (ent_ip e), ''0x1'', ''0x'' @ [hex_char (ent_flags e)], mac_text (ent_mac e)]"
    by (rule arp_line_words [OF assms]) simp
  have p: "try_parse_ipv4 (ip_to_str (ent_ip e)) = Some (ent_ip e)"
    by (simp add: try_parse_ipv4_def inet_pton_def ip_to_str_no_nul pton_ip_to_str)
  have "length (mac_text (ent_mac e)) = 17" using m length_mac_text [of "ent_mac e"] by (cases "ent_mac e") auto
  then show ?thesis unfolding device_row_def c w using hex_char_props(7) [OF f] by (simp add: p)
qed

text \<open>The loop writes the rows behind the ones it has and notes whether a slot differed.\<close>

lemma device_loop_text:
  assumes "\<forall>e \<in> set es. entry_ok e" "rows = take (64 - d) (arp_devices es)" "d \<le> 64"
  shows "device_loop (concat (map arp_line es)) d ch tbl =
    (d + length rows, ch \<or> (\<exists>i < length rows. tbl (d + i) \<noteq> rows ! i),
     \<lambda>i. if d \<le> i \<and> i < d + length rows then rows ! (i - d) else tbl i)"
  using assms
proof (induction es arbitrary: d ch tbl rows)
  case Nil
  then show ?case by (subst device_loop.simps) (auto simp: arp_devices_def intro!: ext)
next
  case (Cons e es)
  have ok: "entry_ok e" using Cons.prems by simp
  have ne: "arp_line e @ concat (map arp_line es) \<noteq> []" by (simp add: arp_line_def)
  have nl: "next_line (arp_line e @ concat (map arp_line es)) = concat (map arp_line es)"
    using next_line_append [OF arp_line_plain(2) [OF ok], of "concat (map arp_line es)"] arp_line_plain(3) [OF ok] by simp
  let ?dev = "device_of e"
  obtain sip smac where slot: "tbl d = \<lparr>dev_ip = sip, dev_mac = smac\<rparr>" by (cases "tbl d")
  have step: "device_loop (arp_line e @ concat (map arp_line es)) d ch tbl =
      (if \<not> d < 64 then (d, ch, tbl) else if ent_flags e = 0 then device_loop (concat (map arp_line es)) d ch tbl
       else device_loop (concat (map arp_line es)) (d + 1) (ch \<or> tbl d \<noteq> ?dev) (tbl(d := ?dev)))"
    using ne slot by (subst device_loop.simps)
      (simp add: device_row_line [OF ok] nl Let_def MAX_TRACKED_DEVICES_def device_of_def fun_upd_idem del: append_is_Nil_conv)
  show ?case
  proof (cases "d < 64 \<and> ent_flags e \<noteq> 0")
    case False
    then consider "d = 64" | "d < 64" "ent_flags e = 0" using Cons.prems(3) by fastforce
    then show ?thesis
    proof cases
      case 1
      then show ?thesis using step Cons.prems(2) by (auto intro!: ext)
    next
      case 2
      then have "arp_devices (e # es) = arp_devices es" by (simp add: arp_devices_def)
      then have "rows = take (64 - d) (arp_devices es)" using Cons.prems(2) by simp
      from Cons.IH [OF _ this, of ch tbl] show ?thesis using 2 Cons.prems by (simp only: concat.simps list.map step) simp
    qed
  next
    case True
    let ?rest = "take (64 - (d + 1)) (arp_devices es)"
    have "64 - d = Suc (64 - (d + 1))" using True by linarith
    then have r: "rows = ?dev # ?rest" using Cons.prems(2) True by (simp only: arp_devices_def filter.simps list.map take_Suc_Cons simp_thms if_True)
    have IH: "device_loop (concat (map arp_line es)) (d + 1) (ch \<or> tbl d \<noteq> ?dev) (tbl(d := ?dev)) =
      (d + 1 + length ?rest, (ch \<or> tbl d \<noteq> ?dev) \<or> (\<exists>i < length ?rest. (tbl(d := ?dev)) (d + 1 + i) \<noteq> ?rest ! i),
       \<lambda>i. if d + 1 \<le> i \<and> i < d + 1 + length ?rest then ?rest ! (i - (d + 1)) else (tbl(d := ?dev)) i)"
      using Cons.prems True by (intro Cons.IH) auto
    have 1: "(\<exists>i < length rows. tbl (d + i) \<noteq> rows ! i) \<longleftrightarrow> tbl d \<noteq> ?dev \<or> (\<exists>i < length ?rest. tbl (d + 1 + i) \<noteq> ?rest ! i)"
      unfolding r by (auto simp: less_Suc_eq_0_disj)
    have 2: "(\<lambda>i. if d + 1 \<le> i \<and> i < d + 1 + length ?rest then ?rest ! (i - (d + 1)) else (tbl(d := ?dev)) i) =
        (\<lambda>i. if d \<le> i \<and> i < d + length rows then rows ! (i - d) else tbl i)"
      unfolding r by (rule ext) (auto simp: nth_Cons')
    show ?thesis using True by (simp only: concat.simps list.map step IH 1 2 [symmetric]) (auto simp: r)
  qed
qed


definition shown_devices :: "Telemetry \<Rightarrow> DeviceEntry list" where
  "shown_devices t = map (device_table t) [0..<unat (device_count t)]"



section \<open>Settings from the dashboard\<close>

text \<open>Settings take effect.  One tick of the QoS controller clears both change flags; a pending mode becomes the
  effective one, with bridging exactly when acceleration is off; pending bandwidths become the base rates, the reported
  rates and the rate of both token buckets at their next refill; without a change nothing is touched.\<close>

theorem qos_settings_applied:
  assumes "qos_tick1Hz base s = (base', s')" "t = tel (sh_world s)" "t' = tel (sh_world s')"
    and "dl = qos_global_dl_mbps_pending t" "ul = qos_global_ul_mbps_pending t"
  shows "\<not> mode_config_dirty t' \<and> \<not> qos_global_bw_dirty t' \<and>
    (if mode_config_dirty t
     then effective_acceleration t' = acceleration_pending t \<and> effective_bridge_mode t' = (\<not> acceleration_pending t) \<and>
       sh_cfg s' = (sh_cfg s)\<lparr>ENABLE_ACCELERATION := acceleration_pending t\<rparr>
     else effective_acceleration t' = effective_acceleration t \<and> effective_bridge_mode t' = effective_bridge_mode t \<and> sh_cfg s' = sh_cfg s) \<and>
    (if qos_global_bw_dirty t
     then base' = (dl, ul) \<and> effective_qos_global_dl_mbps t' = dl \<and> effective_qos_global_ul_mbps t' = ul \<and>
       (0 \<le> dl \<longrightarrow> (\<forall>w. rate_bytes_per_sec (fst (refill (bucket (sh_shapers s' 0)) w)) = dl * 125000)) \<and>
       (0 \<le> ul \<longrightarrow> (\<forall>w. rate_bytes_per_sec (fst (refill (bucket (sh_shapers s' 1)) w)) = ul * 125000))
     else base' = base \<and> sh_shapers s' = sh_shapers s)"
proof -
  have rate: "0 \<le> l \<Longrightarrow> rate_bytes_per_sec (fst (refill (bucket (set_rate_limit l sh)) w)) = l * 125000" for l sh w
    by (auto simp: refill_def set_rate_limit_def set_rate_def apply_new_rate_def steady_now_def Let_def)
  show ?thesis
    using assms by (auto simp: qos_tick1Hz_def qos_mode_def Let_def rate split: if_splits)
qed

theorem qos_settings_applied_witness:
  "effective_bridge_mode (tel (sh_world (snd (qos_tick1Hz (500, 50)
     (upd_tel (\<lambda>t. t\<lparr>mode_config_dirty := True, acceleration_pending := False\<rparr>) demo_shared)))))"
  using qos_settings_applied [OF prod.collapse [symmetric] refl refl refl refl, of "(500, 50)"
    "upd_tel (\<lambda>t. t\<lparr>mode_config_dirty := True, acceleration_pending := False\<rparr>) demo_shared"]
  by simp

text \<open>The WAN address NAT uses after a tick of the tracker is the old one or one the kernel reported, and then neither zero nor
  a loopback address.\<close>

lemma wan_tracker_address:
  assumes "wan_tracker_tick5s cfg nt k = (nt', k')"
  shows "nt' = nt \<or> enable_nat cfg \<and> (\<exists>ip n. nt' = set_wan_ip ip nt \<and> \<not> is_invalid_nat_wan ip \<and>
    ifaddr_answer k n (ifr_name (g_iface_wan cfg)) = Some ip)"
proof (cases "ifaddr_answer k (Suc (calls k)) (ifr_name (g_iface_wan cfg))")
  case None
  then show ?thesis using assms by (auto simp: wan_tracker_tick5s_def get_local_ip_some Let_def split: if_splits)
next
  case (Some ip)
  have "ip = 0 \<Longrightarrow> ntohl ip = 0" by (simp add: word_eval)
  then show ?thesis
    using assms Some
    by (auto simp: wan_tracker_tick5s_def get_local_ip_some parse_ip_to_str is_invalid_nat_wan_def Let_def
        split: if_splits)
qed

end
