(* ===== verification/ControlPlane.thy ===== *)
theory ControlPlane
  imports Eventfd Services_Correct
begin

text \<open>
  \<^verbatim>\<open>ControlPlane.cpp\<close>: six service threads, each a loop that waits for its period and then runs its tick, and the
  thread that applies DHCP settings when the dashboard asks for it.  A thread is a program counter; one step is one
  access to what the threads share (the running flag, the two \<^verbatim>\<open>eventfd\<close>s, the engines).  \<^verbatim>\<open>poll\<close> may time out, fail or be
  interrupted at any moment.  Thread affinity and the messages on \<^verbatim>\<open>stderr\<close> are left out.
\<close>

section \<open>State\<close>

text \<open>What the services work on.\<close>

record Plane =
  pl_shared :: Shared
  pl_net :: Net
  pl_sys :: Sys
  pl_collector :: TelemetryCollector
  pl_netcfg :: NetworkConfig
  pl_base :: "real \<times> real"
  pl_lan_fd :: int
  pl_tick5 :: "nat \<Rightarrow> u64"
  pl_save_error :: "string option"
  pl_saved :: "string option"

datatype svc_pc = S_loop | S_poll | S_read | S_check | S_tick | S_done

datatype ev_pc = E_loop | E_poll | E_read_stop | E_read_cfg | E_check | E_apply | E_done

datatype main_pc = M_run | M_wake | M_join | M_stopped

record ControlPlane =
  running :: bool
  watchdog_stop_efd :: "nat option"
  dhcp_cfg_efd :: "nat option"
  service_threads :: "nat \<Rightarrow> svc_pc"
  control_event_thread :: ev_pc
  main_thread :: main_pc
  plane :: Plane

definition WATCHDOG_SERVICE_COUNT :: nat where
  "WATCHDOG_SERVICE_COUNT = 6"

definition ControlPlane_new :: "Plane \<Rightarrow> ControlPlane" where
  "ControlPlane_new p =
     \<lparr>running = False, watchdog_stop_efd = None, dhcp_cfg_efd = None, service_threads = (\<lambda>_. S_done),
      control_event_thread = E_done, main_thread = M_stopped, plane = p\<rparr>"

section \<open>The work of the services\<close>

definition dhcp_applied :: "Plane \<Rightarrow> Plane" where
  "dhcp_applied p =
     (let s = pl_shared p;
          (r, nc, d, k) = sync (sh_cfg s) (pl_netcfg p) (sh_dhcp s) (pl_net p);
          p = p\<lparr>pl_shared := s\<lparr>sh_dhcp := d\<rparr>, pl_netcfg := nc, pl_net := k\<rparr>
      in case save_config ''config/config.txt'' (pl_save_error p) (sh_cfg s) of
           Inl e \<Rightarrow> p
         | Inr text \<Rightarrow> p\<lparr>pl_saved := Some text\<rparr>)"

definition applyDhcpConfig :: "Plane \<Rightarrow> Plane" where
  "applyDhcpConfig p =
     (let s = pl_shared p; cfg = sh_cfg s in
      case (parse_ip_str (DHCP_POOL_START cfg), parse_ip_str (DHCP_POOL_END cfg)) of
        (Inr pool_s, Inr pool_e) \<Rightarrow>
          (case reconfigure \<lparr>pool_start = pool_s, pool_end = pool_e, pool_lease = DHCP_LEASE_DURATION cfg\<rparr> (sh_dhcp s) of
             (d, Some e) \<Rightarrow> p\<lparr>pl_shared := s\<lparr>sh_dhcp := d\<rparr>\<rparr>
           | (d, None) \<Rightarrow> dhcp_applied (p\<lparr>pl_shared := s\<lparr>sh_dhcp := d\<rparr>\<rparr>))
      | _ \<Rightarrow> p)"

abbreviation upd_shared :: "(Shared \<Rightarrow> Shared) \<Rightarrow> Plane \<Rightarrow> Plane" where
  "upd_shared f p \<equiv> p\<lparr>pl_shared := f (pl_shared p)\<rparr>"

text \<open>Every fifth tick of a one-second service.\<close>

definition fifth :: "nat \<Rightarrow> Plane \<Rightarrow> bool \<times> Plane" where
  "fifth i p =
     (let n = pl_tick5 p i + 1 in (n mod 5 = 0, p\<lparr>pl_tick5 := (pl_tick5 p)(i := n)\<rparr>))"

definition telemetry_service :: "Plane \<Rightarrow> Plane" where
  "telemetry_service p =
     (let w = sh_world (pl_shared p);
          (c, t, y) = collector_tick1Hz (pl_collector p) (tel w) (pl_sys p);
          (five, p) = fifth 0 p;
          (t, y) = (if five then collector_tick5s t y else (t, y))
      in p\<lparr>pl_shared := (pl_shared p)\<lparr>sh_world := w\<lparr>tel := t\<rparr>\<rparr>, pl_collector := c, pl_sys := y\<rparr>)"

definition l2_service :: "Plane \<Rightarrow> Plane" where
  "l2_service p =
     (let s = pl_shared p; (f, k) = refresh_l2 (sh_cfg s) (sh_plane s) (pl_net p)
      in p\<lparr>pl_shared := s\<lparr>sh_plane := f\<rparr>, pl_net := k\<rparr>)"

definition wan_service :: "Plane \<Rightarrow> Plane" where
  "wan_service p =
     (let s = pl_shared p; (nt, k) = wan_tracker_tick5s (sh_cfg s) (sh_nat s) (pl_net p)
      in p\<lparr>pl_shared := s\<lparr>sh_nat := nt\<rparr>, pl_net := k\<rparr>)"

definition dhcp_service :: "Plane \<Rightarrow> Plane option" where
  "dhcp_service p =
     do {
       s \<leftarrow> dhcp_tick1Hz (pl_lan_fd p) (pl_shared p);
       let (five, p) = fifth 3 p;
       let (d, k) = (if five then refresh_dhcp_router (sh_cfg s) (sh_dhcp s) (pl_net p) else (sh_dhcp s, pl_net p));
       Some (p\<lparr>pl_shared := s\<lparr>sh_dhcp := d\<rparr>, pl_net := k\<rparr>)
     }"

definition qos_service :: "Plane \<Rightarrow> Plane" where
  "qos_service p =
     (let (base, s) = qos_tick1Hz (pl_base p) (pl_shared p) in p\<lparr>pl_shared := s, pl_base := base\<rparr>)"

definition nat_service :: "Plane \<Rightarrow> Plane" where
  "nat_service p = upd_shared ticker_tick1Hz p"

definition service_tick :: "nat \<Rightarrow> Plane \<Rightarrow> Plane option" where
  "service_tick i p =
     (if i = 0 then Some (telemetry_service p)
      else if i = 1 then Some (l2_service p)
      else if i = 2 then Some (wan_service p)
      else if i = 3 then dhcp_service p
      else if i = 4 then Some (qos_service p)
      else Some (nat_service p))"


section \<open>Starting and asking\<close>

text \<open>An \<^verbatim>\<open>eventfd\<close> that cannot be created ends the program: then the result is \<open>None\<close>.\<close>

definition cp_start :: "bool \<Rightarrow> bool \<Rightarrow> ControlPlane \<Rightarrow> ControlPlane option" where
  "cp_start stop_ok cfg_ok cp =
     do {
       cp \<leftarrow> (if watchdog_stop_efd cp = None
              then if stop_ok then Some (cp\<lparr>watchdog_stop_efd := Some 0\<rparr>) else None else Some cp);
       cp \<leftarrow> (if dhcp_cfg_efd cp = None
              then if cfg_ok then Some (cp\<lparr>dhcp_cfg_efd := Some 0\<rparr>) else None else Some cp);
       Some (cp\<lparr>running := True, service_threads := (\<lambda>_. S_loop), control_event_thread := E_loop, main_thread := M_run\<rparr>)
     }"

definition request_dhcp_config_apply :: "ControlPlane \<Rightarrow> ControlPlane" where
  "request_dhcp_config_apply cp = cp\<lparr>dhcp_cfg_efd := map_option (efd_write 1) (dhcp_cfg_efd cp)\<rparr>"

definition wake_watchdog :: "ControlPlane \<Rightarrow> ControlPlane" where
  "wake_watchdog cp =
     cp\<lparr>watchdog_stop_efd := map_option (efd_write (WATCHDOG_SERVICE_COUNT + 1)) (watchdog_stop_efd cp)\<rparr>"

definition close_efds :: "ControlPlane \<Rightarrow> ControlPlane" where
  "close_efds cp = cp\<lparr>watchdog_stop_efd := None, dhcp_cfg_efd := None\<rparr>"

section \<open>The threads\<close>

abbreviation stop_count :: "ControlPlane \<Rightarrow> nat" where
  "stop_count cp \<equiv> the (watchdog_stop_efd cp)"

abbreviation cfg_count :: "ControlPlane \<Rightarrow> nat" where
  "cfg_count cp \<equiv> the (dhcp_cfg_efd cp)"

definition svc_goto :: "nat \<Rightarrow> svc_pc \<Rightarrow> ControlPlane \<Rightarrow> ControlPlane" where
  "svc_goto i pc cp = cp\<lparr>service_threads := (service_threads cp)(i := pc)\<rparr>"

text \<open>\<^verbatim>\<open>wait_watchdog_period\<close> is the part from \<open>S_poll\<close> to \<open>S_check\<close> (it returns 0), or to \<open>S_done\<close> (it returns 1 after
  reading the semaphore, or -1 on an error of \<^verbatim>\<open>poll\<close>; both leave the loop).\<close>

inductive svc_step :: "nat \<Rightarrow> ControlPlane \<Rightarrow> ControlPlane \<Rightarrow> bool" for i where
  loop_run: "service_threads cp i = S_loop \<Longrightarrow> running cp \<Longrightarrow> svc_step i cp (svc_goto i S_poll cp)"
| loop_exit: "service_threads cp i = S_loop \<Longrightarrow> \<not> running cp \<Longrightarrow> svc_step i cp (svc_goto i S_done cp)"
| poll_over: "service_threads cp i = S_poll \<Longrightarrow> svc_step i cp (svc_goto i S_check cp)"
| poll_in: "service_threads cp i = S_poll \<Longrightarrow> 0 < stop_count cp \<Longrightarrow> svc_step i cp (svc_goto i S_read cp)"
| poll_error: "service_threads cp i = S_poll \<Longrightarrow> svc_step i cp (svc_goto i S_done cp)"
| read_stop: "service_threads cp i = S_read \<Longrightarrow> sem_read (stop_count cp) = Some n \<Longrightarrow>
    svc_step i cp (svc_goto i S_done (cp\<lparr>watchdog_stop_efd := Some n\<rparr>))"
| check_exit: "service_threads cp i = S_check \<Longrightarrow> \<not> running cp \<Longrightarrow> svc_step i cp (svc_goto i S_done cp)"
| check_run: "service_threads cp i = S_check \<Longrightarrow> running cp \<Longrightarrow> svc_step i cp (svc_goto i S_tick cp)"
| tick: "service_threads cp i = S_tick \<Longrightarrow> service_tick i (plane cp) = Some p \<Longrightarrow>
    svc_step i cp (svc_goto i S_loop (cp\<lparr>plane := p\<rparr>))"

definition ev_goto :: "ev_pc \<Rightarrow> ControlPlane \<Rightarrow> ControlPlane" where
  "ev_goto pc cp = cp\<lparr>control_event_thread := pc\<rparr>"

text \<open>The steps of the control plane carry a label: a step of a service thread, a step of the event thread (with labels of
  their own for a \<^verbatim>\<open>poll\<close> interrupted by a signal, a \<^verbatim>\<open>poll\<close> that fails and ends the thread, and the step that applies the DHCP
  settings), a step of \<^verbatim>\<open>stop\<close>, and a request.\<close>

datatype cp_label = Svc nat | Ev | Intr | Fail | Apply | Stop | Request

text \<open>\<^verbatim>\<open>control_event_loop\<close>.\<close>

inductive ev_step :: "ControlPlane \<Rightarrow> cp_label \<Rightarrow> ControlPlane \<Rightarrow> bool" where
  ev_loop_run: "control_event_thread cp = E_loop \<Longrightarrow> running cp \<Longrightarrow> ev_step cp Ev (ev_goto E_poll cp)"
| ev_loop_exit: "control_event_thread cp = E_loop \<Longrightarrow> \<not> running cp \<Longrightarrow> ev_step cp Ev (ev_goto E_done cp)"
| ev_eintr: "control_event_thread cp = E_poll \<Longrightarrow> ev_step cp Intr (ev_goto E_loop cp)"
| ev_error: "control_event_thread cp = E_poll \<Longrightarrow> ev_step cp Fail (ev_goto E_done cp)"
| ev_in_stop: "control_event_thread cp = E_poll \<Longrightarrow> 0 < stop_count cp \<Longrightarrow> ev_step cp Ev (ev_goto E_read_stop cp)"
| ev_in_cfg: "control_event_thread cp = E_poll \<Longrightarrow> stop_count cp = 0 \<Longrightarrow> 0 < cfg_count cp \<Longrightarrow> ev_step cp Ev (ev_goto E_read_cfg cp)"
| ev_read_stop: "control_event_thread cp = E_read_stop \<Longrightarrow> sem_read (stop_count cp) = Some n \<Longrightarrow>
    ev_step cp Ev (ev_goto E_done (cp\<lparr>watchdog_stop_efd := Some n\<rparr>))"
| ev_read_cfg: "control_event_thread cp = E_read_cfg \<Longrightarrow> efd_read (cfg_count cp) = Some n \<Longrightarrow>
    ev_step cp Ev (ev_goto E_check (cp\<lparr>dhcp_cfg_efd := Some n\<rparr>))"
| ev_check_run: "control_event_thread cp = E_check \<Longrightarrow> running cp \<Longrightarrow> ev_step cp Ev (ev_goto E_apply cp)"
| ev_check_skip: "control_event_thread cp = E_check \<Longrightarrow> \<not> running cp \<Longrightarrow> ev_step cp Ev (ev_goto E_loop cp)"
| ev_apply: "control_event_thread cp = E_apply \<Longrightarrow> ev_step cp Apply (ev_goto E_loop (cp\<lparr>plane := applyDhcpConfig (plane cp)\<rparr>))"

definition all_done :: "ControlPlane \<Rightarrow> bool" where
  "all_done cp \<longleftrightarrow> (\<forall>i < WATCHDOG_SERVICE_COUNT. service_threads cp i = S_done) \<and> control_event_thread cp = E_done"

text \<open>\<^verbatim>\<open>ControlPlane::stop\<close>: clear the flag, wake, join every thread, close.\<close>

inductive stop_step :: "ControlPlane \<Rightarrow> ControlPlane \<Rightarrow> bool" where
  stop_flag: "main_thread cp = M_run \<Longrightarrow> stop_step cp (cp\<lparr>running := False, main_thread := M_wake\<rparr>)"
| stop_wake: "main_thread cp = M_wake \<Longrightarrow> stop_step cp ((wake_watchdog cp)\<lparr>main_thread := M_join\<rparr>)"
| stop_joined: "main_thread cp = M_join \<Longrightarrow> all_done cp \<Longrightarrow> stop_step cp ((close_efds cp)\<lparr>main_thread := M_stopped\<rparr>)"

inductive cp_step :: "ControlPlane \<Rightarrow> cp_label \<Rightarrow> ControlPlane \<Rightarrow> bool" where
  cp_svc: "i < WATCHDOG_SERVICE_COUNT \<Longrightarrow> svc_step i cp cp' \<Longrightarrow> cp_step cp (Svc i) cp'"
| cp_ev: "ev_step cp l cp' \<Longrightarrow> cp_step cp l cp'"
| cp_stop: "stop_step cp cp' \<Longrightarrow> cp_step cp Stop cp'"
| cp_request: "cp_step cp Request (request_dhcp_config_apply cp)"

inductive cp_run :: "ControlPlane \<Rightarrow> cp_label list \<Rightarrow> ControlPlane \<Rightarrow> bool" where
  cp_run_nil: "cp_run cp [] cp"
| cp_run_snoc: "cp_run cp ls cp1 \<Longrightarrow> cp_step cp1 l cp2 \<Longrightarrow> cp_run cp (ls @ [l]) cp2"

inductive_cases svc_stepE: "svc_step i cp cp'"
inductive_cases ev_stepE: "ev_step cp l cp'"
inductive_cases stop_stepE: "stop_step cp cp'"
inductive_cases cp_stepE: "cp_step cp l cp'"

lemma ev_step_label: "ev_step cp l cp' \<Longrightarrow> l \<in> {Ev, Intr, Fail, Apply}"
  by (auto elim: ev_stepE)

end
