(* ===== verification/Control_Correct.thy ===== *)
theory Control_Correct
  imports ControlPlane
begin

text \<open>
  The control plane as a concurrent program: its shutdown ends every thread under every schedule, and a request
  to apply DHCP settings is carried out within a bounded number of steps of the event thread.
\<close>

section \<open>Ticks return\<close>

abbreviation pl_world :: "Plane \<Rightarrow> World" where
  "pl_world p \<equiv> sh_world (pl_shared p)"

lemma background_returns:
  assumes "sends_return w"
  shows "\<exists>d' w'. background_loop n fd d w = Some (d', w') \<and> same_kernel w w'"
  using assms
proof (induction n arbitrary: d w)
  case (Suc n)
  obtain m q where pop: "spsc_pop 512 (request_queue d) = (m, q)" by fastforce
  show ?case
  proof (cases m)
    case None
    then show ?thesis using pop by (simp add: same_kernel_def)
  next
    case (Some msg)
    obtain d1 w1 where h: "handle_dhcp_request msg fd (d\<lparr>request_queue := q\<rparr>) w = Some (d1, w1)" "same_kernel w w1"
      using handle_returns [OF Suc.prems] by blast
    then obtain d2 w2 where "background_loop n fd d1 w1 = Some (d2, w2)" "same_kernel w1 w2"
      using Suc.IH [of w1 d1] same_kernel_returns Suc.prems by blast
    then show ?thesis using pop Some h by (auto simp: same_kernel_def)
  qed
qed (simp add: same_kernel_def)

lemma qos_world: "same_kernel (sh_world s) (sh_world (snd (qos_tick1Hz b s)))"
  by (simp add: qos_tick1Hz_def qos_mode_def Let_def same_kernel_def)

lemma service_tick_returns:
  assumes "sends_return (pl_world p)"
  shows "\<exists>p'. service_tick i p = Some p' \<and> same_kernel (pl_world p) (pl_world p')"
proof -
  obtain d w where b: "process_background_tasks (pl_lan_fd p) (sh_dhcp (pl_shared p)) (pl_world p) = Some (d, w)" "same_kernel (pl_world p) w"
    using background_returns [OF assms] unfolding process_background_tasks_def by blast
  then have "\<exists>p'. dhcp_service p = Some p' \<and> same_kernel (pl_world p) (pl_world p')"
    by (auto simp: dhcp_service_def dhcp_tick1Hz_def fifth_def Let_def split: prod.split)
  then show ?thesis
    using qos_world [of "pl_shared p" "pl_base p"]
    by (auto simp: service_tick_def telemetry_service_def l2_service_def wan_service_def qos_service_def nat_service_def
        ticker_tick1Hz_def fifth_def same_kernel_def Let_def split: prod.split if_split)
qed

lemma apply_config_world: "pl_world (applyDhcpConfig p) = pl_world p"
  by (auto simp: applyDhcpConfig_def dhcp_applied_def Let_def split: sum.split prod.split option.split)


section \<open>Shutdown\<close>

definition live_threads :: "ControlPlane \<Rightarrow> nat set" where
  "live_threads cp = {i. i < 6 \<and> service_threads cp i \<noteq> S_done} \<union> (if control_event_thread cp = E_done then {} else {6})"

fun svc_work :: "svc_pc \<Rightarrow> nat" where
  "svc_work S_done = 0" | "svc_work S_poll = 2" | "svc_work S_tick = 2" | "svc_work _ = 1"

fun ev_work :: "ev_pc \<Rightarrow> nat" where
  "ev_work E_done = 0" | "ev_work E_loop = 1" | "ev_work E_read_stop = 1" | "ev_work E_check = 2" | "ev_work E_apply = 2"
| "ev_work E_read_cfg = 3" | "ev_work E_poll = 4"

definition cp_work :: "ControlPlane \<Rightarrow> nat" where
  "cp_work cp = (\<Sum>i < 6. svc_work (service_threads cp i)) + ev_work (control_event_thread cp)"

definition thread_step :: "ControlPlane \<Rightarrow> ControlPlane \<Rightarrow> bool" where
  "thread_step cp cp' \<longleftrightarrow> (\<exists>i < WATCHDOG_SERVICE_COUNT. svc_step i cp cp') \<or> (\<exists>a. ev_step cp a cp')"

definition cp_stopping :: "ControlPlane \<Rightarrow> bool" where
  "cp_stopping cp \<longleftrightarrow> \<not> running cp \<and> watchdog_stop_efd cp \<noteq> None \<and> dhcp_cfg_efd cp \<noteq> None \<and>
     (control_event_thread cp = E_read_cfg \<longrightarrow> 0 < cfg_count cp) \<and> sends_return (pl_world (plane cp))"

lemma work_goto:
  assumes "(i :: nat) < 6" "svc_work pc < svc_work (f i)"
  shows "(\<Sum>j < 6. svc_work ((f(i := pc)) j)) < (\<Sum>j < 6. svc_work (f j))"
  using assms by (intro sum_strict_mono_ex1) auto

lemma svc_step_stops:
  assumes "cp_stopping cp" "svc_step i cp cp'" "i < 6"
  shows "cp_stopping cp' \<and> cp_work cp' < cp_work cp \<and>
    (stop_count cp \<le> stop_count cp' \<and> live_threads cp' \<subseteq> live_threads cp \<or>
     (\<exists>t \<in> live_threads cp. Suc (stop_count cp') = stop_count cp \<and> live_threads cp' = live_threads cp - {t}))"
  using assms(2)
proof cases
  case (read_stop n)
  then have "i \<in> live_threads cp" "live_threads cp' = live_threads cp - {i}" "Suc (stop_count cp') = stop_count cp"
    using assms(3) by (auto simp: live_threads_def svc_goto_def sem_read_def split: if_splits)
  moreover have "cp_work cp' < cp_work cp" using read_stop assms(3) work_goto [of i S_done "service_threads cp"] by (simp add: cp_work_def svc_goto_def)
  ultimately show ?thesis using assms(1) read_stop by (auto simp: cp_stopping_def svc_goto_def)
next
  case (tick p)
  obtain p' where "service_tick i (plane cp) = Some p'" "same_kernel (pl_world (plane cp)) (pl_world p')"
    using service_tick_returns assms(1) by (auto simp: cp_stopping_def)
  then have "sends_return (pl_world p)" using tick assms(1) same_kernel_returns by (auto simp: cp_stopping_def)
  then show ?thesis
    using tick assms work_goto [of i S_loop "service_threads cp"]
    by (auto simp: cp_stopping_def cp_work_def live_threads_def svc_goto_def)
qed (use assms work_goto [of i _ "service_threads cp"] in \<open>auto simp: cp_stopping_def cp_work_def live_threads_def svc_goto_def\<close>)

lemma ev_step_stops:
  assumes "cp_stopping cp" "ev_step cp a cp'"
  shows "cp_stopping cp' \<and> cp_work cp' < cp_work cp \<and>
    (stop_count cp \<le> stop_count cp' \<and> live_threads cp' \<subseteq> live_threads cp \<or>
     (\<exists>t \<in> live_threads cp. Suc (stop_count cp') = stop_count cp \<and> live_threads cp' = live_threads cp - {t}))"
  using assms(2)
proof cases
  case (ev_read_stop n)
  then have "6 \<in> live_threads cp" "live_threads cp' = live_threads cp - {6}" "Suc (stop_count cp') = stop_count cp"
    by (auto simp: live_threads_def ev_goto_def sem_read_def split: if_splits)
  then show ?thesis using assms(1) ev_read_stop by (auto simp: cp_stopping_def cp_work_def ev_goto_def)
qed (use assms in \<open>auto simp: cp_stopping_def cp_work_def live_threads_def ev_goto_def apply_config_world efd_read_def split: if_splits\<close>)


lemma live_thread_moves:
  assumes "cp_stopping cp" "t \<in> live_threads cp" "0 < stop_count cp"
  shows "\<exists>cp'. thread_step cp cp'"
proof (cases "t = 6")
  case False
  then have t: "t < 6" "service_threads cp t \<noteq> S_done" using assms(2) by (auto simp: live_threads_def split: if_splits)
  obtain p where "service_tick t (plane cp) = Some p" using service_tick_returns assms(1) by (auto simp: cp_stopping_def)
  then have "\<exists>cp'. svc_step t cp cp'"
    using t(2) assms(1,3) svc_step.read_stop [of cp t "stop_count cp - 1"]
    by (cases "service_threads cp t") (auto simp: cp_stopping_def sem_read_def intro: svc_step.intros)
  then show ?thesis using t(1) by (auto simp: thread_step_def WATCHDOG_SERVICE_COUNT_def)
next
  case True
  then have "control_event_thread cp \<noteq> E_done" using assms(2) by (auto simp: live_threads_def)
  then have "\<exists>a cp'. ev_step cp a cp'"
    using assms(1,3) ev_step.ev_read_stop [of cp "stop_count cp - 1"] ev_step.ev_read_cfg [of cp 0]
    by (cases "control_event_thread cp") (auto simp: cp_stopping_def sem_read_def efd_read_def intro: ev_step.intros)
  then show ?thesis by (auto simp: thread_step_def)
qed

interpretation cps: stop_protocol thread_step live_threads "\<lambda>_. 0" "\<lambda>cp g. if g = 0 then stop_count cp else 0" cp_stopping cp_work
proof
  show "finite (live_threads cp)" for cp by (simp add: live_threads_def)
  show "\<exists>cp'. thread_step cp cp'" if "cp_stopping cp" "t \<in> live_threads cp" "0 < (if (0::nat) = 0 then stop_count cp else 0)" for cp t
    using live_thread_moves [OF that(1,2)] that(3) by simp
  show "cp_stopping cp' \<and> cp_work cp' < cp_work cp \<and>
      (live_threads cp' \<subseteq> live_threads cp \<and> (\<forall>g :: nat. (if g = 0 then stop_count cp else 0) \<le> (if g = 0 then stop_count cp' else 0)) \<or>
       (\<exists>t \<in> live_threads cp. live_threads cp' = live_threads cp - {t} \<and>
          Suc (if (0 :: nat) = 0 then stop_count cp' else 0) = (if (0 :: nat) = 0 then stop_count cp else 0) \<and>
          (\<forall>g :: nat. g \<noteq> 0 \<longrightarrow> (if g = 0 then stop_count cp else 0) \<le> (if g = 0 then stop_count cp' else 0))))"
    if "cp_stopping cp" "thread_step cp cp'" for cp cp'
    using that svc_step_stops [OF that(1)] ev_step_stops [OF that(1)]
    unfolding thread_step_def WATCHDOG_SERVICE_COUNT_def by fastforce
qed

lemma cps_draining: "cps.draining cp \<longleftrightarrow> cp_stopping cp \<and> card (live_threads cp) \<le> stop_count cp"
  by (auto simp: cps.draining_def cps.members_def)

section \<open>Reachable states\<close>

definition cp_inv :: "ControlPlane \<Rightarrow> bool" where
  "cp_inv cp \<longleftrightarrow> (running cp \<longleftrightarrow> main_thread cp = M_run) \<and>
     (main_thread cp \<noteq> M_stopped \<longrightarrow> watchdog_stop_efd cp \<noteq> None \<and> dhcp_cfg_efd cp \<noteq> None) \<and>
     (control_event_thread cp = E_read_cfg \<longrightarrow> dhcp_cfg_efd cp \<noteq> None \<and> 0 < cfg_count cp) \<and>
     (main_thread cp = M_join \<longrightarrow> card (live_threads cp) \<le> stop_count cp) \<and>
     (main_thread cp = M_stopped \<longrightarrow> all_done cp) \<and> sends_return (pl_world (plane cp))"

lemma card_live: "card (live_threads cp) \<le> 7"
proof -
  have "live_threads cp \<subseteq> {..<7}" by (auto simp: live_threads_def)
  then show ?thesis using card_mono [of "{..<7 :: nat}" "live_threads cp"] by simp
qed

lemma live_empty: "live_threads cp = {} \<longleftrightarrow> all_done cp"
  by (auto simp: live_threads_def all_done_def WATCHDOG_SERVICE_COUNT_def split: if_splits)

lemma thread_step_main: "thread_step cp cp' \<Longrightarrow> main_thread cp' = main_thread cp \<and> running cp' = running cp"
  by (auto simp: thread_step_def svc_goto_def ev_goto_def elim!: svc_stepE ev_stepE)


lemma thread_step_inv:
  assumes "cp_inv cp" "thread_step cp cp'"
  shows "cp_inv cp'"
proof (cases "main_thread cp = M_stopped")
  case True
  then have "all_done cp" using assms(1) by (simp add: cp_inv_def)
  then show ?thesis
    using assms(2) by (auto simp: thread_step_def all_done_def svc_goto_def ev_goto_def elim!: svc_stepE ev_stepE)
next
  case False
  have cfg: "control_event_thread cp' = E_read_cfg \<longrightarrow> dhcp_cfg_efd cp' \<noteq> None \<and> 0 < cfg_count cp'"
    "watchdog_stop_efd cp' \<noteq> None \<and> dhcp_cfg_efd cp' \<noteq> None"
    using assms False by (auto simp: cp_inv_def thread_step_def svc_goto_def ev_goto_def elim!: svc_stepE ev_stepE)
  have ret: "sends_return (pl_world (plane cp'))"
    using assms(2) unfolding thread_step_def
  proof (elim disjE exE conjE)
    fix i assume "svc_step i cp cp'"
    then show ?thesis
    proof cases
      case (tick p)
      then show ?thesis using service_tick_returns [of "plane cp" i] same_kernel_returns assms(1) by (auto simp: cp_inv_def svc_goto_def)
    qed (use assms(1) in \<open>auto simp: cp_inv_def svc_goto_def\<close>)
  next
    fix a assume "ev_step cp a cp'"
    then show ?thesis by cases (use assms(1) in \<open>auto simp: cp_inv_def ev_goto_def apply_config_world\<close>)
  qed
  have join: "main_thread cp = M_join \<longrightarrow> card (live_threads cp') \<le> stop_count cp'"
  proof
    assume "main_thread cp = M_join"
    then have "cps.draining cp" using assms(1) by (simp add: cps_draining cp_inv_def cp_stopping_def)
    from cps.draining_step(1) [OF this assms(2)] show "card (live_threads cp') \<le> stop_count cp'" by (simp add: cps_draining)
  qed
  show ?thesis using thread_step_main [OF assms(2)] cfg ret join assms(1) False by (simp add: cp_inv_def)
qed

lemma cp_step_inv:
  assumes "cp_inv cp" "cp_step cp l cp'"
  shows "cp_inv cp'"
  using assms(2)
proof cases
  case (cp_svc i)
  then show ?thesis using thread_step_inv [OF assms(1)] by (auto simp: thread_step_def)
next
  case cp_ev
  then show ?thesis using thread_step_inv [OF assms(1)] by (auto simp: thread_step_def)
next
  case cp_stop
  from this(2) show ?thesis
  proof cases
    case stop_wake
    then have "stop_count cp' = stop_count cp + 7" "live_threads cp' = live_threads cp"
      using assms(1) by (auto simp: cp_inv_def wake_watchdog_def efd_write_def WATCHDOG_SERVICE_COUNT_def live_threads_def)
    then show ?thesis using stop_wake assms(1) card_live [of cp] by (auto simp: cp_inv_def wake_watchdog_def)
  qed (use assms(1) in \<open>auto simp: cp_inv_def close_efds_def all_done_def\<close>)
next
  case cp_request
  then show ?thesis
    using assms(1) by (auto simp: cp_inv_def request_dhcp_config_apply_def live_threads_def all_done_def efd_write_def)
qed

lemma cp_run_inv: "cp_run cp ls cp' \<Longrightarrow> cp_inv cp \<Longrightarrow> cp_inv cp'"
  by (induction rule: cp_run.induct) (auto dest: cp_step_inv)

lemma cp_start_inv:
  assumes "cp_start True True (ControlPlane_new p) = Some cp" "sends_return (pl_world p)"
  shows "cp_inv cp" "main_thread cp = M_run"
  using assms by (auto simp: cp_start_def ControlPlane_new_def cp_inv_def)

text \<open>The control plane shuts down.  After any run of the started control plane that brings \<^verbatim>\<open>stop\<close> to its join, whatever
  the seven threads were doing and however they are scheduled, they take at most 16 more steps, and as long as one of
  them is alive some thread can take a step: no thread is left waiting for a unit of the semaphore, and \<^verbatim>\<open>join\<close> returns.\<close>

lemma control_plane_stops:
  assumes "cp_start True True (ControlPlane_new p) = Some cp0" "sends_return (pl_world p)"
    and "cp_run cp0 ls cp" "main_thread cp = M_join"
  shows "(\<forall>n cp'. (thread_step ^^ n) cp cp' \<longrightarrow> n \<le> 16) \<and>
    (\<forall>cp'. thread_step\<^sup>*\<^sup>* cp cp' \<longrightarrow> all_done cp' \<or> (\<exists>cp''. thread_step cp' cp'')) \<and>
    (\<exists>cp'. thread_step\<^sup>*\<^sup>* cp cp' \<and> all_done cp')"
proof -
  have "cp_inv cp" using cp_run_inv [OF assms(3)] cp_start_inv [OF assms(1,2)] by blast
  then have d: "cps.draining cp" using assms(4) by (simp add: cps_draining cp_inv_def cp_stopping_def)
  have "svc_work pc \<le> 2" for pc by (cases pc) auto
  then have "(\<Sum>i < 6. svc_work (service_threads cp i)) \<le> 12" using sum_bounded_above [of "{..<6 :: nat}" "\<lambda>i. svc_work (service_threads cp i)" 2] by simp
  moreover have "ev_work (control_event_thread cp) \<le> 4" by (cases "control_event_thread cp") auto
  ultimately have "cp_work cp \<le> 16" by (simp add: cp_work_def)
  then have "\<forall>n cp'. (thread_step ^^ n) cp cp' \<longrightarrow> n \<le> 16" using cps.run_bounded [OF d] order_trans by blast
  then show ?thesis using cps.never_stuck [OF d] cps.run_ends [OF d] unfolding live_empty by blast
qed


section \<open>Requests\<close>

text \<open>While the control plane runs and \<^verbatim>\<open>poll\<close> has not failed, nobody has posted a stop token and the event thread is alive.\<close>

definition event_alive :: "ControlPlane \<Rightarrow> bool" where
  "event_alive cp \<longleftrightarrow> (running cp \<longrightarrow> stop_count cp = 0 \<and> control_event_thread cp \<notin> {E_read_stop, E_done})"

definition request_kept :: "ControlPlane \<Rightarrow> bool" where
  "request_kept cp \<longleftrightarrow> (running cp \<longrightarrow> 0 < cfg_count cp \<or> control_event_thread cp \<in> {E_check, E_apply})"

lemma event_alive_step:
  assumes "cp_step cp l cp'" "l \<noteq> Fail" "event_alive cp" "cp_inv cp"
  shows "event_alive cp'"
  using assms(1)
proof cases
  case (cp_svc i)
  from this(3) show ?thesis by cases (use assms(3) in \<open>auto simp: event_alive_def svc_goto_def sem_read_def\<close>)
next
  case cp_ev
  then show ?thesis by cases (use assms(2,3) in \<open>auto simp: event_alive_def ev_goto_def\<close>)
next
  case cp_stop
  from this(2) show ?thesis by cases (use assms(3,4) in \<open>auto simp: event_alive_def wake_watchdog_def cp_inv_def close_efds_def\<close>)
next
  case cp_request
  then show ?thesis using assms(3) by (auto simp: event_alive_def request_dhcp_config_apply_def)
qed

lemma event_alive_run:
  assumes "cp_run cp ls cp'" "Fail \<notin> set ls" "event_alive cp" "cp_inv cp"
  shows "event_alive cp'"
  using assms
proof (induction rule: cp_run.induct)
  case (cp_run_snoc cp ls cp1 l cp2)
  then show ?case using event_alive_step cp_run_inv by auto
qed

text \<open>The steps of the event thread before it applies the settings.\<close>

fun apply_dist :: "ev_pc \<Rightarrow> nat" where
  "apply_dist E_loop = 4" | "apply_dist E_poll = 3" | "apply_dist E_read_cfg = 2" | "apply_dist E_check = 1" | "apply_dist _ = 0"

lemma request_kept_step:
  assumes "cp_step cp l cp'" "l \<noteq> Apply" "l \<noteq> Fail" "request_kept cp" "event_alive cp" "cp_inv cp" "running cp'"
  shows "request_kept cp' \<and> running cp \<and>
    apply_dist (control_event_thread cp') + (if l = Ev then 1 else 0) = apply_dist (control_event_thread cp) + (if l = Intr then 1 else 0)"
  using assms(1)
proof cases
  case (cp_svc i)
  from this(3) show ?thesis
    using cp_svc(1) by cases (use assms(4,7) in \<open>auto simp: request_kept_def svc_goto_def\<close>)
next
  case cp_ev
  then show ?thesis by cases (use assms(2-7) in \<open>auto simp: request_kept_def event_alive_def ev_goto_def\<close>)
next
  case cp_stop
  from this(2) show ?thesis by cases (use assms(6,7) in \<open>auto simp: wake_watchdog_def cp_inv_def close_efds_def\<close>)
next
  case cp_request
  then show ?thesis
    using assms(4,6,7) by (auto simp: request_kept_def request_dhcp_config_apply_def cp_inv_def efd_write_def)
qed

lemma request_kept_run:
  assumes "cp_run cp ls cp'" "Apply \<notin> set ls" "Fail \<notin> set ls" "request_kept cp" "event_alive cp" "cp_inv cp" "running cp'"
  shows "request_kept cp' \<and>
    apply_dist (control_event_thread cp') + count_list ls Ev = apply_dist (control_event_thread cp) + count_list ls Intr"
  using assms
proof (induction rule: cp_run.induct)
  case (cp_run_snoc cp ls cp1 l cp2)
  have ok: "cp_inv cp1" "event_alive cp1"
    using cp_run_snoc.hyps(1) cp_run_snoc.prems cp_run_inv event_alive_run by auto
  have l: "l \<noteq> Apply" "l \<noteq> Fail" using cp_run_snoc.prems by auto
  have r1: "running cp1" using cp_run_snoc.hyps(2) cp_run_snoc.prems(6) ok(1) l
    by (auto simp: cp_inv_def svc_goto_def ev_goto_def wake_watchdog_def close_efds_def request_dhcp_config_apply_def
        elim!: cp_stepE svc_stepE ev_stepE stop_stepE)
  then have ih: "request_kept cp1 \<and>
      apply_dist (control_event_thread cp1) + count_list ls Ev = apply_dist (control_event_thread cp) + count_list ls Intr"
    using cp_run_snoc by auto
  then show ?case using request_kept_step [OF cp_run_snoc.hyps(2) l _ ok(2,1) cp_run_snoc.prems(6)] by auto
qed simp

text \<open>A thread with a pending request moves, whatever the other threads do, and the moves lead to \<^verbatim>\<open>applyDhcpConfig\<close>.\<close>

lemma cp_run_ev: "cp_run cp ls cp1 \<Longrightarrow> ev_step cp1 l cp2 \<Longrightarrow> cp_run cp (ls @ [l]) cp2"
  using cp_run_snoc cp_ev by blast

lemma pending_moves:
  assumes "running cp" "request_kept cp" "event_alive cp" "cp_inv cp" "control_event_thread cp \<noteq> E_apply"
  shows "\<exists>cp'. ev_step cp Ev cp' \<and> plane cp' = plane cp \<and> running cp' \<and>
    Suc (apply_dist (control_event_thread cp')) = apply_dist (control_event_thread cp)"
  using assms ev_loop_run [of cp] ev_in_cfg [of cp] ev_read_cfg [of cp 0] ev_check_run [of cp]
  by (cases "control_event_thread cp") (fastforce simp: event_alive_def request_kept_def ev_goto_def cp_inv_def efd_read_def)+

lemma pending_applied:
  assumes "running cp" "request_kept cp" "event_alive cp" "cp_inv cp"
  shows "\<exists>cp'. cp_run cp (replicate (apply_dist (control_event_thread cp)) Ev @ [Apply]) cp' \<and> plane cp' = applyDhcpConfig (plane cp)"
proof -
  have reach: "\<exists>c. cp_run cp (replicate n Ev) c \<and> plane c = plane cp \<and> running c \<and>
      n + apply_dist (control_event_thread c) = apply_dist (control_event_thread cp)"
    if "n \<le> apply_dist (control_event_thread cp)" for n
    using that
  proof (induction n)
    case 0
    show ?case using cp_run_nil [of cp] assms(1) by auto
  next
    case (Suc n)
    then obtain c where c: "cp_run cp (replicate n Ev) c" "plane c = plane cp" "running c"
      "n + apply_dist (control_event_thread c) = apply_dist (control_event_thread cp)" by auto
    have "request_kept c" using request_kept_run [OF c(1)] assms c(3) by auto
    moreover have "event_alive c" "cp_inv c" using event_alive_run [OF c(1)] cp_run_inv [OF c(1)] assms by auto
    moreover have "control_event_thread c \<noteq> E_apply" using c(4) Suc.prems by auto
    ultimately obtain c' where c': "ev_step c Ev c'" "plane c' = plane c" "running c'"
      "Suc (apply_dist (control_event_thread c')) = apply_dist (control_event_thread c)"
      using pending_moves c(3) by blast
    have "cp_run cp (replicate (Suc n) Ev) c'"
      using cp_run_ev [OF c(1) c'(1)] by (simp add: replicate_append_same)
    then show ?case using c c' by auto
  qed
  then obtain c where c: "cp_run cp (replicate (apply_dist (control_event_thread cp)) Ev) c" "plane c = plane cp" "running c"
    "apply_dist (control_event_thread c) = 0" by fastforce
  have "event_alive c" using event_alive_run [OF c(1)] assms by auto
  then have "control_event_thread c = E_apply"
    using c(3,4) by (cases "control_event_thread c") (auto simp: event_alive_def)
  then show ?thesis using cp_run_ev [OF c(1) ev_apply] c(2) by (force simp: ev_goto_def)
qed

text \<open>C32: A request from the dashboard is carried out.  Once new DHCP settings have been announced to the running control plane,
  and until they have been applied, under every schedule of its threads, with further requests and with \<^verbatim>\<open>poll\<close> interrupted by signals:
  the event thread has taken at most four steps, and one more for each interruption; it is never asleep, and with the steps
  that remain of these four it calls \<^verbatim>\<open>applyDhcpConfig\<close> on the settings of that moment.  The control plane has
  to stay up and no \<^verbatim>\<open>poll\<close> of the event thread may fail with an error other than EINTR, which would end the thread.\<close>

theorem dhcp_request_applied:
  assumes "cp_start True True (ControlPlane_new p) = Some cp0" "sends_return (pl_world p)"
    and "cp_run cp0 ls cp" "running cp" "Fail \<notin> set ls"
    and "cp_run (request_dhcp_config_apply cp) ls' cp'" "running cp'" "Fail \<notin> set ls'" "Apply \<notin> set ls'"
  shows "\<exists>n cp''. n + count_list ls' Ev \<le> 4 + count_list ls' Intr \<and>
    cp_run cp' (replicate n Ev @ [Apply]) cp'' \<and> plane cp'' = applyDhcpConfig (plane cp')"
proof -
  let ?r = "request_dhcp_config_apply cp"
  have start: "cp_inv cp0" "event_alive cp0"
    using cp_start_inv [OF assms(1,2)] assms(1) by (auto simp: cp_start_def ControlPlane_new_def event_alive_def)
  then have "cp_inv cp" "event_alive cp" using cp_run_inv [OF assms(3)] event_alive_run [OF assms(3,5)] by auto
  then have r: "cp_inv ?r" "event_alive ?r" "request_kept ?r"
    using cp_step_inv [OF _ cp_step.cp_request] event_alive_step [OF cp_step.cp_request] assms(4)
    by (auto simp: request_kept_def request_dhcp_config_apply_def cp_inv_def efd_write_def)
  have d: "request_kept cp'"
    "apply_dist (control_event_thread cp') + count_list ls' Ev = apply_dist (control_event_thread ?r) + count_list ls' Intr"
    using request_kept_run [OF assms(6,9,8) r(3,2,1) assms(7)] by auto
  moreover have "apply_dist (control_event_thread ?r) \<le> 4" by (cases "control_event_thread ?r") auto
  moreover have "event_alive cp'" "cp_inv cp'" using event_alive_run [OF assms(6,8) r(2,1)] cp_run_inv [OF assms(6) r(1)] by auto
  ultimately show ?thesis
    using pending_applied [OF assms(7)] by (intro exI [of _ "apply_dist (control_event_thread cp')"]) auto
qed

section \<open>Sample runs\<close>

definition demo_plane :: Plane where
  "demo_plane = \<lparr>pl_shared = demo_shared, pl_net = demo_net, pl_sys = demo_sys, pl_collector = TelemetryCollector_init,
     pl_netcfg = NetworkConfig_init, pl_base = (500, 50), pl_lan_fd = 5, pl_tick5 = (\<lambda>_. 0), pl_save_error = None, pl_saved = None\<rparr>"

definition demo_cp :: ControlPlane where
  "demo_cp = the (cp_start True True (ControlPlane_new demo_plane))"

lemma demo_cp:
  "cp_start True True (ControlPlane_new demo_plane) = Some demo_cp" "sends_return (pl_world demo_plane)"
  "running demo_cp" "main_thread demo_cp = M_run" "control_event_thread demo_cp = E_loop" "dhcp_cfg_efd demo_cp = Some 0"
  using demo_shared(6) by (simp_all add: demo_cp_def cp_start_def ControlPlane_new_def demo_plane_def)

theorem dhcp_request_applied_witness:
  "\<exists>n cp' cp''. n \<le> 3 \<and> cp_run (request_dhcp_config_apply demo_cp) [Ev] cp' \<and> control_event_thread cp' = E_poll \<and>
     cp_run cp' (replicate n Ev @ [Apply]) cp'' \<and> plane cp'' = applyDhcpConfig demo_plane"
proof -
  let ?c = "request_dhcp_config_apply demo_cp"
  have r: "cp_run ?c [Ev] (ev_goto E_poll ?c)"
    using demo_cp(3,5) cp_run_ev [OF cp_run_nil, of ?c Ev] ev_step.ev_loop_run [of ?c] by (simp add: request_dhcp_config_apply_def)
  have "\<exists>n cp''. n + count_list [Ev] Ev \<le> 4 + count_list [Ev] Intr \<and>
      cp_run (ev_goto E_poll ?c) (replicate n Ev @ [Apply]) cp'' \<and> plane cp'' = applyDhcpConfig (plane (ev_goto E_poll ?c))"
    using demo_cp(3) by (intro dhcp_request_applied [OF demo_cp(1,2) cp_run_nil _ _ r])
      (simp_all add: ev_goto_def request_dhcp_config_apply_def)
  moreover have "plane (ev_goto E_poll ?c) = demo_plane"
    by (simp add: ev_goto_def request_dhcp_config_apply_def demo_cp_def cp_start_def ControlPlane_new_def)
  ultimately obtain n cp'' where "n \<le> 3" "cp_run (ev_goto E_poll ?c) (replicate n Ev @ [Apply]) cp''"
    "plane cp'' = applyDhcpConfig demo_plane" by auto
  moreover have "control_event_thread (ev_goto E_poll ?c) = E_poll" by (simp add: ev_goto_def)
  ultimately show ?thesis using r by blast
qed

end
