(* ===== verification/RawSocket.thy ===== *)
theory RawSocket
  imports Network_Util Telemetry
begin

text \<open>
  \<^verbatim>\<open>RawSocket_util.cpp\<close>: the packet socket with its memory-mapped receive ring.  The ring is the memory the kernel
  shares, a function from addresses (relative to the mapping) to bytes, together with the header of every slot; a
  frame is the span of memory its header describes.  The answers of the system calls of \<^verbatim>\<open>init\<close> are a record.
\<close>

section \<open>State\<close>

definition BLOCK_SIZE :: nat where "BLOCK_SIZE = 4096 * 16"
definition FRAME_SIZE :: nat where "FRAME_SIZE = 2048"
definition BLOCK_NR :: nat where "BLOCK_NR = 1024"
definition FRAME_NR :: nat where "FRAME_NR = (BLOCK_SIZE * BLOCK_NR) div FRAME_SIZE"

text \<open>The fields of \<^verbatim>\<open>tpacket_hdr\<close> and \<^verbatim>\<open>sockaddr_ll\<close> the code reads.\<close>

record RxSlot =
  status_user :: bool
  pkt_outgoing :: bool
  tp_mac :: nat
  tp_len :: nat

record RawSocketManager =
  rs_fd :: int
  rs_iface :: string
  rs_mapped :: bool
  ring_size :: nat
  rx_idx :: nat
  rx_slots :: "nat \<Rightarrow> RxSlot"
  rx_mem :: "nat \<Rightarrow> u8"

definition RawSocketManager_new :: "string \<Rightarrow> RawSocketManager" where
  "RawSocketManager_new iface_name =
     \<lparr>rs_fd = -1, rs_iface = c_str (take 15 iface_name), rs_mapped = False, ring_size = 0, rx_idx = 0,
      rx_slots = (\<lambda>_. \<lparr>status_user = False, pkt_outgoing = False, tp_mac = 0, tp_len = 0\<rparr>), rx_mem = (\<lambda>_. 0)\<rparr>"

section \<open>Opening\<close>

datatype raw_effect = Set_promisc string u16 | Rx_ring nat nat nat nat | Map_ring nat | Bind_index int

record RawSys =
  raw_socket :: int
  raw_strerror :: string
  raw_index :: "int option"
  raw_flags :: "u16 option"
  raw_set_flags :: bool
  raw_set_ring :: bool
  raw_mmap :: bool
  raw_bind :: bool

definition raw_init :: "RawSys \<Rightarrow> RawSocketManager \<Rightarrow> (string + unit) \<times> RawSocketManager \<times> raw_effect list" where
  "raw_init y rs =
     (let rs = rs\<lparr>rs_fd := raw_socket y\<rparr> in
      if raw_socket y < 0 then (Inl (''Socket creation failed: '' @ raw_strerror y), rs, [])
      else case raw_index y of
        None \<Rightarrow> (Inl ''Interface lookup failed'', rs, [])
      | Some ifindex \<Rightarrow>
      case raw_flags y of
        None \<Rightarrow> (Inl ''Failed to get interface flags'', rs, [])
      | Some flags \<Rightarrow>
      let e1 = [Set_promisc (rs_iface rs) (flags OR 0x100)] in
      if \<not> raw_set_flags y then (Inl ''Failed to set IFF_PROMISC. Check permissions.'', rs, e1)
      else
      let e2 = e1 @ [Rx_ring BLOCK_SIZE BLOCK_NR FRAME_SIZE FRAME_NR] in
      if \<not> raw_set_ring y then (Inl ''Setsockopt RX_RING failed'', rs, e2)
      else
      let rs = rs\<lparr>ring_size := BLOCK_SIZE * BLOCK_NR\<rparr>;
          e3 = e2 @ [Map_ring (ring_size rs)] in
      if \<not> raw_mmap y then (Inl ''mmap failed'', rs, e3)
      else
      let rs = rs\<lparr>rs_mapped := True\<rparr>;
          e4 = e3 @ [Bind_index ifindex] in
      if \<not> raw_bind y then (Inl ''Bind failed'', rs, e4)
      else (Inr (), rs, e4))"

definition notify_rx_poll_fatal :: "u8 \<Rightarrow> Telemetry \<Rightarrow> Telemetry" where
  "notify_rx_poll_fatal flag t = t\<lparr>raw_socket_poll_errors := raw_socket_poll_errors t OR flag\<rparr>"

text \<open>\<^verbatim>\<open>do_poll\<close>, with the outcome of \<^verbatim>\<open>poll\<close>: an error other than an interruption closes the socket.\<close>

definition do_poll :: "bool \<Rightarrow> RawSocketManager \<Rightarrow> Telemetry \<Rightarrow> RawSocketManager \<times> Telemetry" where
  "do_poll failed rs t =
     (if rs_fd rs < 0 then (rs, t)
      else if failed then (rs\<lparr>rs_fd := -1\<rparr>, notify_rx_poll_fatal 1 t)
      else (rs, t))"

section \<open>The receive ring\<close>

definition rx_span :: "RawSocketManager \<Rightarrow> nat \<Rightarrow> bytes" where
  "rx_span rs i =
     (let off = i * FRAME_SIZE + tp_mac (rx_slots rs i) in map (rx_mem rs) [off..<off + tp_len (rx_slots rs i)])"

definition advance_frame :: "RawSocketManager \<Rightarrow> RawSocketManager" where
  "advance_frame rs =
     rs\<lparr>rx_slots := (rx_slots rs)(rx_idx rs := (rx_slots rs (rx_idx rs))\<lparr>status_user := False\<rparr>),
        rx_idx := (rx_idx rs + 1) mod FRAME_NR\<rparr>"

partial_function (option) peek_frame :: "RawSocketManager \<Rightarrow> (bytes option \<times> RawSocketManager) option" where
  "peek_frame rs =
     (let hdr = rx_slots rs (rx_idx rs) in
      if \<not> status_user hdr then Some (None, rs)
      else if \<not> pkt_outgoing hdr then Some (Some (rx_span rs (rx_idx rs)), rs)
      else peek_frame (advance_frame rs))"

section \<open>Lemmas\<close>

lemma FRAME_NR_pos [simp]: "0 < FRAME_NR"
  by (simp add: FRAME_NR_def BLOCK_SIZE_def BLOCK_NR_def FRAME_SIZE_def)

definition rx_inv :: "RawSocketManager \<Rightarrow> bool" where
  "rx_inv rs \<longleftrightarrow> rx_idx rs < FRAME_NR"

lemma rx_inv_advance: "rx_inv (advance_frame rs)"
  by (simp add: rx_inv_def advance_frame_def)

definition ready_slots :: "RawSocketManager \<Rightarrow> nat set" where
  "ready_slots rs = {i. i < FRAME_NR \<and> status_user (rx_slots rs i)}"

lemma finite_ready [simp]: "finite (ready_slots rs)"
  by (simp add: ready_slots_def)

lemma ready_advance: "ready_slots (advance_frame rs) = ready_slots rs - {rx_idx rs}"
  by (auto simp: ready_slots_def advance_frame_def)

lemma card_ready_advance:
  assumes "rx_inv rs" "status_user (rx_slots rs (rx_idx rs))"
  shows "card (ready_slots (advance_frame rs)) < card (ready_slots rs)"
proof -
  have "rx_idx rs \<in> ready_slots rs" using assms by (simp add: ready_slots_def rx_inv_def)
  then show ?thesis unfolding ready_advance by (intro card_Diff1_less finite_ready)
qed

text \<open>The search returns.  It skips only frames the host has sent itself, and gives these back to the kernel.\<close>

lemma peek_frame_result:
  assumes "rx_inv rs"
  shows "\<exists>k r. peek_frame rs = Some (r, (advance_frame ^^ k) rs) \<and> k \<le> card (ready_slots rs) \<and>
    (let rs' = (advance_frame ^^ k) rs; hdr = rx_slots rs' (rx_idx rs') in
     rx_inv rs' \<and> (r = None \<longleftrightarrow> \<not> status_user hdr) \<and>
     (r \<noteq> None \<longrightarrow> \<not> pkt_outgoing hdr \<and> r = Some (rx_span rs' (rx_idx rs')))) \<and>
    (\<forall>j < k. status_user (rx_slots ((advance_frame ^^ j) rs) (rx_idx ((advance_frame ^^ j) rs))) \<and>
       pkt_outgoing (rx_slots ((advance_frame ^^ j) rs) (rx_idx ((advance_frame ^^ j) rs))))"
  using assms
proof (induction "card (ready_slots rs)" arbitrary: rs rule: less_induct)
  case less
  let ?hdr = "rx_slots rs (rx_idx rs)"
  show ?case
  proof (cases "status_user ?hdr \<and> pkt_outgoing ?hdr")
    case False
    then show ?thesis using less.prems by (intro exI [of _ 0]) (subst peek_frame.simps, auto simp: Let_def)
  next
    case True
    have lt: "card (ready_slots (advance_frame rs)) < card (ready_slots rs)" using card_ready_advance less.prems True by blast
    have shift: "(advance_frame ^^ j) (advance_frame rs) = (advance_frame ^^ Suc j) rs" for j
      by (simp only: funpow_Suc_right o_apply)
    obtain k r where k: "peek_frame (advance_frame rs) = Some (r, (advance_frame ^^ Suc k) rs)" "k \<le> card (ready_slots (advance_frame rs))"
      "let rs' = (advance_frame ^^ Suc k) rs; hdr = rx_slots rs' (rx_idx rs') in
       rx_inv rs' \<and> (r = None \<longleftrightarrow> \<not> status_user hdr) \<and>
       (r \<noteq> None \<longrightarrow> \<not> pkt_outgoing hdr \<and> r = Some (rx_span rs' (rx_idx rs')))"
      "\<forall>j < k. status_user (rx_slots ((advance_frame ^^ Suc j) rs) (rx_idx ((advance_frame ^^ Suc j) rs))) \<and>
       pkt_outgoing (rx_slots ((advance_frame ^^ Suc j) rs) (rx_idx ((advance_frame ^^ Suc j) rs)))"
      using less.hyps [OF lt rx_inv_advance] unfolding shift by blast
    have "peek_frame rs = Some (r, (advance_frame ^^ Suc k) rs)" using True k(1) by (subst peek_frame.simps) (simp add: Let_def)
    moreover have "\<forall>j < Suc k. status_user (rx_slots ((advance_frame ^^ j) rs) (rx_idx ((advance_frame ^^ j) rs))) \<and>
       pkt_outgoing (rx_slots ((advance_frame ^^ j) rs) (rx_idx ((advance_frame ^^ j) rs)))"
      using True k(4) by (auto simp only: All_less_Suc2 funpow.simps(1) id_apply)
    moreover have "Suc k \<le> card (ready_slots rs)" using k(2) lt by linarith
    ultimately show ?thesis using k(3) by blast
  qed
qed

end
