(* ===== verification/Workers.thy ===== *)
theory Workers
  imports RawSocket Eventfd Forward_Correct
begin

text \<open>
  The \<^verbatim>\<open>Forward_Engine\<close> of \<^verbatim>\<open>App.cpp\<close>: two workers, each with a thread that copies frames from the receive ring into
  a queue and a thread that runs the pipeline on them.  A thread is a program counter; one step is one access to what the
  threads share.  Each worker has two \<^verbatim>\<open>eventfd\<close>s: a counter of queued frames and the stop semaphore.  \<^verbatim>\<open>poll\<close> may fail or be
  interrupted at any moment; the kernel may fill free slots of the receive ring at any moment.
\<close>

section \<open>State\<close>

datatype rx_pc = R_loop | R_poll | R_read | R_drain | R_notify | R_done

datatype proc_pc = P_loop | P_pop | P_shape | P_poll | P_read_stop | P_read_frame | P_done

record Worker =
  wk_rx :: RawSocketManager
  wk_consumer :: PacketConsumer
  wk_frames :: "bytes SpscRingBuffer"
  frame_efd :: "nat option"
  stop_efd :: "nat option"
  rx_thread :: rx_pc
  proc_thread :: proc_pc

datatype engine_pc = F_run | F_wake | F_join | F_stopped

record Forward_Engine =
  fe_running :: bool
  fe_workers :: "nat \<Rightarrow> Worker"
  fe_main :: engine_pc
  fe_shared :: Shared

definition upd_worker :: "nat \<Rightarrow> (Worker \<Rightarrow> Worker) \<Rightarrow> Forward_Engine \<Rightarrow> Forward_Engine" where
  "upd_worker i f fe = fe\<lparr>fe_workers := (fe_workers fe)(i := f (fe_workers fe i))\<rparr>"

section \<open>Starting and waking\<close>

text \<open>Creating the \<^verbatim>\<open>eventfd\<close>s, with the answers of the kernel; on a failure all are closed again.\<close>

definition close_poll_fds :: "Forward_Engine \<Rightarrow> Forward_Engine" where
  "close_poll_fds fe = fe\<lparr>fe_workers := (\<lambda>i. (fe_workers fe i)\<lparr>frame_efd := None, stop_efd := None\<rparr>)\<rparr>"

fun open_loop :: "nat list \<Rightarrow> (nat \<Rightarrow> bool) \<Rightarrow> (nat \<Rightarrow> bool) \<Rightarrow> string \<Rightarrow> Forward_Engine \<Rightarrow> (string + unit) \<times> Forward_Engine" where
  "open_loop [] frame_ok stop_ok err fe = (Inr (), fe)"
| "open_loop (i # is) frame_ok stop_ok err fe =
     (let fe = upd_worker i (\<lambda>w. w\<lparr>frame_efd := if frame_ok i then Some 0 else None,
                                   stop_efd := if stop_ok i then Some 0 else None\<rparr>) fe in
      if frame_efd (fe_workers fe i) = None \<or> stop_efd (fe_workers fe i) = None
      then (Inl (''eventfd for worker poll sync failed: '' @ err), close_poll_fds fe)
      else open_loop is frame_ok stop_ok err fe)"

definition open_poll_fds ::
  "(nat \<Rightarrow> bool) \<Rightarrow> (nat \<Rightarrow> bool) \<Rightarrow> string \<Rightarrow> Forward_Engine \<Rightarrow> (string + unit) \<times> Forward_Engine" where
  "open_poll_fds frame_ok stop_ok err fe = open_loop [0, 1] frame_ok stop_ok err (close_poll_fds fe)"

definition wake_workers :: "Forward_Engine \<Rightarrow> Forward_Engine" where
  "wake_workers fe =
     fe\<lparr>fe_workers := (\<lambda>i. (fe_workers fe i)\<lparr>stop_efd := map_option (efd_write 2) (stop_efd (fe_workers fe i))\<rparr>)\<rparr>"

text \<open>The frame queue starts empty; the threads of a worker start at their loops.\<close>

definition start_worker :: "RawSocketManager \<Rightarrow> PacketWorkerConfig \<Rightarrow> Worker \<Rightarrow> Worker" where
  "start_worker rx cfg w =
     w\<lparr>wk_rx := rx, wk_consumer := PacketConsumer_new (rs_fd rx) cfg, wk_frames := spsc_empty [],
       rx_thread := R_loop, proc_thread := P_loop\<rparr>"

definition fe_start ::
  "(nat \<Rightarrow> bool) \<Rightarrow> (nat \<Rightarrow> bool) \<Rightarrow> string \<Rightarrow> RawSocketManager \<Rightarrow> RawSocketManager \<Rightarrow> int \<Rightarrow> int \<Rightarrow>
     CallbackRegistry \<Rightarrow> CallbackRegistry \<Rightarrow> Forward_Engine \<Rightarrow> (string + unit) \<times> Forward_Engine" where
  "fe_start frame_ok stop_ok err wan lan fd_wan fd_lan dl_events ul_events fe =
     (case open_poll_fds frame_ok stop_ok err fe of
        (Inl e, fe) \<Rightarrow> (Inl e, fe)
      | (Inr _, fe) \<Rightarrow>
          let fe = fe\<lparr>fe_running := True, fe_main := F_run\<rparr>;
              fe = upd_worker 0 (start_worker wan (downstream_config fd_lan dl_events)) fe;
              fe = upd_worker 1 (start_worker lan (upstream_config fd_wan ul_events)) fe
          in (Inr (), fe))"

section \<open>The receiving thread\<close>

text \<open>\<^verbatim>\<open>RxFrameCopy\<close>: at most 2048 bytes of a frame are kept.\<close>

definition copy_frame :: "bytes \<Rightarrow> bytes" where
  "copy_frame raw = take 2048 raw"

datatype wk_event = Silent | Pushed bytes | Refused bytes | Processed bytes

abbreviation wk_stop :: "Worker \<Rightarrow> nat" where
  "wk_stop w \<equiv> the (stop_efd w)"

abbreviation wk_ready :: "Worker \<Rightarrow> nat" where
  "wk_ready w \<equiv> the (frame_efd w)"

abbreviation upd_world :: "(World \<Rightarrow> World) \<Rightarrow> Forward_Engine \<Rightarrow> Forward_Engine" where
  "upd_world f fe \<equiv> fe\<lparr>fe_shared := (fe_shared fe)\<lparr>sh_world := f (sh_world (fe_shared fe))\<rparr>\<rparr>"

definition rx_goto :: "nat \<Rightarrow> rx_pc \<Rightarrow> Forward_Engine \<Rightarrow> Forward_Engine" where
  "rx_goto i pc = upd_worker i (\<lambda>w. w\<lparr>rx_thread := pc\<rparr>)"

inductive rx_step :: "nat \<Rightarrow> Forward_Engine \<Rightarrow> wk_event \<Rightarrow> Forward_Engine \<Rightarrow> bool" for i where
  rx_loop_run: "w = fe_workers fe i \<Longrightarrow> rx_thread w = R_loop \<Longrightarrow> fe_running fe \<Longrightarrow> rx_step i fe Silent (rx_goto i R_poll fe)"
| rx_loop_exit: "w = fe_workers fe i \<Longrightarrow> rx_thread w = R_loop \<Longrightarrow> \<not> fe_running fe \<Longrightarrow> rx_step i fe Silent (rx_goto i R_done fe)"
| rx_eintr: "w = fe_workers fe i \<Longrightarrow> rx_thread w = R_poll \<Longrightarrow> rx_step i fe Silent (rx_goto i R_loop fe)"
| rx_fatal: "w = fe_workers fe i \<Longrightarrow> rx_thread w = R_poll \<Longrightarrow>
    rx_step i fe Silent (rx_goto i R_done (upd_world (\<lambda>v. v\<lparr>tel := notify_rx_poll_fatal 2 (tel v)\<rparr>) fe))"
| rx_in_stop: "w = fe_workers fe i \<Longrightarrow> rx_thread w = R_poll \<Longrightarrow> 0 < wk_stop w \<Longrightarrow> rx_step i fe Silent (rx_goto i R_read fe)"
| rx_in_frames: "w = fe_workers fe i \<Longrightarrow> rx_thread w = R_poll \<Longrightarrow> wk_stop w = 0 \<Longrightarrow> rx_step i fe Silent (rx_goto i R_drain fe)"
| rx_read: "w = fe_workers fe i \<Longrightarrow> rx_thread w = R_read \<Longrightarrow> sem_read (wk_stop w) = Some n \<Longrightarrow>
    rx_step i fe Silent (upd_worker i (\<lambda>w. w\<lparr>stop_efd := Some n, rx_thread := R_done\<rparr>) fe)"
| rx_drain_exit: "w = fe_workers fe i \<Longrightarrow> rx_thread w = R_drain \<Longrightarrow> \<not> fe_running fe \<Longrightarrow> rx_step i fe Silent (rx_goto i R_loop fe)"
| rx_drain_empty: "w = fe_workers fe i \<Longrightarrow> rx_thread w = R_drain \<Longrightarrow> fe_running fe \<Longrightarrow> peek_frame (wk_rx w) = Some (None, rs) \<Longrightarrow>
    rx_step i fe Silent (upd_worker i (\<lambda>w. w\<lparr>wk_rx := rs, rx_thread := R_loop\<rparr>) fe)"
| rx_push: "w = fe_workers fe i \<Longrightarrow> rx_thread w = R_drain \<Longrightarrow> fe_running fe \<Longrightarrow> peek_frame (wk_rx w) = Some (Some raw, rs) \<Longrightarrow>
    spsc_push 1024 (wk_frames w) (copy_frame raw) = (True, q) \<Longrightarrow>
    rx_step i fe (Pushed (copy_frame raw)) (upd_worker i (\<lambda>w. w\<lparr>wk_rx := rs, wk_frames := q, rx_thread := R_notify\<rparr>) fe)"
| rx_full: "w = fe_workers fe i \<Longrightarrow> rx_thread w = R_drain \<Longrightarrow> fe_running fe \<Longrightarrow> peek_frame (wk_rx w) = Some (Some raw, rs) \<Longrightarrow>
    spsc_push 1024 (wk_frames w) (copy_frame raw) = (False, q) \<Longrightarrow>
    rx_step i fe (Refused (copy_frame raw))
      (upd_worker i (\<lambda>w. w\<lparr>wk_rx := advance_frame rs, wk_frames := q\<rparr>)
        (upd_world (\<lambda>v. v\<lparr>tel := count_drop (nat (core_id (wk_consumer w))) 0 (tel v)\<rparr>) fe))"
| rx_notify: "w = fe_workers fe i \<Longrightarrow> rx_thread w = R_notify \<Longrightarrow>
    rx_step i fe Silent (upd_worker i (\<lambda>w. w\<lparr>frame_efd := map_option (efd_write 1) (frame_efd w),
      wk_rx := advance_frame (wk_rx w), rx_thread := R_drain\<rparr>) fe)"

section \<open>The processing thread\<close>

definition proc_goto :: "nat \<Rightarrow> proc_pc \<Rightarrow> Forward_Engine \<Rightarrow> Forward_Engine" where
  "proc_goto i pc = upd_worker i (\<lambda>w. w\<lparr>proc_thread := pc\<rparr>)"

definition run_shaper :: "Worker \<Rightarrow> Shared \<Rightarrow> Shared option" where
  "run_shaper w s =
     (case rc_shaper (ctx (wk_consumer w)) of
        None \<Rightarrow> Some s
      | Some k \<Rightarrow>
          do {
            (sh, v) \<leftarrow> process_queue (tx_fd (wk_consumer w)) (sh_shapers s k) (sh_world s);
            Some (s\<lparr>sh_shapers := (sh_shapers s)(k := sh), sh_world := v\<rparr>)
          })"

inductive proc_step :: "nat \<Rightarrow> Forward_Engine \<Rightarrow> wk_event \<Rightarrow> Forward_Engine \<Rightarrow> bool" for i where
  proc_loop_run: "w = fe_workers fe i \<Longrightarrow> proc_thread w = P_loop \<Longrightarrow> fe_running fe \<Longrightarrow> proc_step i fe Silent (proc_goto i P_pop fe)"
| proc_loop_exit: "w = fe_workers fe i \<Longrightarrow> proc_thread w = P_loop \<Longrightarrow> \<not> fe_running fe \<Longrightarrow> proc_step i fe Silent (proc_goto i P_done fe)"
| proc_frame: "w = fe_workers fe i \<Longrightarrow> proc_thread w = P_pop \<Longrightarrow> spsc_pop 1024 (wk_frames w) = (Some fr, q) \<Longrightarrow>
    process_frame (wk_consumer w) fr (fe_shared fe) = Some (c, s) \<Longrightarrow>
    proc_step i fe (Processed fr) (upd_worker i (\<lambda>w. w\<lparr>wk_frames := q, wk_consumer := c\<rparr>) (fe\<lparr>fe_shared := s\<rparr>))"
| proc_empty: "w = fe_workers fe i \<Longrightarrow> proc_thread w = P_pop \<Longrightarrow> spsc_pop 1024 (wk_frames w) = (None, q) \<Longrightarrow>
    proc_step i fe Silent (upd_worker i (\<lambda>w. w\<lparr>wk_frames := q, proc_thread := P_shape\<rparr>) fe)"
| proc_shape: "w = fe_workers fe i \<Longrightarrow> proc_thread w = P_shape \<Longrightarrow> run_shaper w (fe_shared fe) = Some s \<Longrightarrow>
    proc_step i fe Silent (proc_goto i (if frame_efd w = None \<or> stop_efd w = None then P_done else P_poll) (fe\<lparr>fe_shared := s\<rparr>))"
| proc_eintr: "w = fe_workers fe i \<Longrightarrow> proc_thread w = P_poll \<Longrightarrow> proc_step i fe Silent (proc_goto i P_loop fe)"
| proc_error: "w = fe_workers fe i \<Longrightarrow> proc_thread w = P_poll \<Longrightarrow> proc_step i fe Silent (proc_goto i P_done fe)"
| proc_in_stop: "w = fe_workers fe i \<Longrightarrow> proc_thread w = P_poll \<Longrightarrow> 0 < wk_stop w \<Longrightarrow> proc_step i fe Silent (proc_goto i P_read_stop fe)"
| proc_in_frame: "w = fe_workers fe i \<Longrightarrow> proc_thread w = P_poll \<Longrightarrow> wk_stop w = 0 \<Longrightarrow> 0 < wk_ready w \<Longrightarrow>
    proc_step i fe Silent (proc_goto i P_read_frame fe)"
| proc_read_stop: "w = fe_workers fe i \<Longrightarrow> proc_thread w = P_read_stop \<Longrightarrow> sem_read (wk_stop w) = Some n \<Longrightarrow>
    proc_step i fe Silent (upd_worker i (\<lambda>w. w\<lparr>stop_efd := Some n, proc_thread := P_done\<rparr>) fe)"
| proc_read_frame: "w = fe_workers fe i \<Longrightarrow> proc_thread w = P_read_frame \<Longrightarrow> efd_read (wk_ready w) = Some n \<Longrightarrow>
    proc_step i fe Silent (upd_worker i (\<lambda>w. w\<lparr>frame_efd := Some n, proc_thread := P_loop\<rparr>) fe)"

section \<open>The engine\<close>

definition workers_done :: "Forward_Engine \<Rightarrow> bool" where
  "workers_done fe \<longleftrightarrow> (\<forall>i < 2. rx_thread (fe_workers fe i) = R_done \<and> proc_thread (fe_workers fe i) = P_done)"

inductive fe_stop_step :: "Forward_Engine \<Rightarrow> Forward_Engine \<Rightarrow> bool" where
  fe_flag: "fe_main fe = F_run \<Longrightarrow> fe_stop_step fe (fe\<lparr>fe_running := False, fe_main := F_wake\<rparr>)"
| fe_wake: "fe_main fe = F_wake \<Longrightarrow> fe_stop_step fe ((wake_workers fe)\<lparr>fe_main := F_join\<rparr>)"
| fe_joined: "fe_main fe = F_join \<Longrightarrow> workers_done fe \<Longrightarrow> fe_stop_step fe ((close_poll_fds fe)\<lparr>fe_main := F_stopped\<rparr>)"

text \<open>The kernel fills slots of a receive ring that it owns.\<close>

definition kernel_fills :: "RawSocketManager \<Rightarrow> RawSocketManager \<Rightarrow> bool" where
  "kernel_fills rs rs' \<longleftrightarrow> (\<exists>sl m. rs' = rs\<lparr>rx_slots := sl, rx_mem := m\<rparr> \<and>
     (\<forall>k. status_user (rx_slots rs k) \<longrightarrow> sl k = rx_slots rs k))"

datatype fe_label = Worker nat wk_event | Arrive nat | Halt

inductive fe_step :: "Forward_Engine \<Rightarrow> fe_label \<Rightarrow> Forward_Engine \<Rightarrow> bool" where
  fe_rx: "i < 2 \<Longrightarrow> rx_step i fe e fe' \<Longrightarrow> fe_step fe (Worker i e) fe'"
| fe_proc: "i < 2 \<Longrightarrow> proc_step i fe e fe' \<Longrightarrow> fe_step fe (Worker i e) fe'"
| fe_arrive: "i < 2 \<Longrightarrow> kernel_fills (wk_rx (fe_workers fe i)) rs \<Longrightarrow> fe_step fe (Arrive i) (upd_worker i (\<lambda>w. w\<lparr>wk_rx := rs\<rparr>) fe)"
| fe_stop: "fe_stop_step fe fe' \<Longrightarrow> fe_step fe Halt fe'"

inductive fe_run :: "Forward_Engine \<Rightarrow> fe_label list \<Rightarrow> Forward_Engine \<Rightarrow> bool" where
  fe_run_nil: "fe_run fe [] fe"
| fe_run_snoc: "fe_run fe ls fe1 \<Longrightarrow> fe_step fe1 l fe2 \<Longrightarrow> fe_run fe (ls @ [l]) fe2"

end
