(* ===== verification/Workers_Correct.thy ===== *)
theory Workers_Correct
  imports Workers
begin

text \<open>
  The threads of the data plane: no frame is lost or reordered between the receiving and the processing thread, the
  processing thread never sleeps over a queued frame, stopping ends all four threads, and what a throttled shaper does.
\<close>

section \<open>What the threads rely on\<close>

definition shared_ok :: "Shared \<Rightarrow> bool" where
  "shared_ok s \<longleftrightarrow> sends_return (sh_world s) \<and> atomic_sends (sh_world s) \<and>
     (\<forall>k < 2. zrb_inv 8192 (normal_queue (sh_shapers s k)) \<and> quiet (sh_shapers s k))"

lemma enqueue_ok:
  assumes "zrb_inv 8192 (normal_queue sh)" "quiet sh"
  shows "zrb_inv 8192 (normal_queue (fst (enqueue_normal pkt sh w))) \<and> quiet (fst (enqueue_normal pkt sh w))"
proof -
  obtain ok q where p: "zrb_push 8192 (normal_queue sh) pkt = (ok, q)" by fastforce
  have "zrb_inv 8192 q" using zrb_inv_push [OF assms(1), of pkt] p by simp
  then show ?thesis using assms(2) by (auto simp: enqueue_normal_def p Let_def quiet_def)
qed

lemma commit_stats_keeps: "ctx (fst (commit_stats c s)) = ctx c"
  by (simp add: commit_stats_def)

lemma process_frame_ok:
  assumes "consumer_ok c" "shared_ok s"
  shows "\<exists>c' s'. process_frame c fr s = Some (c', s') \<and> consumer_ok c' \<and> shared_ok s'"
proof -
  have w: "sends_return (sh_world s)" "atomic_sends (sh_world s)" using assms(2) by (simp_all add: shared_ok_def)
  show ?thesis
    using assms(1) w
  proof (cases rule: process_frame_result [where fr = fr])
    case (consumed s1)
    obtain c' s' where cs: "commit_stats c s1 = (c', s')" by fastforce
    note e = commit_stats_effect [OF assms(1) cs]
    show ?thesis using consumed cs e assms(2) same_kernel_returns same_kernel_atomic by (auto simp: shared_ok_def)
  next
    case (forwarded prio fr' s1)
    let ?c = "c\<lparr>stats := count_packet (prio_index prio) (length fr') (stats c)\<rparr>"
    obtain c' s' where cs: "commit_stats ?c s1 = (c', s')" by fastforce
    have ok: "consumer_ok ?c" using assms(1) by simp
    note e = commit_stats_effect [OF ok cs]
    have "same_kernel (sh_world s) (sh_world s')" using forwarded(5) e(6) same_kernel_trans by blast
    then have k: "sends_return (sh_world s')" "atomic_sends (sh_world s')" using w same_kernel_returns same_kernel_atomic by blast+
    have "\<forall>k < 2. zrb_inv 8192 (normal_queue (sh_shapers s1 k)) \<and> quiet (sh_shapers s1 k)"
      using forwarded(4) assms(2) enqueue_ok by (auto simp: routed_def shared_ok_def Let_def split: if_splits)
    then show ?thesis using forwarded(2) cs e k by (auto simp: shared_ok_def)
  qed
qed

lemma run_shaper_ok:
  assumes "consumer_ok (wk_consumer w)" "shared_ok s"
  shows "\<exists>s'. run_shaper w s = Some s' \<and> shared_ok s'"
proof -
  obtain k where k: "rc_shaper (ctx (wk_consumer w)) = Some k" "k < 2" using assms(1) by (auto simp: consumer_ok_def)
  have o: "zrb_inv 8192 (normal_queue (sh_shapers s k))" "quiet (sh_shapers s k)" "sends_return (sh_world s)" "atomic_sends (sh_world s)"
    using assms(2) k(2) by (auto simp: shared_ok_def)
  obtain sh v sent where d: "process_queue (tx_fd (wk_consumer w)) (sh_shapers s k) (sh_world s) = Some (sh, v)"
    "drained (tx_fd (wk_consumer w)) (sh_shapers s k) (sh_world s) sh v sent"
    using process_queue_drained [OF o(1,3,4,2)] by blast
  have "sends_return v" "atomic_sends v" "zrb_inv 8192 (normal_queue sh)" "quiet sh"
    using d(2) o same_kernel_returns same_kernel_atomic by (auto simp: drained_def quiet_def)
  then show ?thesis using assms(2) k d(1) by (auto simp: run_shaper_def shared_ok_def)
qed

definition worker_ok :: "Worker \<Rightarrow> bool" where
  "worker_ok w \<longleftrightarrow> spsc_inv 1024 (wk_frames w) \<and> consumer_ok (wk_consumer w) \<and> rx_inv (wk_rx w) \<and>
     (proc_thread w = P_read_frame \<longrightarrow> 0 < wk_ready w) \<and>
     (proc_thread w \<in> {P_shape, P_poll} \<longrightarrow> spsc_items 1024 (wk_frames w) \<noteq> [] \<longrightarrow> 0 < wk_ready w \<or> rx_thread w = R_notify)"

definition efds_open :: "Worker \<Rightarrow> bool" where
  "efds_open w \<longleftrightarrow> frame_efd w \<noteq> None \<and> stop_efd w \<noteq> None"

lemma upd_worker_simps [simp]:
  "fe_workers (upd_worker i f fe) j = (if j = i then f (fe_workers fe i) else fe_workers fe j)"
  "fe_running (upd_worker i f fe) = fe_running fe" "fe_main (upd_worker i f fe) = fe_main fe"
  "fe_shared (upd_worker i f fe) = fe_shared fe"
  by (simp_all add: upd_worker_def)

lemmas goto_defs = rx_goto_def proc_goto_def

lemma spsc_inv_push: "spsc_inv N q \<Longrightarrow> spsc_inv N (snd (spsc_push N q x))"
  by (auto simp: spsc_inv_def spsc_push_def Let_def)

lemma spsc_inv_pop: "spsc_inv N q \<Longrightarrow> spsc_inv N (snd (spsc_pop N q))"
  by (auto simp: spsc_inv_def spsc_pop_def Let_def)

lemma spsc_pop_result:
  assumes "spsc_inv N q" "spsc_pop N q = (r, q')"
  shows "case r of None \<Rightarrow> spsc_items N q = [] \<and> q' = q | Some x \<Rightarrow> spsc_items N q = x # spsc_items N q'"
proof (cases "head q = tail q")
  case True
  then show ?thesis using assms spsc_count_0_iff [OF assms(1)] by (auto simp: spsc_pop_def spsc_items_def)
next
  case False
  then have c: "0 < spsc_count N q" using spsc_count_0_iff [OF assms(1)] by simp
  then have "hd (spsc_items N q) = buffer q (head q)" using assms(1) by (simp add: spsc_items_def hd_ring_list spsc_inv_def)
  moreover have "spsc_items N q \<noteq> []" using c by (simp add: spsc_items_def)
  ultimately show ?thesis using False assms spsc_pop_items [OF assms(1)] by (cases "spsc_items N q") (auto simp: spsc_pop_def Let_def)
qed


section \<open>Steps\<close>

abbreviation frames :: "Forward_Engine \<Rightarrow> nat \<Rightarrow> bytes list" where
  "frames fe i \<equiv> spsc_items 1024 (wk_frames (fe_workers fe i))"

fun queue_effect :: "wk_event \<Rightarrow> bytes list \<Rightarrow> bytes list \<Rightarrow> bool" where
  "queue_effect (Pushed fr) q q' \<longleftrightarrow> q' = q @ [fr]"
| "queue_effect (Processed fr) q q' \<longleftrightarrow> q = fr # q'"
| "queue_effect _ q q' \<longleftrightarrow> q' = q"

lemma peek_inv: "rx_inv rs \<Longrightarrow> peek_frame rs = Some (r, rs') \<Longrightarrow> rx_inv rs'"
  using peek_frame_result [of rs] by (auto simp: Let_def)

lemma shared_ok_tel [simp]:
  "shared_ok (s\<lparr>sh_world := (sh_world s)\<lparr>tel := t\<rparr>\<rparr>) = shared_ok s"
  by (simp add: shared_ok_def sends_return_def atomic_sends_def)

definition step_ok :: "nat \<Rightarrow> Forward_Engine \<Rightarrow> wk_event \<Rightarrow> Forward_Engine \<Rightarrow> bool" where
  "step_ok i fe e fe' \<longleftrightarrow> worker_ok (fe_workers fe' i) \<and> efds_open (fe_workers fe' i) \<and> shared_ok (fe_shared fe') \<and>
     (\<forall>j. j \<noteq> i \<longrightarrow> fe_workers fe' j = fe_workers fe j) \<and> fe_main fe' = fe_main fe \<and> fe_running fe' = fe_running fe \<and>
     queue_effect e (frames fe i) (frames fe' i)"

lemma rx_step_ok:
  assumes "rx_step i fe e fe'" "worker_ok (fe_workers fe i)" "efds_open (fe_workers fe i)" "shared_ok (fe_shared fe)"
  shows "step_ok i fe e fe'"
  using assms(1)
proof cases
  case (rx_push w raw rs q)
  have inv: "spsc_inv 1024 (wk_frames (fe_workers fe i))" "rx_inv (wk_rx (fe_workers fe i))" using assms(2) by (simp_all add: worker_ok_def)
  have "spsc_items 1024 q = frames fe i @ [copy_frame raw]" "spsc_inv 1024 q" "rx_inv rs"
    using spsc_push_items [OF inv(1), of "copy_frame raw"] spsc_inv_push [OF inv(1), of "copy_frame raw"] peek_inv [OF inv(2)] rx_push by auto
  then show ?thesis using rx_push assms by (simp add: step_ok_def worker_ok_def efds_open_def)
next
  case (rx_full w raw rs q)
  have inv: "spsc_inv 1024 (wk_frames (fe_workers fe i))" using assms(2) by (simp add: worker_ok_def)
  have "spsc_items 1024 q = frames fe i" "spsc_inv 1024 q"
    using spsc_push_items [OF inv, of "copy_frame raw"] spsc_inv_push [OF inv, of "copy_frame raw"] rx_full by auto
  then show ?thesis using rx_full assms by (simp add: step_ok_def worker_ok_def efds_open_def rx_inv_advance)
next
  case (rx_drain_empty w rs)
  then show ?thesis using assms peek_inv [of "wk_rx w"] by (auto simp: step_ok_def worker_ok_def efds_open_def)
qed (use assms in \<open>auto simp: step_ok_def worker_ok_def efds_open_def goto_defs rx_inv_advance efd_write_def\<close>)

lemma proc_step_ok:
  assumes "proc_step i fe e fe'" "worker_ok (fe_workers fe i)" "efds_open (fe_workers fe i)" "shared_ok (fe_shared fe)"
  shows "step_ok i fe e fe'"
  using assms(1)
proof cases
  case (proc_frame w fr q c s)
  have inv: "spsc_inv 1024 (wk_frames (fe_workers fe i))" "consumer_ok (wk_consumer (fe_workers fe i))" using assms(2) by (simp_all add: worker_ok_def)
  have "frames fe i = fr # spsc_items 1024 q" "spsc_inv 1024 q"
    using spsc_pop_result [OF inv(1)] spsc_inv_pop [OF inv(1)] proc_frame by (auto split: option.splits)
  moreover have "consumer_ok c" "shared_ok s" using process_frame_ok [OF inv(2) assms(4), of fr] proc_frame by auto
  ultimately show ?thesis using proc_frame assms by (simp add: step_ok_def worker_ok_def efds_open_def)
next
  case (proc_empty w q)
  then have "frames fe i = []" "q = wk_frames w" using spsc_pop_result assms(2) by (fastforce simp: worker_ok_def)+
  then show ?thesis using proc_empty assms by (simp add: step_ok_def worker_ok_def efds_open_def)
next
  case (proc_shape w s)
  have "shared_ok s" using run_shaper_ok [of w "fe_shared fe"] proc_shape assms by (auto simp: worker_ok_def)
  then show ?thesis using proc_shape assms by (auto simp: step_ok_def worker_ok_def efds_open_def goto_defs)
qed (use assms in \<open>auto simp: step_ok_def worker_ok_def efds_open_def goto_defs\<close>)


section \<open>Shutdown\<close>

text \<open>Thread \<open>2 * i\<close> receives for worker \<open>i\<close>, thread \<open>2 * i + 1\<close> processes for it.\<close>

definition worker_threads :: "Forward_Engine \<Rightarrow> nat set" where
  "worker_threads fe = {t. t < 4 \<and> (if even t then rx_thread (fe_workers fe (t div 2)) \<noteq> R_done
     else proc_thread (fe_workers fe (t div 2)) \<noteq> P_done)}"

definition worker_tokens :: "Forward_Engine \<Rightarrow> nat \<Rightarrow> nat" where
  "worker_tokens fe g = (if g < 2 then wk_stop (fe_workers fe g) else 0)"

fun rx_work :: "rx_pc \<Rightarrow> nat" where
  "rx_work R_done = 0" | "rx_work R_loop = 1" | "rx_work R_read = 1" | "rx_work R_drain = 2" | "rx_work _ = 3"

fun proc_work :: "proc_pc \<Rightarrow> nat" where
  "proc_work P_done = 0" | "proc_work P_loop = 1" | "proc_work P_read_stop = 1" | "proc_work P_read_frame = 2"
| "proc_work P_poll = 3" | "proc_work P_shape = 4" | "proc_work P_pop = 5"

definition worker_work :: "Worker \<Rightarrow> nat" where
  "worker_work w = rx_work (rx_thread w) + proc_work (proc_thread w) + length (spsc_items 1024 (wk_frames w))"

definition engine_work :: "Forward_Engine \<Rightarrow> nat" where
  "engine_work fe = worker_work (fe_workers fe 0) + worker_work (fe_workers fe 1)"

definition workers_stopping :: "Forward_Engine \<Rightarrow> bool" where
  "workers_stopping fe \<longleftrightarrow> \<not> fe_running fe \<and> shared_ok (fe_shared fe) \<and>
     (\<forall>i < 2. worker_ok (fe_workers fe i) \<and> efds_open (fe_workers fe i))"

definition worker_step :: "Forward_Engine \<Rightarrow> Forward_Engine \<Rightarrow> bool" where
  "worker_step fe fe' \<longleftrightarrow> (\<exists>i < 2. \<exists>e. rx_step i fe e fe' \<or> proc_step i fe e fe')"

text \<open>A step of a stopping worker brings it nearer to its end, and either keeps its semaphore or ends a thread.\<close>

lemma rx_step_work:
  assumes "rx_step i fe e fe'" "\<not> fe_running fe"
  shows "worker_work (fe_workers fe' i) < worker_work (fe_workers fe i)"
    "stop_efd (fe_workers fe' i) = stop_efd (fe_workers fe i) \<or>
     rx_thread (fe_workers fe i) \<noteq> R_done \<and> rx_thread (fe_workers fe' i) = R_done \<and> Suc (wk_stop (fe_workers fe' i)) = wk_stop (fe_workers fe i)"
    "rx_thread (fe_workers fe i) \<noteq> R_done" "proc_thread (fe_workers fe' i) = proc_thread (fe_workers fe i)"
  using assms by (cases; auto simp: worker_work_def goto_defs sem_read_def split: if_splits)+

lemma proc_step_work:
  assumes "proc_step i fe e fe'" "\<not> fe_running fe" "worker_ok (fe_workers fe i)"
  shows "worker_work (fe_workers fe' i) < worker_work (fe_workers fe i)"
    "stop_efd (fe_workers fe' i) = stop_efd (fe_workers fe i) \<or>
     proc_thread (fe_workers fe i) \<noteq> P_done \<and> proc_thread (fe_workers fe' i) = P_done \<and> Suc (wk_stop (fe_workers fe' i)) = wk_stop (fe_workers fe i)"
    "proc_thread (fe_workers fe i) \<noteq> P_done" "rx_thread (fe_workers fe' i) = rx_thread (fe_workers fe i)"
proof -
  have q: "spsc_pop 1024 (wk_frames (fe_workers fe i)) = (r, q) \<Longrightarrow>
      case r of None \<Rightarrow> q = wk_frames (fe_workers fe i) | Some x \<Rightarrow> frames fe i = x # spsc_items 1024 q" for r q
    using spsc_pop_result assms(3) by (fastforce simp: worker_ok_def split: option.splits)
  show "worker_work (fe_workers fe' i) < worker_work (fe_workers fe i)"
    using assms(1,2) by cases (use q in \<open>fastforce simp: worker_work_def goto_defs split: if_splits\<close>)+
qed (use assms(1,2) in \<open>cases; auto simp: goto_defs sem_read_def split: if_splits\<close>)+


lemma less_two: "(i :: nat) < 2 \<longleftrightarrow> i = 0 \<or> i = 1"
  by auto

lemma engine_work_less:
  assumes "i < 2" "worker_work (fe_workers fe' i) < worker_work (fe_workers fe i)" "\<forall>j. j \<noteq> i \<longrightarrow> fe_workers fe' j = fe_workers fe j"
  shows "engine_work fe' < engine_work fe"
  using assms by (auto simp: engine_work_def less_two)

lemma stopping_step:
  assumes "workers_stopping fe" "i < 2" "step_ok i fe e fe'"
  shows "workers_stopping fe'"
  using assms by (auto simp: workers_stopping_def step_ok_def)

lemma worker_threads_rx:
  assumes "i < 2" "\<forall>j. j \<noteq> i \<longrightarrow> fe_workers fe' j = fe_workers fe j" "rx_thread (fe_workers fe i) \<noteq> R_done"
    "proc_thread (fe_workers fe' i) = proc_thread (fe_workers fe i)"
  shows "worker_threads fe' = (if rx_thread (fe_workers fe' i) = R_done then worker_threads fe - {2 * i} else worker_threads fe)"
    "2 * i \<in> worker_threads fe"
proof -
  have "t \<in> worker_threads fe' \<longleftrightarrow> t \<in> (if rx_thread (fe_workers fe' i) = R_done then worker_threads fe - {2 * i} else worker_threads fe)" for t
    using assms by (cases "t div 2 = i") (auto simp: worker_threads_def elim!: evenE oddE)
  then show "worker_threads fe' = (if rx_thread (fe_workers fe' i) = R_done then worker_threads fe - {2 * i} else worker_threads fe)" by blast
  show "2 * i \<in> worker_threads fe" using assms by (auto simp: worker_threads_def)
qed

lemma worker_threads_proc:
  assumes "i < 2" "\<forall>j. j \<noteq> i \<longrightarrow> fe_workers fe' j = fe_workers fe j" "proc_thread (fe_workers fe i) \<noteq> P_done"
    "rx_thread (fe_workers fe' i) = rx_thread (fe_workers fe i)"
  shows "worker_threads fe' = (if proc_thread (fe_workers fe' i) = P_done then worker_threads fe - {2 * i + 1} else worker_threads fe)"
    "2 * i + 1 \<in> worker_threads fe"
proof -
  have "t \<in> worker_threads fe' \<longleftrightarrow> t \<in> (if proc_thread (fe_workers fe' i) = P_done then worker_threads fe - {2 * i + 1} else worker_threads fe)" for t
    using assms by (cases "t div 2 = i") (auto simp: worker_threads_def elim!: evenE oddE)
  then show "worker_threads fe' = (if proc_thread (fe_workers fe' i) = P_done then worker_threads fe - {2 * i + 1} else worker_threads fe)" by blast
  show "2 * i + 1 \<in> worker_threads fe" using assms by (auto simp: worker_threads_def)
qed

lemma tokens_other:
  assumes "\<forall>j. j \<noteq> i \<longrightarrow> fe_workers fe' j = fe_workers fe j"
  shows "g \<noteq> i \<Longrightarrow> worker_tokens fe' g = worker_tokens fe g"
    "stop_efd (fe_workers fe' i) = stop_efd (fe_workers fe i) \<Longrightarrow> worker_tokens fe' g = worker_tokens fe g"
  using assms by (auto simp: worker_tokens_def) metis

lemma worker_drain:
  assumes "workers_stopping fe" "worker_step fe fe'"
  shows "workers_stopping fe' \<and> engine_work fe' < engine_work fe \<and>
      (worker_threads fe' \<subseteq> worker_threads fe \<and> (\<forall>g. worker_tokens fe g \<le> worker_tokens fe' g) \<or>
       (\<exists>t \<in> worker_threads fe. worker_threads fe' = worker_threads fe - {t} \<and>
          Suc (worker_tokens fe' (t div 2)) = worker_tokens fe (t div 2) \<and>
          (\<forall>g. g \<noteq> t div 2 \<longrightarrow> worker_tokens fe g \<le> worker_tokens fe' g)))"
proof -
  have run: "\<not> fe_running fe" using assms(1) by (simp add: workers_stopping_def)
  obtain i e where i: "i < 2" "rx_step i fe e fe' \<or> proc_step i fe e fe'" using assms(2) by (auto simp: worker_step_def)
  have w: "worker_ok (fe_workers fe i)" "efds_open (fe_workers fe i)" "shared_ok (fe_shared fe)"
    using assms(1) i(1) by (auto simp: workers_stopping_def)
  have ok: "step_ok i fe e fe'" using i(2) rx_step_ok proc_step_ok w by blast
  then have other: "\<forall>j. j \<noteq> i \<longrightarrow> fe_workers fe' j = fe_workers fe j" by (simp add: step_ok_def)
  note tok = tokens_other [OF other]
  have "worker_work (fe_workers fe' i) < worker_work (fe_workers fe i)"
    using i(2) rx_step_work(1) [OF _ run] proc_step_work(1) [OF _ run w(1)] by blast
  note 1 = stopping_step [OF assms(1) i(1) ok] engine_work_less [OF i(1) this other]
  from i(2) show ?thesis
  proof
    assume s: "rx_step i fe e fe'"
    note thr = worker_threads_rx [OF i(1) other rx_step_work(3,4) [OF s run]]
    have div: "2 * i div 2 = i" by simp
    show ?thesis
      using rx_step_work(2) [OF s run]
    proof
      assume "stop_efd (fe_workers fe' i) = stop_efd (fe_workers fe i)"
      then show ?thesis using 1 tok(2) thr by auto
    next
      assume r: "rx_thread (fe_workers fe i) \<noteq> R_done \<and> rx_thread (fe_workers fe' i) = R_done \<and> Suc (wk_stop (fe_workers fe' i)) = wk_stop (fe_workers fe i)"
      then have "Suc (worker_tokens fe' i) = worker_tokens fe i" using i(1) by (simp add: worker_tokens_def)
      then show ?thesis using 1 tok(1) thr r by (intro conjI disjI2 bexI [of _ "2 * i"]) auto
    qed
  next
    assume s: "proc_step i fe e fe'"
    note thr = worker_threads_proc [OF i(1) other proc_step_work(3,4) [OF s run w(1)]]
    show ?thesis
      using proc_step_work(2) [OF s run w(1)]
    proof
      assume "stop_efd (fe_workers fe' i) = stop_efd (fe_workers fe i)"
      then show ?thesis using 1 tok(2) thr by auto
    next
      assume r: "proc_thread (fe_workers fe i) \<noteq> P_done \<and> proc_thread (fe_workers fe' i) = P_done \<and> Suc (wk_stop (fe_workers fe' i)) = wk_stop (fe_workers fe i)"
      then have "Suc (worker_tokens fe' i) = worker_tokens fe i" using i(1) by (simp add: worker_tokens_def)
      then show ?thesis using 1 tok(1) thr r by (intro conjI disjI2 bexI [of _ "2 * i + 1"]) auto
    qed
  qed
qed


lemma worker_progress:
  assumes "workers_stopping fe" "t \<in> worker_threads fe" "0 < worker_tokens fe (t div 2)"
  shows "\<exists>fe'. worker_step fe fe'"
proof -
  define i where "i = t div 2"
  let ?w = "fe_workers fe i"
  have i: "i < 2" using assms(2) by (auto simp: worker_threads_def i_def)
  have w: "worker_ok ?w" "shared_ok (fe_shared fe)" "\<not> fe_running fe" "0 < wk_stop ?w"
    using assms(1,3) i by (auto simp: workers_stopping_def worker_tokens_def i_def split: if_splits)
  have sem: "sem_read (wk_stop ?w) = Some (wk_stop ?w - 1)" using w(4) by (simp add: sem_read_def)
  have "\<exists>e fe'. rx_step i fe e fe' \<or> proc_step i fe e fe'"
  proof (cases "even t")
    case True
    then have "rx_thread ?w \<noteq> R_done" using assms(2) by (auto simp: worker_threads_def i_def)
    then show ?thesis using w(3) rx_step.rx_read [OF refl _ sem] by (cases "rx_thread ?w") (auto intro: rx_step.intros)
  next
    case False
    then have p: "proc_thread ?w \<noteq> P_done" using assms(2) by (auto simp: worker_threads_def i_def)
    obtain s where s: "run_shaper ?w (fe_shared fe) = Some s" using run_shaper_ok w(1,2) by (auto simp: worker_ok_def)
    have pop: "\<exists>e fe'. proc_step i fe e fe'" if "proc_thread ?w = P_pop"
    proof (cases "spsc_pop 1024 (wk_frames ?w)")
      case (Pair r q)
      show ?thesis
      proof (cases r)
        case None
        then show ?thesis using proc_step.proc_empty [OF refl that] Pair by blast
      next
        case (Some fr)
        obtain c s' where "process_frame (wk_consumer ?w) fr (fe_shared fe) = Some (c, s')"
          using process_frame_ok w(1,2) by (fastforce simp: worker_ok_def)
        then show ?thesis using proc_step.proc_frame [OF refl that] Pair Some by blast
      qed
    qed
    have "\<exists>n. efd_read (wk_ready ?w) = Some n" if "proc_thread ?w = P_read_frame" using that w(1) by (simp add: worker_ok_def efd_read_def)
    then show ?thesis
      using p pop s w(3) proc_step.proc_read_stop [OF refl _ sem] by (cases "proc_thread ?w") (blast intro: proc_step.intros)+
  qed
  then show ?thesis using i by (auto simp: worker_step_def)
qed

interpretation wks: stop_protocol worker_step worker_threads "\<lambda>t. t div 2" worker_tokens workers_stopping engine_work
proof
  show "finite (worker_threads fe)" for fe by (simp add: worker_threads_def)
qed (use worker_drain worker_progress in \<open>auto\<close>)


section \<open>Reachable states\<close>

definition fe_inv :: "Forward_Engine \<Rightarrow> bool" where
  "fe_inv fe \<longleftrightarrow> (fe_running fe \<longleftrightarrow> fe_main fe = F_run) \<and> shared_ok (fe_shared fe) \<and> (\<forall>i < 2. worker_ok (fe_workers fe i)) \<and>
     (fe_main fe \<noteq> F_stopped \<longrightarrow> (\<forall>i < 2. efds_open (fe_workers fe i))) \<and>
     (fe_main fe = F_join \<longrightarrow> wks.draining fe) \<and> (fe_main fe = F_stopped \<longrightarrow> workers_done fe)"

lemma done_no_step: "workers_done fe \<Longrightarrow> \<not> worker_step fe fe'"
  by (auto simp: worker_step_def workers_done_def elim!: rx_step.cases proc_step.cases)

lemma worker_step_inv:
  assumes "fe_inv fe" "i < 2" "rx_step i fe e fe' \<or> proc_step i fe e fe'"
  shows "fe_inv fe' \<and> step_ok i fe e fe'"
proof -
  have ws: "worker_step fe fe'" using assms(2,3) by (auto simp: worker_step_def)
  have m: "fe_main fe \<noteq> F_stopped" using done_no_step ws assms(1) by (auto simp: fe_inv_def)
  then have ok: "step_ok i fe e fe'"
    using assms rx_step_ok proc_step_ok by (auto simp: fe_inv_def)
  moreover have "fe_main fe = F_join \<longrightarrow> wks.draining fe'" using wks.draining_step(1) ws assms(1) by (auto simp: fe_inv_def)
  ultimately show ?thesis using assms(1) m by (auto simp: fe_inv_def step_ok_def)
qed

lemma card_members: "card (wks.members fe g) \<le> 2"
proof -
  have "wks.members fe g \<subseteq> {2 * g, 2 * g + 1}" by (auto simp: wks.members_def)
  then show ?thesis using card_mono [of "{2 * g, 2 * g + 1}" "wks.members fe g"] by simp
qed

lemma members_cong:
  assumes "\<And>i. rx_thread (fe_workers fe' i) = rx_thread (fe_workers fe i) \<and> proc_thread (fe_workers fe' i) = proc_thread (fe_workers fe i)"
  shows "wks.members fe' g = wks.members fe g"
  using assms by (simp add: wks.members_def worker_threads_def)

lemma fe_step_inv:
  assumes "fe_inv fe" "fe_step fe l fe'"
  shows "fe_inv fe'"
  using assms(2)
proof cases
  case (fe_rx i e)
  then show ?thesis using worker_step_inv [OF assms(1)] by blast
next
  case (fe_proc i e)
  then show ?thesis using worker_step_inv [OF assms(1)] by blast
next
  case (fe_arrive i rs)
  have ok: "worker_ok (fe_workers fe' j) = worker_ok (fe_workers fe j)" "efds_open (fe_workers fe' j) = efds_open (fe_workers fe j)"
    "worker_tokens fe' g = worker_tokens fe g" "wks.members fe' g = wks.members fe g" "workers_done fe' = workers_done fe" for j g
    using fe_arrive by (auto simp: worker_ok_def efds_open_def worker_tokens_def kernel_fills_def rx_inv_def workers_done_def intro!: members_cong)
  have "fe_running fe' = fe_running fe" "fe_main fe' = fe_main fe" "fe_shared fe' = fe_shared fe" using fe_arrive by simp_all
  then show ?thesis using assms(1) ok by (simp add: fe_inv_def wks.draining_def workers_stopping_def)
next
  case fe_stop
  from this(2) show ?thesis
  proof cases
    case fe_wake
    have g: "worker_ok (fe_workers fe' j) = worker_ok (fe_workers fe j)" "efds_open (fe_workers fe' j) = efds_open (fe_workers fe j)"
      "wks.members fe' g = wks.members fe g" for j g
      using fe_wake by (auto simp: wake_workers_def worker_ok_def efds_open_def intro!: members_cong)
    have "card (wks.members fe' g) \<le> worker_tokens fe' g" for g
    proof (cases "g < 2")
      case True
      then have "worker_tokens fe' g = worker_tokens fe g + 2"
        using fe_wake assms(1) by (auto simp: worker_tokens_def wake_workers_def efd_write_def fe_inv_def efds_open_def)
      then show ?thesis using card_members [of fe' g] by simp
    next
      case False
      then have "wks.members fe' g = {}" by (auto simp: wks.members_def worker_threads_def)
      then show ?thesis by simp
    qed
    then show ?thesis
      using fe_wake assms(1) g by (auto simp: fe_inv_def wks.draining_def workers_stopping_def wake_workers_def)
  qed (use assms(1) in \<open>auto simp: fe_inv_def close_poll_fds_def workers_done_def worker_ok_def\<close>)
qed

lemma fe_run_inv: "fe_run fe ls fe' \<Longrightarrow> fe_inv fe \<Longrightarrow> fe_inv fe'"
  by (induction rule: fe_run.induct) (auto dest: fe_step_inv)

definition fe_started :: "Shared \<Rightarrow> Forward_Engine \<Rightarrow> bool" where
  "fe_started s fe \<longleftrightarrow> (\<exists>wan lan fd_wan fd_lan fe0. rx_inv wan \<and> rx_inv lan \<and> fe_shared fe0 = s \<and>
     fe_start (\<lambda>_. True) (\<lambda>_. True) [] wan lan fd_wan fd_lan app_events app_events fe0 = (Inr (), fe))"

lemma fe_started_inv:
  assumes "fe_started s fe" "shared_ok s"
  shows "fe_inv fe" "frames fe i = [] \<or> \<not> i < 2" "fe_main fe = F_run"
proof -
  obtain wan lan fd_wan fd_lan fe0 where s: "rx_inv wan" "rx_inv lan" "fe_shared fe0 = s"
    "fe_start (\<lambda>_. True) (\<lambda>_. True) [] wan lan fd_wan fd_lan app_events app_events fe0 = (Inr (), fe)"
    using assms(1) by (auto simp: fe_started_def)
  have "fe_main fe = F_run" "fe_running fe" "fe_shared fe = s"
    "fe_workers fe 0 = start_worker wan (downstream_config fd_lan app_events) ((fe_workers fe0 0)\<lparr>frame_efd := Some 0, stop_efd := Some 0\<rparr>)"
    "fe_workers fe 1 = start_worker lan (upstream_config fd_wan app_events) ((fe_workers fe0 1)\<lparr>frame_efd := Some 0, stop_efd := Some 0\<rparr>)"
    using s(3,4) by (auto simp: fe_start_def open_poll_fds_def close_poll_fds_def Let_def)
  note f = this
  show "fe_main fe = F_run" by (rule f(1))
  show "fe_inv fe" using f assms(2) s(1,2) by (auto simp: fe_inv_def less_two start_worker_def worker_ok_def efds_open_def consumer_ok_new)
  show "frames fe i = [] \<or> \<not> i < 2" using f(4,5) by (cases "i = 0"; cases "i = 1") (auto simp: start_worker_def)
qed

lemma threads_done: "worker_threads fe = {} \<longleftrightarrow> workers_done fe"
proof
  assume e: "worker_threads fe = {}"
  have "rx_thread (fe_workers fe i) = R_done \<and> proc_thread (fe_workers fe i) = P_done" if "i < 2" for i
  proof -
    have "2 * i \<notin> worker_threads fe" "2 * i + 1 \<notin> worker_threads fe" using e by auto
    then show ?thesis using that by (simp add: worker_threads_def)
  qed
  then show "workers_done fe" by (simp add: workers_done_def)
next
  assume d: "workers_done fe"
  have "t \<notin> worker_threads fe" for t
  proof
    assume "t \<in> worker_threads fe"
    then have "t div 2 < 2" "if even t then rx_thread (fe_workers fe (t div 2)) \<noteq> R_done else proc_thread (fe_workers fe (t div 2)) \<noteq> P_done"
      by (auto simp: worker_threads_def)
    then show False using d by (auto simp: workers_done_def split: if_splits)
  qed
  then show "worker_threads fe = {}" by blast
qed

text \<open>The workers shut down.  After any run of the started engine that brings \<^verbatim>\<open>stop\<close> to its join, whatever the four threads
  were doing, however many frames are queued and however they are scheduled, they take at most 2062 more steps, and as
  long as one of them is alive some thread can take a step, so that every \<^verbatim>\<open>join\<close> returns.\<close>

lemma workers_stop:
  assumes "fe_started s fe0" "shared_ok s" "fe_run fe0 ls fe" "fe_main fe = F_join"
  shows "(\<forall>n fe'. (worker_step ^^ n) fe fe' \<longrightarrow> n \<le> 2062) \<and>
    (\<forall>fe'. worker_step\<^sup>*\<^sup>* fe fe' \<longrightarrow> workers_done fe' \<or> (\<exists>fe''. worker_step fe' fe'')) \<and>
    (\<exists>fe'. worker_step\<^sup>*\<^sup>* fe fe' \<and> workers_done fe')"
proof -
  have inv: "fe_inv fe" using fe_run_inv [OF assms(3)] fe_started_inv [OF assms(1,2)] by blast
  then have d: "wks.draining fe" using assms(4) by (simp add: fe_inv_def)
  have pcs: "rx_work r \<le> 3 \<and> proc_work p \<le> 5" for r p by (cases r; cases p) simp_all
  have len: "length (frames fe i) \<le> 1023" if "i < 2" for i
    using inv that spsc_count_less [of 1024 "wk_frames (fe_workers fe i)"] by (simp add: fe_inv_def worker_ok_def spsc_items_def)
  have "worker_work (fe_workers fe i) \<le> 1031" if "i < 2" for i
    using len [OF that] pcs [of "rx_thread (fe_workers fe i)" "proc_thread (fe_workers fe i)"]
    unfolding worker_work_def by linarith
  from this [of 0] this [of 1] have "engine_work fe \<le> 2062" by (simp add: engine_work_def)
  then have "\<forall>n fe'. (worker_step ^^ n) fe fe' \<longrightarrow> n \<le> 2062" using wks.run_bounded [OF d] order_trans by blast
  then show ?thesis using wks.never_stuck [OF d] wks.run_ends [OF d] unfolding threads_done by blast
qed

section \<open>The frames of a worker\<close>

fun pushed_frame :: "nat \<Rightarrow> fe_label \<Rightarrow> bytes list" where
  "pushed_frame i (Worker j (Pushed fr)) = (if j = i then [fr] else [])"
| "pushed_frame i _ = []"

fun processed_frame :: "nat \<Rightarrow> fe_label \<Rightarrow> bytes list" where
  "processed_frame i (Worker j (Processed fr)) = (if j = i then [fr] else [])"
| "processed_frame i _ = []"

lemma fe_step_frames:
  assumes "fe_inv fe" "fe_step fe l fe'" "i < 2"
  shows "frames fe i @ pushed_frame i l = processed_frame i l @ frames fe' i"
proof -
  have worker: "?thesis" if "j < 2" "l = Worker j e" "rx_step j fe e fe' \<or> proc_step j fe e fe'" for j e
  proof -
    have ok: "step_ok j fe e fe'" using worker_step_inv [OF assms(1) that(1,3)] by blast
    then show ?thesis
      using that(2) by (cases "j = i"; cases e) (auto simp: step_ok_def)
  qed
  show ?thesis
    using assms(2)
  proof cases
    case (fe_arrive j rs)
    then show ?thesis by simp
  next
    case fe_stop
    from this(2) show ?thesis by cases (use fe_stop in \<open>auto simp: wake_workers_def close_poll_fds_def\<close>)
  qed (use worker in blast)+
qed

lemma fe_run_frames:
  assumes "fe_run fe ls fe'" "fe_inv fe" "i < 2"
  shows "frames fe i @ concat (map (pushed_frame i) ls) = concat (map (processed_frame i) ls) @ frames fe' i"
  using assms
proof (induction rule: fe_run.induct)
  case (fe_run_snoc fe ls fe1 l fe2)
  have "frames fe1 i @ pushed_frame i l = processed_frame i l @ frames fe2 i"
    using fe_step_frames [OF fe_run_inv [OF fe_run_snoc(1,4)] fe_run_snoc(2,5)] .
  moreover have "frames fe i @ concat (map (pushed_frame i) (ls @ [l])) =
      concat (map (processed_frame i) ls) @ frames fe1 i @ pushed_frame i l"
    using arg_cong [OF fe_run_snoc.IH [OF fe_run_snoc.prems], of "\<lambda>xs. xs @ pushed_frame i l"] by simp
  ultimately show ?case by simp
qed simp

text \<open>C17: Frames pass through a worker in order and are not slept over.  In every run of the started engine, the frames the
  processing thread of a worker has handled, followed by those in its queue, are exactly those the receiving thread has
  queued, in order; and when the processing thread is waiting while its queue is not empty, the frame counter is positive or
  the receiving thread is about to raise it, so that the wait ends.\<close>

theorem frames_in_order:
  assumes "fe_started s fe0" "shared_ok s" "fe_run fe0 ls fe" "i < 2"
  shows "concat (map (pushed_frame i) ls) = concat (map (processed_frame i) ls) @ frames fe i \<and>
    (proc_thread (fe_workers fe i) = P_poll \<and> frames fe i \<noteq> [] \<longrightarrow>
       0 < wk_ready (fe_workers fe i) \<or> rx_thread (fe_workers fe i) = R_notify)"
proof -
  have inv0: "fe_inv fe0" "frames fe0 i = []" using fe_started_inv [OF assms(1,2)] assms(4) by auto
  have "fe_inv fe" using fe_run_inv [OF assms(3) inv0(1)] .
  then have "worker_ok (fe_workers fe i)" using assms(4) by (simp add: fe_inv_def)
  then show ?thesis using fe_run_frames [OF assms(3) inv0(1) assms(4)] inv0(2) by (auto simp: worker_ok_def)
qed


section \<open>Throttled packets\<close>

text \<open>A worker is asleep when its processing thread waits, nothing is queued for it and nothing is in its receive ring.\<close>

definition asleep :: "Forward_Engine \<Rightarrow> nat \<Rightarrow> bool" where
  "asleep fe i \<longleftrightarrow> (let w = fe_workers fe i in
     proc_thread w = P_poll \<and> frame_efd w = Some 0 \<and> stop_efd w = Some 0 \<and> frames fe i = [] \<and>
     rx_inv (wk_rx w) \<and> ready_slots (wk_rx w) = {} \<and> rx_thread w \<in> {R_loop, R_poll, R_drain, R_done})"

lemma asleep_proc:
  assumes "asleep fe i" "proc_step i fe e fe'"
  shows "fe' = proc_goto i P_loop fe \<or> fe' = proc_goto i P_done fe"
  using assms(2) by cases (use assms(1) in \<open>auto simp: asleep_def Let_def\<close>)


lemma rx_step_keeps:
  assumes "rx_step i fe e fe'"
  shows "sh_shapers (fe_shared fe') = sh_shapers (fe_shared fe) \<and> wire (sh_world (fe_shared fe')) = wire (sh_world (fe_shared fe))"
  using assms by cases (simp_all add: goto_defs)

lemma asleep_rx:
  assumes "asleep fe i" "rx_step i fe e fe'"
  shows "asleep fe' i"
proof -
  have "rx_inv (wk_rx (fe_workers fe i))" "ready_slots (wk_rx (fe_workers fe i)) = {}" using assms(1) by (simp_all add: asleep_def Let_def)
  then have p: "peek_frame (wk_rx (fe_workers fe i)) = Some (None, wk_rx (fe_workers fe i))"
    by (subst peek_frame.simps) (auto simp: Let_def ready_slots_def rx_inv_def)
  show ?thesis using assms(2) by cases (use assms(1) p in \<open>simp_all add: asleep_def Let_def goto_defs\<close>)
qed

lemma asleep_rx_run:
  assumes "(\<lambda>fe fe'. \<exists>e. rx_step i fe e fe')\<^sup>*\<^sup>* fe fe'" "asleep fe i"
  shows "asleep fe' i \<and> sh_shapers (fe_shared fe') = sh_shapers (fe_shared fe) \<and>
    wire (sh_world (fe_shared fe')) = wire (sh_world (fe_shared fe))"
  using assms by (induction rule: rtranclp_induct) (auto dest: asleep_rx rx_step_keeps)


text \<open>C33: Throttled packets wait for traffic, not for the clock.  When the queue of a worker is empty and nothing is in its
  receive ring, the processing thread runs the shaper and then sleeps without a timeout.  However long the receiving
  thread goes on without a new frame, what the shaper has left queued stays queued and nothing is sent, and the only way
  out of the sleep is a signal or a failing \<^verbatim>\<open>poll\<close>.\<close>

theorem throttled_packets_stall:
  assumes w: "w = fe_workers fe i" "proc_thread w = P_shape" "frames fe i = []" "frame_efd w = Some 0" "stop_efd w = Some 0"
      "rx_inv (wk_rx w)" "ready_slots (wk_rx w) = {}" "rx_thread w \<in> {R_loop, R_poll, R_drain}"
    and s: "run_shaper w (fe_shared fe) = Some s"
    and run: "(\<lambda>fe fe'. \<exists>e. rx_step i fe e fe')\<^sup>*\<^sup>* (proc_goto i P_poll (fe\<lparr>fe_shared := s\<rparr>)) fe'"
  shows "proc_step i fe Silent (proc_goto i P_poll (fe\<lparr>fe_shared := s\<rparr>)) \<and>
    sh_shapers (fe_shared fe') = sh_shapers s \<and> wire (sh_world (fe_shared fe')) = wire (sh_world s) \<and>
    (\<forall>e fe''. proc_step i fe' e fe'' \<longrightarrow> fe'' = proc_goto i P_loop fe' \<or> fe'' = proc_goto i P_done fe')"
proof -
  have "asleep (proc_goto i P_poll (fe\<lparr>fe_shared := s\<rparr>)) i" using w by (auto simp: asleep_def proc_goto_def Let_def)
  note r = asleep_rx_run [OF run this]
  have "proc_step i fe Silent (proc_goto i (if frame_efd w = None \<or> stop_efd w = None then P_done else P_poll) (fe\<lparr>fe_shared := s\<rparr>))"
    using w(1,2) s by (rule proc_step.proc_shape)
  then show ?thesis using r asleep_proc w(4,5) by (auto simp: proc_goto_def)
qed

section \<open>Sample runs\<close>

definition demo_ring :: "string \<Rightarrow> RawSocketManager" where
  "demo_ring iface = (RawSocketManager_new iface)\<lparr>rs_fd := 7, rs_mapped := True, ring_size := BLOCK_SIZE * BLOCK_NR\<rparr>"

definition demo_engine0 :: Forward_Engine where
  "demo_engine0 = \<lparr>fe_running = False, fe_workers = (\<lambda>_. \<lparr>wk_rx = demo_ring [], wk_consumer = demo_up, wk_frames = spsc_empty [],
     frame_efd = None, stop_efd = None, rx_thread = R_done, proc_thread = P_done\<rparr>), fe_main = F_stopped, fe_shared = demo_shared\<rparr>"

definition demo_engine :: Forward_Engine where
  "demo_engine = snd (fe_start (\<lambda>_. True) (\<lambda>_. True) [] (demo_ring ''eth1'') (demo_ring ''eth0'') 4 5 app_events app_events demo_engine0)"

lemma demo_shared_ok: "shared_ok demo_shared"
  using demo_shared(6,7) demo_shaper_queue(1,3) by (simp add: shared_ok_def) (simp add: demo_shared_def)

lemma demo_ring_ok: "rx_inv (demo_ring n)" "ready_slots (demo_ring n) = {}"
  by (simp_all add: rx_inv_def ready_slots_def demo_ring_def RawSocketManager_new_def)

lemma demo_engine_started: "fe_started demo_shared demo_engine" "fe_main demo_engine = F_run"
proof -
  have "fe_start (\<lambda>_. True) (\<lambda>_. True) [] (demo_ring ''eth1'') (demo_ring ''eth0'') 4 5 app_events app_events demo_engine0 = (Inr (), demo_engine)"
    unfolding demo_engine_def by (simp add: fe_start_def open_poll_fds_def Let_def)
  then show "fe_started demo_shared demo_engine" using demo_ring_ok(1)
    unfolding fe_started_def by (intro exI [of _ "demo_ring ''eth1''"] exI [of _ "demo_ring ''eth0''"] exI [of _ 4] exI [of _ 5] exI [of _ demo_engine0]) (simp add: demo_engine0_def)
  from fe_started_inv(3) [OF this demo_shared_ok] show "fe_main demo_engine = F_run" .
qed

definition demo_stopping :: Forward_Engine where
  "demo_stopping = (wake_workers (demo_engine\<lparr>fe_running := False, fe_main := F_wake\<rparr>))\<lparr>fe_main := F_join\<rparr>"

lemma demo_halts: "fe_run demo_engine [Halt, Halt] demo_stopping"
proof -
  have 1: "fe_step demo_engine Halt (demo_engine\<lparr>fe_running := False, fe_main := F_wake\<rparr>)"
    using demo_engine_started(2) by (intro fe_step.fe_stop fe_stop_step.fe_flag)
  have 2: "fe_step (demo_engine\<lparr>fe_running := False, fe_main := F_wake\<rparr>) Halt demo_stopping"
    unfolding demo_stopping_def by (intro fe_step.fe_stop fe_stop_step.fe_wake) simp
  show ?thesis using fe_run.fe_run_snoc [OF fe_run.fe_run_snoc [OF fe_run.fe_run_nil 1] 2] by simp
qed

text \<open>A frame of three bytes arrives and is queued for the processing thread.\<close>

definition demo_filled :: RawSocketManager where
  "demo_filled = (demo_ring ''eth0'')\<lparr>rx_slots := (\<lambda>_. \<lparr>status_user = True, pkt_outgoing = False, tp_mac = 0, tp_len = 3\<rparr>),
     rx_mem := (\<lambda>k. of_nat k + 1)\<rparr>"

definition demo_queued :: Forward_Engine where
  "demo_queued = upd_worker 1 (\<lambda>w. w\<lparr>wk_rx := demo_filled, wk_frames := snd (spsc_push 1024 (spsc_empty []) [1, 2, 3]), rx_thread := R_notify\<rparr>)
     demo_engine"

lemma demo_worker:
  "rx_thread (fe_workers demo_engine 1) = R_loop" "wk_rx (fe_workers demo_engine 1) = demo_ring ''eth0''" "stop_efd (fe_workers demo_engine 1) = Some 0"
  "wk_frames (fe_workers demo_engine 1) = spsc_empty []" "fe_running demo_engine"
  by (simp_all add: demo_engine_def fe_start_def open_poll_fds_def Let_def start_worker_def upd_worker_def)

lemma demo_arrival:
  "fe_run demo_engine [Arrive 1, Worker 1 Silent, Worker 1 Silent, Worker 1 (Pushed [1, 2, 3])] demo_queued"
proof -
  let ?fe1 = "upd_worker 1 (\<lambda>w. w\<lparr>wk_rx := demo_filled\<rparr>) demo_engine"
  have "kernel_fills (demo_ring ''eth0'') demo_filled"
    unfolding kernel_fills_def demo_filled_def by (rule exI, rule exI, rule conjI [OF refl]) (simp add: demo_ring_def RawSocketManager_new_def)
  then have 1: "fe_step demo_engine (Arrive 1) ?fe1" using demo_worker(2) by (intro fe_step.fe_arrive) simp_all
  have 2: "fe_step ?fe1 (Worker 1 Silent) (rx_goto 1 R_poll ?fe1)"
    using demo_worker by (intro fe_step.fe_rx rx_step.rx_loop_run [OF refl]) (simp_all add: upd_worker_def)
  have 3: "fe_step (rx_goto 1 R_poll ?fe1) (Worker 1 Silent) (rx_goto 1 R_drain (rx_goto 1 R_poll ?fe1))"
    using demo_worker by (intro fe_step.fe_rx rx_step.rx_in_frames [OF refl]) (simp_all add: upd_worker_def rx_goto_def)
  have peek: "peek_frame demo_filled = Some (Some [1, 2, 3], demo_filled)"
    by (subst peek_frame.simps) (simp add: demo_filled_def demo_ring_def RawSocketManager_new_def rx_span_def upt_rec Let_def)
  have "fe_step (rx_goto 1 R_drain (rx_goto 1 R_poll ?fe1)) (Worker 1 (Pushed (copy_frame [1, 2, 3])))
      (upd_worker 1 (\<lambda>w. w\<lparr>wk_rx := demo_filled, wk_frames := snd (spsc_push 1024 (spsc_empty []) [1, 2, 3]), rx_thread := R_notify\<rparr>)
        (rx_goto 1 R_drain (rx_goto 1 R_poll ?fe1)))"
    using demo_worker peek by (intro fe_step.fe_rx rx_step.rx_push [OF refl])
      (simp_all add: upd_worker_def rx_goto_def copy_frame_def spsc_push_def spsc_empty_def Let_def)
  then have 4: "fe_step (rx_goto 1 R_drain (rx_goto 1 R_poll ?fe1)) (Worker 1 (Pushed [1, 2, 3])) demo_queued"
    by (simp add: demo_queued_def upd_worker_def rx_goto_def copy_frame_def)
  show ?thesis
    using fe_run.fe_run_snoc [OF fe_run.fe_run_snoc [OF fe_run.fe_run_snoc [OF fe_run.fe_run_snoc [OF fe_run.fe_run_nil 1] 2] 3] 4] by simp
qed

theorem frames_in_order_witness:
  "concat (map (pushed_frame 1) [Arrive 1, Worker 1 Silent, Worker 1 Silent, Worker 1 (Pushed [1, 2, 3])]) = [[1, 2, 3]] \<and>
   frames demo_queued 1 = [[1, 2, 3]]"
  using frames_in_order [OF demo_engine_started(1) demo_shared_ok demo_arrival, of 1] by simp

text \<open>A worker whose bucket is spent and whose shaper holds one packet.\<close>

definition demo_spent :: Shaper where
  "demo_spent = demo_shaper\<lparr>bucket := \<lparr>tokens = 0, capacity = 15000, rate_bytes_per_sec = 1000, last_refill = 0, requested_limit = -1\<rparr>\<rparr>"

definition demo_throttled :: Forward_Engine where
  "demo_throttled = \<lparr>fe_running = True, fe_workers = (\<lambda>_. \<lparr>wk_rx = demo_ring [], wk_consumer = demo_up, wk_frames = spsc_empty [],
     frame_efd = Some 0, stop_efd = Some 0, rx_thread = R_loop, proc_thread = P_shape\<rparr>), fe_main = F_run,
     fe_shared = demo_shared\<lparr>sh_shapers := (\<lambda>_. demo_spent)\<rparr>\<rparr>"

lemma demo_spent_waits: "process_queue fd demo_spent demo_world = Some (demo_spent, demo_world\<lparr>clock_reads := 1\<rparr>)"
proof -
  have q: "queued demo_spent = [[1, 2, 3]]" "zrb_inv 8192 (normal_queue demo_spent)"
    using demo_shaper_queue(1,2) by (simp_all add: demo_spent_def)
  have front: "\<not> zrb_is_empty (normal_queue demo_spent)" "zrb_front (normal_queue demo_spent) = [1, 2, 3]"
    using q zrb_first_items [OF q(2)] by (auto simp: zrb_first_def split: if_splits)
  show ?thesis
    by (subst process_queue.simps)
      (simp add: front, simp add: demo_spent_def try_consume_def refill_def steady_now_def demo_world_def Let_def)
qed

lemma demo_throttled_shaper:
  "run_shaper (fe_workers demo_throttled 1) (fe_shared demo_throttled) =
     Some (demo_shared\<lparr>sh_shapers := (\<lambda>_. demo_spent), sh_world := demo_world\<lparr>clock_reads := 1\<rparr>\<rparr>)"
  by (simp add: run_shaper_def demo_throttled_def demo_up_def PacketConsumer_new_def upstream_config_def demo_shared_def
      demo_spent_waits fun_upd_idem)

theorem throttled_packets_stall_witness:
  "\<exists>fe'. proc_step 1 demo_throttled Silent fe' \<and> proc_thread (fe_workers fe' 1) = P_poll \<and>
    queued (sh_shapers (fe_shared fe') 1) = [[1, 2, 3]] \<and> wire (sh_world (fe_shared fe')) = []"
  using throttled_packets_stall [OF refl _ _ _ _ _ _ _ demo_throttled_shaper rtranclp.rtrancl_refl] demo_ring_ok demo_shaper_queue(2)
  by (intro exI [of _ "proc_goto 1 P_poll (demo_throttled\<lparr>fe_shared := demo_shared\<lparr>sh_shapers := (\<lambda>_. demo_spent), sh_world := demo_world\<lparr>clock_reads := 1\<rparr>\<rparr>\<rparr>)"])
    (simp add: demo_throttled_def proc_goto_def demo_spent_def demo_world_def)

end
