(* ===== verification/App.thy ===== *)
theory App
  imports Control_Correct Workers_Correct
begin

text \<open>
  The class \<^verbatim>\<open>App\<close> of \<^verbatim>\<open>App.cpp\<close>: it owns the engines, opens the interfaces, starts the control plane and the data plane on
  the same engines, and stops them.  What both planes work on is one \<open>Shared\<close> state; a plane takes it for each of its
  steps and leaves it changed.  The answers of the kernel to the opening of the sockets and of the \<^verbatim>\<open>eventfd\<close>s are parameters.
\<close>

section \<open>State\<close>

text \<open>How far \<^verbatim>\<open>App::stop\<close> has come.\<close>

datatype stop_pc = T_idle | T_engine | T_control | T_mark | T_done

record App =
  ap_shared :: Shared
  ap_net :: Net
  ap_netcfg :: NetworkConfig
  iface_wan :: RawSocketManager
  iface_lan :: RawSocketManager
  base_mbps :: "real \<times> real"
  dl_events :: CallbackRegistry
  ul_events :: CallbackRegistry
  lifecycle :: Lifecycle
  stop_thread :: stop_pc
  forward_engine :: "Forward_Engine option"
  control_plane :: "ControlPlane option"

text \<open>There are no shapers before \<^verbatim>\<open>start\<close>; nothing reads them until then.\<close>

definition no_shaper :: Shaper where
  "no_shaper =
     \<lparr>normal_queue = zrb_empty,
      bucket = \<lparr>tokens = 0, capacity = 0, rate_bytes_per_sec = 0, last_refill = 0, requested_limit = -1\<rparr>,
      tx_callback = None\<rparr>"

definition App_new :: "Config \<Rightarrow> World \<Rightarrow> Net \<Rightarrow> App" where
  "App_new cfg w k =
     (let (hw, k) = get_iface_hwaddr (g_iface_lan cfg) k;
          dhcp = DhcpEngine_new (ROUTER_IP cfg)
            \<lparr>pool_start = parse_ipv4 (DHCP_POOL_START cfg), pool_end = parse_ipv4 (DHCP_POOL_END cfg),
             pool_lease = DHCP_LEASE_DURATION cfg\<rparr> hw
      in \<lparr>ap_shared = \<lparr>sh_nat = NatEngine_init, sh_dhcp = dhcp, sh_shapers = (\<lambda>_. no_shaper), sh_plane = ForwardingState_init,
                        sh_cfg = cfg, sh_world = w\<rparr>,
          ap_net = k, ap_netcfg = NetworkConfig_init, iface_wan = RawSocketManager_new [], iface_lan = RawSocketManager_new [],
          base_mbps = (500, 50), dl_events = CallbackRegistry_init, ul_events = CallbackRegistry_init,
          lifecycle = Lifecycle_init, stop_thread = T_idle, forward_engine = None, control_plane = None\<rparr>)"

section \<open>Initialisation\<close>

text \<open>\<open>wan\<close> and \<open>lan\<close> are the answers of the kernel to the two sockets.\<close>

definition app_init :: "RawSys \<Rightarrow> RawSys \<Rightarrow> App \<Rightarrow> (string + unit) \<times> App" where
  "app_init wan lan a =
     (let cfg = sh_cfg (ap_shared a);
          k = snd (disable_hardware_offloads (g_iface_wan cfg) (ap_net a));
          k = snd (disable_hardware_offloads (g_iface_lan cfg) k);
          a = a\<lparr>ap_net := k, iface_wan := RawSocketManager_new (g_iface_wan cfg), iface_lan := RawSocketManager_new (g_iface_lan cfg)\<rparr>;
          (r, rs, _) = raw_init wan (iface_wan a);
          a = a\<lparr>iface_wan := rs\<rparr>
      in case r of Inl e \<Rightarrow> (Inl e, a) | Inr _ \<Rightarrow>
      let (r, rs, _) = raw_init lan (iface_lan a);
          a = a\<lparr>iface_lan := rs\<rparr>
      in case r of Inl e \<Rightarrow> (Inl e, a) | Inr _ \<Rightarrow>
      let (r, nc, d, k) = sync cfg (ap_netcfg a) (sh_dhcp (ap_shared a)) (ap_net a);
          a = a\<lparr>ap_netcfg := nc, ap_net := k, ap_shared := (ap_shared a)\<lparr>sh_dhcp := d\<rparr>\<rparr>
      in case r of Inl e \<Rightarrow> (Inl e, a) | Inr _ \<Rightarrow>
      if enable_nat cfg then
        let (r, k) = resolve_nat_wan_ip cfg (ap_net a); a = a\<lparr>ap_net := k\<rparr> in
        (case r of
           Inl e \<Rightarrow> (Inl e, a)
         | Inr w \<Rightarrow> (Inr (), a\<lparr>ap_shared := (ap_shared a)\<lparr>sh_nat := set_wan_ip w (sh_nat (ap_shared a))\<rparr>\<rparr>))
      else (Inr (), a\<lparr>ap_shared := (ap_shared a)\<lparr>sh_nat := set_wan_ip 0 (sh_nat (ap_shared a))\<rparr>\<rparr>))"

section \<open>Starting\<close>

definition start_telemetry :: "bool \<Rightarrow> Telemetry \<Rightarrow> Telemetry" where
  "start_telemetry accel t =
     t\<lparr>acceleration_pending := accel, mode_config_dirty := False, effective_acceleration := accel, effective_bridge_mode := \<not> accel\<rparr>"

definition start_shapers :: "App \<Rightarrow> App" where
  "start_shapers a =
     (let t = tel (sh_world (ap_shared a));
          (dl, ul) = (qos_global_dl_mbps_pending t, qos_global_ul_mbps_pending t);
          s = upd_tel (\<lambda>t. t\<lparr>effective_qos_global_dl_mbps := dl, effective_qos_global_ul_mbps := ul\<rparr>) (ap_shared a);
          (shaper_dl, w) = Shaper_new dl (sh_world s);
          (shaper_ul, w) = Shaper_new ul w;
          dle = register_observer (Some TelemetryObserver) (dl_events a);
          ule = register_observer (Some TelemetryObserver) (ul_events a);
          shaper_dl = set_tx_result_callback (dispatch_tx_result dle) shaper_dl;
          shaper_ul = set_tx_result_callback (dispatch_tx_result ule) shaper_ul
      in a\<lparr>base_mbps := (dl, ul), dl_events := dle, ul_events := ule,
           ap_shared := s\<lparr>sh_shapers := (sh_shapers s)(0 := shaper_dl, 1 := shaper_ul), sh_world := w\<rparr>\<rparr>)"

definition Forward_Engine_new :: "Shared \<Rightarrow> Forward_Engine" where
  "Forward_Engine_new s =
     \<lparr>fe_running = False,
      fe_workers = (\<lambda>_. \<lparr>wk_rx = RawSocketManager_new [], wk_consumer = PacketConsumer_new (-1) (downstream_config (-1) app_events),
        wk_frames = spsc_empty [], frame_efd = None, stop_efd = None, rx_thread = R_done, proc_thread = P_done\<rparr>),
      fe_main = F_stopped, fe_shared = s\<rparr>"

text \<open>The processors whose governor is set, given how many the system reports; a file that cannot be opened is skipped.\<close>

definition lock_cpu_frequency :: "int \<Rightarrow> (string \<Rightarrow> bool) \<Rightarrow> string list" where
  "lock_cpu_frequency n opens =
     (let n = (if n < 1 then 4 else n) in
      filter opens (map (\<lambda>i. ''/sys/devices/system/cpu/cpu'' @ dec i @ ''/cpufreq/scaling_governor'') [0..<nat n]))"

text \<open>The four answers of the kernel to \<^verbatim>\<open>eventfd\<close>: for the stop semaphore and the counter of the control plane, and for the two
  of each worker.  Without the first two the process exits: the result is \<open>None\<close>.\<close>

definition app_start :: "bool \<Rightarrow> bool \<Rightarrow> (nat \<Rightarrow> bool) \<Rightarrow> (nat \<Rightarrow> bool) \<Rightarrow> string \<Rightarrow> Sys \<Rightarrow> App \<Rightarrow> App option" where
  "app_start stop_ok cfg_ok frame_ok wstop_ok err y a =
     (let s = ap_shared a;
          a = a\<lparr>ap_shared := upd_tel (start_telemetry (ENABLE_ACCELERATION (sh_cfg s))) s\<rparr>;
          fd_wan = rs_fd (iface_wan a);
          fd_lan = rs_fd (iface_lan a);
          a = start_shapers a
      in do {
        cp \<leftarrow> cp_start stop_ok cfg_ok (ControlPlane_new
          \<lparr>pl_shared = ap_shared a, pl_net = ap_net a, pl_sys = y, pl_collector = TelemetryCollector_init, pl_netcfg = ap_netcfg a,
           pl_base = base_mbps a, pl_lan_fd = fd_lan, pl_tick5 = (\<lambda>_. 0), pl_save_error = None, pl_saved = None\<rparr>);
        let s = ap_shared a;
        let (f, k) = refresh_l2 (sh_cfg s) (sh_plane s) (ap_net a);
        let s = s\<lparr>sh_plane := f\<rparr>;
        let fe = snd (fe_start frame_ok wstop_ok err (iface_wan a) (iface_lan a) fd_wan fd_lan (dl_events a) (ul_events a)
          (Forward_Engine_new s));
        Some (a\<lparr>ap_shared := s, ap_net := k, control_plane := Some cp, forward_engine := Some fe\<rparr>)
      })"

section \<open>The running program\<close>

text \<open>A plane works on the engines of the application.\<close>

definition engine_of :: "App \<Rightarrow> Forward_Engine \<Rightarrow> Forward_Engine" where
  "engine_of a fe = fe\<lparr>fe_shared := ap_shared a\<rparr>"

definition put_engine :: "Forward_Engine \<Rightarrow> App \<Rightarrow> App" where
  "put_engine fe a = a\<lparr>forward_engine := Some fe, ap_shared := fe_shared fe\<rparr>"

definition control_of :: "App \<Rightarrow> ControlPlane \<Rightarrow> ControlPlane" where
  "control_of a cp = cp\<lparr>plane := (plane cp)\<lparr>pl_shared := ap_shared a\<rparr>\<rparr>"

definition put_control :: "ControlPlane \<Rightarrow> App \<Rightarrow> App" where
  "put_control cp a = a\<lparr>control_plane := Some cp, ap_shared := pl_shared (plane cp)\<rparr>"

definition app_request_dhcp :: "App \<Rightarrow> App" where
  "app_request_dhcp a = a\<lparr>control_plane := map_option request_dhcp_config_apply (control_plane a)\<rparr>"

text \<open>A call of \<^verbatim>\<open>stop\<close>: only the first one goes on; the others return at once.\<close>

definition app_stop_call :: "App \<Rightarrow> App" where
  "app_stop_call a =
     (let (first, l) = begin_stop (lifecycle a); a = a\<lparr>lifecycle := l\<rparr>
      in if first then a\<lparr>stop_thread := T_engine\<rparr> else a)"

text \<open>The rest of \<^verbatim>\<open>stop\<close>: the data plane, then the control plane, then the latch.\<close>

inductive app_stop_step :: "App \<Rightarrow> App \<Rightarrow> bool" where
  stop_engine: "stop_thread a = T_engine \<Longrightarrow> forward_engine a = Some fe \<Longrightarrow> fe_stop_step (engine_of a fe) fe' \<Longrightarrow>
    app_stop_step a (put_engine fe' a)"
| engine_stopped: "stop_thread a = T_engine \<Longrightarrow> (\<And>fe. forward_engine a = Some fe \<Longrightarrow> fe_main fe = F_stopped) \<Longrightarrow>
    app_stop_step a (a\<lparr>stop_thread := T_control\<rparr>)"
| stop_control: "stop_thread a = T_control \<Longrightarrow> control_plane a = Some cp \<Longrightarrow> stop_step (control_of a cp) cp' \<Longrightarrow>
    app_stop_step a (put_control cp' a)"
| control_stopped: "stop_thread a = T_control \<Longrightarrow> (\<And>cp. control_plane a = Some cp \<Longrightarrow> main_thread cp = M_stopped) \<Longrightarrow>
    app_stop_step a (a\<lparr>stop_thread := T_mark\<rparr>)"
| stop_mark: "stop_thread a = T_mark \<Longrightarrow> app_stop_step a (a\<lparr>lifecycle := mark_complete (lifecycle a), stop_thread := T_done\<rparr>)"

datatype app_label = Data_plane fe_label | Control_plane cp_label | Dash | Ask_dhcp | Ask_stop | Stopping

text \<open>One step of any thread of the program.  The dashboard may change the configuration and the telemetry at any moment.\<close>

inductive app_step :: "App \<Rightarrow> app_label \<Rightarrow> App \<Rightarrow> bool" where
  app_data: "forward_engine a = Some fe \<Longrightarrow> fe_step (engine_of a fe) l fe' \<Longrightarrow> l \<noteq> Halt \<Longrightarrow> app_step a (Data_plane l) (put_engine fe' a)"
| app_control: "control_plane a = Some cp \<Longrightarrow> cp_step (control_of a cp) l cp' \<Longrightarrow> l \<noteq> Stop \<Longrightarrow> l \<noteq> Request \<Longrightarrow>
    app_step a (Control_plane l) (put_control cp' a)"
| app_dash: "app_step a Dash (a\<lparr>ap_shared := upd_tel (\<lambda>_. t) ((ap_shared a)\<lparr>sh_cfg := cfg\<rparr>)\<rparr>)"
| app_ask_dhcp: "app_step a Ask_dhcp (app_request_dhcp a)"
| app_ask_stop: "app_step a Ask_stop (app_stop_call a)"
| app_stopping: "app_stop_step a a' \<Longrightarrow> app_step a Stopping a'"

text \<open>What a shutdown waits for: its own steps, and steps of the threads it is joining.\<close>

fun urgent :: "App \<Rightarrow> app_label \<Rightarrow> bool" where
  "urgent a Stopping = True"
| "urgent a (Data_plane (Worker i e)) \<longleftrightarrow> stop_thread a = T_engine \<and> fe_main (the (forward_engine a)) = F_join"
| "urgent a (Control_plane l) \<longleftrightarrow> stop_thread a = T_control \<and> main_thread (the (control_plane a)) = M_join"
| "urgent a _ = False"

text \<open>Runs, with the number of urgent steps.\<close>

inductive app_run :: "App \<Rightarrow> nat \<Rightarrow> App \<Rightarrow> bool" where
  app_run_nil: "app_run a 0 a"
| app_run_snoc: "app_run a n a1 \<Longrightarrow> app_step a1 l a2 \<Longrightarrow> app_run a (if urgent a1 l then Suc n else n) a2"

end
