(* ===== verification/App_Init.thy ===== *)
theory App_Init
  imports App
begin

text \<open>
  What a completed \<^verbatim>\<open>App::init\<close> guarantees, and what it leaves alone.
\<close>

section \<open>Initialisation\<close>

lemma raw_init_ok:
  assumes "raw_init y rs = (Inr u, rs', es)"
  shows "rs' = rs\<lparr>rs_fd := raw_socket y, ring_size := BLOCK_SIZE * BLOCK_NR, rs_mapped := True\<rparr> \<and> 0 \<le> raw_socket y"
  using assms by (auto simp: raw_init_def Let_def split: if_splits option.splits)

lemma raw_init_keeps: "raw_init y rs = (r, rs', es) \<Longrightarrow> rx_idx rs' = rx_idx rs"
  by (auto simp: raw_init_def Let_def split: if_splits option.splits)

lemma same_net_offloads: "same_net k (snd (disable_hardware_offloads i k))"
proof -
  have "same_net (snd s) (snd (fold (set_offload i) cs s))" for cs s
  proof (induction cs arbitrary: s)
    case (Cons c cs)
    have "same_net (snd s) (snd (set_offload i c s))" by (auto simp: set_offload_def net_set_def same_net_def split: prod.split)
    then show ?case using Cons [of "set_offload i c s"] same_net_trans by simp
  qed simp
  note f = this [of "(True, snd (net_ask socket_answer k))" offload_cmds]
  then have "same_net k (snd (fold (set_offload i) offload_cmds (True, snd (net_ask socket_answer k))))"
    using same_net_ask(1) [of k socket_answer] same_net_trans [of k "snd (net_ask socket_answer k)"] by simp
  then show ?thesis
    using same_net_ask(1) [of k socket_answer] by (auto simp: disable_hardware_offloads_def simp del: same_net_ask split: prod.split bool.split)
qed

lemma resolve_ok:
  assumes "resolve_nat_wan_ip cfg k = (Inr ip, k')"
  shows "\<not> is_invalid_nat_wan ip \<and> (\<exists>n. ifaddr_answer k n (ifr_name (g_iface_wan cfg)) = Some ip)"
  using assms
  by (auto simp: resolve_nat_wan_ip_def get_local_ip_some parse_ip_to_str Let_def split: if_splits option.splits)

lemma same_net_sync:
  assumes "sync cfg nc dhcp k = (Inr u, nc', dhcp', k')"
  shows "same_net k k'"
  using assms
proof (cases rule: sync_cases)
  case (synced lo hi ip k1 prefix)
  then show ?thesis using same_net_kernel_gateway [of k1 cfg prefix lo] same_net_trans by auto
qed simp

text \<open>The ways through the initialisation.\<close>

lemma app_init_cases:
  assumes "app_init wan lan a0 = (r, a)"
  obtains (failed) e where "r = Inl e"
  | (ready) k1 d rs1 rs2 es1 es2 nc k2 k3 u v ip where
      "r = Inr ()" "same_net (ap_net a0) k1"
      "raw_init wan (RawSocketManager_new (g_iface_wan (sh_cfg (ap_shared a0)))) = (Inr u, rs1, es1)"
      "raw_init lan (RawSocketManager_new (g_iface_lan (sh_cfg (ap_shared a0)))) = (Inr v, rs2, es2)"
      "sync (sh_cfg (ap_shared a0)) (ap_netcfg a0) (sh_dhcp (ap_shared a0)) k1 = (Inr (), nc, d, k2)"
      "if enable_nat (sh_cfg (ap_shared a0)) then resolve_nat_wan_ip (sh_cfg (ap_shared a0)) k2 = (Inr ip, k3) else ip = 0 \<and> k3 = k2"
      "a = a0\<lparr>ap_net := k3, iface_wan := rs1, iface_lan := rs2, ap_netcfg := nc,
         ap_shared := (ap_shared a0)\<lparr>sh_dhcp := d, sh_nat := set_wan_ip ip (sh_nat (ap_shared a0))\<rparr>\<rparr>"
proof (cases r)
  case (Inr u)
  let ?cfg = "sh_cfg (ap_shared a0)"
  define k1 where "k1 = snd (disable_hardware_offloads (g_iface_lan ?cfg) (snd (disable_hardware_offloads (g_iface_wan ?cfg) (ap_net a0))))"
  have n: "same_net (ap_net a0) k1" unfolding k1_def using same_net_offloads same_net_trans by blast
  obtain r1 rs1 es1 where 1: "raw_init wan (RawSocketManager_new (g_iface_wan ?cfg)) = (r1, rs1, es1)" by (rule prod_cases3)
  obtain r2 rs2 es2 where 2: "raw_init lan (RawSocketManager_new (g_iface_lan ?cfg)) = (r2, rs2, es2)" by (rule prod_cases3)
  obtain r3 nc d k2 where 3: "sync ?cfg (ap_netcfg a0) (sh_dhcp (ap_shared a0)) k1 = (r3, nc, d, k2)" by (rule prod_cases4)
  obtain r4 k3 where 4: "resolve_nat_wan_ip ?cfg k2 = (r4, k3)" by fastforce
  note eqs = 1 2 3 4 k1_def [symmetric]
  show thesis
  proof (cases "enable_nat ?cfg")
    case True
    then show thesis using assms Inr n by (auto simp: app_init_def eqs Let_def split: sum.splits intro: ready)
  next
    case False
    then show thesis using assms Inr n by (auto simp: app_init_def eqs Let_def split: sum.splits intro: ready)
  qed
qed (use failed in blast)

lemma app_init_keeps:
  assumes "app_init wan lan a0 = (r, a)"
  shows "forward_engine a = forward_engine a0" "control_plane a = control_plane a0" "sh_world (ap_shared a) = sh_world (ap_shared a0)"
    "sh_cfg (ap_shared a) = sh_cfg (ap_shared a0)" "dl_events a = dl_events a0" "ul_events a = ul_events a0" "lifecycle a = lifecycle a0"
    "stop_thread a = stop_thread a0" "rx_inv (iface_wan a) \<and> rx_inv (iface_lan a)"
  using assms raw_init_keeps [of wan] raw_init_keeps [of lan]
  by (auto simp: app_init_def Let_def rx_inv_def RawSocketManager_new_def split: sum.splits prod.splits if_splits)

lemma App_new_simps:
  "forward_engine (App_new cfg w k) = None" "control_plane (App_new cfg w k) = None" "sh_world (ap_shared (App_new cfg w k)) = w"
  "sh_cfg (ap_shared (App_new cfg w k)) = cfg" "dl_events (App_new cfg w k) = CallbackRegistry_init"
  "ul_events (App_new cfg w k) = CallbackRegistry_init" "lifecycle (App_new cfg w k) = Lifecycle_init"
  "stop_thread (App_new cfg w k) = T_idle" "same_net k (ap_net (App_new cfg w k))"
  using same_net_calls(1) [of k "g_iface_lan cfg"] by (auto simp: App_new_def Let_def split: prod.split)

text \<open>C14: A successful initialisation leaves a router that is ready to run.  Both packet sockets are open with their receive ring
  mapped; the gateway the DHCP server announces is an address of the LAN interface and every address of the pool lies in
  its subnet; and NAT uses an address of the WAN interface that is neither zero nor a loopback address, or none when it
  is switched off.  A failing initialisation has started nothing.\<close>

theorem app_init_ready:
  assumes "app_init wan lan (App_new cfg w k) = (r, a)"
  shows "forward_engine a = None \<and> control_plane a = None \<and>
    (r = Inr () \<longrightarrow>
       0 \<le> rs_fd (iface_wan a) \<and> rs_mapped (iface_wan a) \<and> 0 \<le> rs_fd (iface_lan a) \<and> rs_mapped (iface_lan a) \<and>
       (\<exists>lo hi n. parse_ip_str (DHCP_POOL_START cfg) = Inr lo \<and> parse_ip_str (DHCP_POOL_END cfg) = Inr hi \<and>
          ifaddr_answer k n (ifr_name (g_iface_lan cfg)) = Some (router_ip (sh_dhcp (ap_shared a))) \<and>
          (\<forall>x. ntohl lo \<le> ntohl x \<and> ntohl x \<le> ntohl hi \<longrightarrow>
             ipv4_in_subnet x (infer_prefix_covering_pool lo hi) (router_ip (sh_dhcp (ap_shared a))))) \<and>
       (if enable_nat cfg
        then \<not> is_invalid_nat_wan (wan_ip_snapshot (sh_nat (ap_shared a))) \<and>
          (\<exists>n. ifaddr_answer k n (ifr_name (g_iface_wan cfg)) = Some (wan_ip_snapshot (sh_nat (ap_shared a))))
        else wan_ip_snapshot (sh_nat (ap_shared a)) = 0))"
proof -
  note new = App_new_simps [where cfg = cfg and w = w and k = k]
  have "r = Inr () \<longrightarrow>
       0 \<le> rs_fd (iface_wan a) \<and> rs_mapped (iface_wan a) \<and> 0 \<le> rs_fd (iface_lan a) \<and> rs_mapped (iface_lan a) \<and>
       (\<exists>lo hi n. parse_ip_str (DHCP_POOL_START cfg) = Inr lo \<and> parse_ip_str (DHCP_POOL_END cfg) = Inr hi \<and>
          ifaddr_answer k n (ifr_name (g_iface_lan cfg)) = Some (router_ip (sh_dhcp (ap_shared a))) \<and>
          (\<forall>x. ntohl lo \<le> ntohl x \<and> ntohl x \<le> ntohl hi \<longrightarrow>
             ipv4_in_subnet x (infer_prefix_covering_pool lo hi) (router_ip (sh_dhcp (ap_shared a))))) \<and>
       (if enable_nat cfg
        then \<not> is_invalid_nat_wan (wan_ip_snapshot (sh_nat (ap_shared a))) \<and>
          (\<exists>n. ifaddr_answer k n (ifr_name (g_iface_wan cfg)) = Some (wan_ip_snapshot (sh_nat (ap_shared a))))
        else wan_ip_snapshot (sh_nat (ap_shared a)) = 0)"
    using assms
  proof (cases rule: app_init_cases)
    case (ready k1 d rs1 rs2 es1 es2 nc k2 k3 u v ip)
    note ready = ready [unfolded new]
    have n: "ifaddr_answer k1 = ifaddr_answer k" "ifaddr_answer k2 = ifaddr_answer k"
      using same_net_trans [OF new(9) ready(2)] same_net_sync [of cfg] ready(5) by (auto simp: same_net_def)
    have "0 \<le> rs_fd (iface_wan a) \<and> rs_mapped (iface_wan a) \<and> 0 \<le> rs_fd (iface_lan a) \<and> rs_mapped (iface_lan a)"
      using raw_init_ok [OF ready(3)] raw_init_ok [OF ready(4)] ready(7) by simp
    moreover have "\<exists>lo hi n. parse_ip_str (DHCP_POOL_START cfg) = Inr lo \<and> parse_ip_str (DHCP_POOL_END cfg) = Inr hi \<and>
          ifaddr_answer k n (ifr_name (g_iface_lan cfg)) = Some (router_ip (sh_dhcp (ap_shared a))) \<and>
          (\<forall>x. ntohl lo \<le> ntohl x \<and> ntohl x \<le> ntohl hi \<longrightarrow>
             ipv4_in_subnet x (infer_prefix_covering_pool lo hi) (router_ip (sh_dhcp (ap_shared a))))"
      using sync_gateway [OF ready(5)] n(1) ready(7) by auto
    moreover have "if enable_nat cfg
        then \<not> is_invalid_nat_wan (wan_ip_snapshot (sh_nat (ap_shared a))) \<and>
          (\<exists>n. ifaddr_answer k n (ifr_name (g_iface_wan cfg)) = Some (wan_ip_snapshot (sh_nat (ap_shared a))))
        else wan_ip_snapshot (sh_nat (ap_shared a)) = 0"
      using ready(6,7) n(2) resolve_ok [of cfg k2 ip k3] by (auto simp: wan_ip_snapshot_def set_wan_ip_def split: if_splits)
    ultimately show ?thesis by blast
  qed simp
  then show ?thesis using app_init_keeps [OF assms] new by simp
qed

lemma demo_wan_ip:
  assumes "same_net demo_net k"
  shows "fst (resolve_nat_wan_ip Config_defaults k) = Inr 0x0A0200C0"
  using assms parse_ip_to_str [of "0x0A0200C0"]
  by (auto simp: resolve_nat_wan_ip_def get_local_ip_some same_net_def demo_net_def Config_defaults_def ifr_name_def c_str_def
      is_invalid_nat_wan_def word_eval Let_def ip_to_str_def)

definition demo_raw :: RawSys where
  "demo_raw = \<lparr>raw_socket = 3, raw_strerror = [], raw_index = Some 2, raw_flags = Some 0x1000, raw_set_flags = True,
     raw_set_ring = True, raw_mmap = True, raw_bind = True\<rparr>"

lemma demo_raw_init: "fst (raw_init demo_raw rs) = Inr ()"
  by (simp add: raw_init_def demo_raw_def Let_def)

lemma app_init_succeeds:
  assumes "fst (raw_init wan (RawSocketManager_new (g_iface_wan (sh_cfg (ap_shared a))))) = Inr ()"
    "fst (raw_init lan (RawSocketManager_new (g_iface_lan (sh_cfg (ap_shared a))))) = Inr ()"
    "\<And>k. same_net (ap_net a) k \<Longrightarrow> fst (sync (sh_cfg (ap_shared a)) (ap_netcfg a) (sh_dhcp (ap_shared a)) k) = Inr ()"
    "\<And>k. same_net (ap_net a) k \<Longrightarrow> \<exists>ip. fst (resolve_nat_wan_ip (sh_cfg (ap_shared a)) k) = Inr ip"
  shows "fst (app_init wan lan a) = Inr ()"
proof -
  let ?cfg = "sh_cfg (ap_shared a)"
  define k1 where "k1 = snd (disable_hardware_offloads (g_iface_lan ?cfg) (snd (disable_hardware_offloads (g_iface_wan ?cfg) (ap_net a))))"
  have n: "same_net (ap_net a) k1" unfolding k1_def using same_net_offloads same_net_trans by blast
  obtain nc d k2 where s: "sync ?cfg (ap_netcfg a) (sh_dhcp (ap_shared a)) k1 = (Inr (), nc, d, k2)"
    using assms(3) [OF n] by (metis prod.collapse)
  obtain ip where "fst (resolve_nat_wan_ip ?cfg k2) = Inr ip" using assms(4) [OF same_net_trans [OF n same_net_sync [OF s]]] by blast
  then show ?thesis using assms(1,2) s by (auto simp: app_init_def k1_def [symmetric] Let_def split: prod.split sum.split)
qed

lemma demo_init: "fst (app_init demo_raw demo_raw (App_new Config_defaults demo_world demo_net)) = Inr ()"
  using same_net_trans [OF App_new_simps(9)] demo_sync demo_wan_ip
  by (intro app_init_succeeds) (fastforce simp: demo_raw_init App_new_simps)+

theorem app_init_ready_witness:
  "\<exists>a. app_init demo_raw demo_raw (App_new Config_defaults demo_world demo_net) = (Inr (), a) \<and>
     rs_mapped (iface_wan a) \<and> router_ip (sh_dhcp (ap_shared a)) = 0x010CA8C0 \<and> wan_ip_snapshot (sh_nat (ap_shared a)) = 0x0A0200C0"
proof -
  obtain a where a: "app_init demo_raw demo_raw (App_new Config_defaults demo_world demo_net) = (Inr (), a)"
    using demo_init by (metis prod.collapse)
  have c: "enable_nat Config_defaults" "g_iface_lan Config_defaults = ''eth1''" "g_iface_wan Config_defaults = ''eth0''"
    by (simp_all add: Config_defaults_def)
  show ?thesis using app_init_ready [OF a] a unfolding c by (auto simp: demo_net_def ifr_name_def c_str_def c)
qed

end
