(* ===== verification/App_Threads.thy ===== *)
theory App_Threads
  imports App
begin

text \<open>
  The running program: its invariant, and that its shutdown, with the eleven
  threads of both planes and the dashboard interleaved in any way, comes to an end with every thread joined.
\<close>

section \<open>What the planes keep for each other\<close>

definition same_queues :: "Shared \<Rightarrow> Shared \<Rightarrow> bool" where
  "same_queues s s' \<longleftrightarrow> same_kernel (sh_world s) (sh_world s') \<and>
     (\<forall>k. normal_queue (sh_shapers s' k) = normal_queue (sh_shapers s k) \<and> tx_callback (sh_shapers s' k) = tx_callback (sh_shapers s k))"

lemma shared_ok_same: "same_queues s s' \<Longrightarrow> shared_ok s \<Longrightarrow> shared_ok s'"
  using same_kernel_returns same_kernel_atomic by (auto simp: same_queues_def shared_ok_def quiet_def)

lemma qos_queues: "same_queues s (snd (qos_tick1Hz b s))"
  by (simp add: same_queues_def qos_tick1Hz_def qos_mode_def Let_def same_kernel_def set_rate_limit_def)

lemma service_tick_shared:
  assumes "service_tick i p = Some p'" "shared_ok (pl_shared p)"
  shows "shared_ok (pl_shared p')"
proof -
  have k: "same_kernel (pl_world p) (pl_world p')"
    using service_tick_returns [of p i] assms by (auto simp: shared_ok_def)
  have "sh_shapers (pl_shared p') = sh_shapers (pl_shared p)" if "i \<noteq> 4"
    using assms(1) that
    by (auto simp: service_tick_def telemetry_service_def l2_service_def wan_service_def dhcp_service_def dhcp_tick1Hz_def nat_service_def
        ticker_tick1Hz_def fifth_def Let_def bind_eq_Some_conv split: if_splits prod.splits)
  then have "same_queues (pl_shared p) (pl_shared p')"
    using k assms(1) qos_queues [of "pl_shared p" "pl_base p"]
    by (cases "i = 4") (auto simp: same_queues_def service_tick_def qos_service_def split: prod.splits)
  then show ?thesis using shared_ok_same assms(2) by blast
qed

lemma apply_config_shared: "shared_ok (pl_shared (applyDhcpConfig p)) = shared_ok (pl_shared p)"
  by (auto simp: applyDhcpConfig_def dhcp_applied_def Let_def shared_ok_def split: sum.split prod.split option.split)

lemma cp_step_shared:
  assumes "cp_step cp l cp'" "shared_ok (pl_shared (plane cp))"
  shows "shared_ok (pl_shared (plane cp'))"
  using assms(1)
proof cases
  case (cp_svc i)
  from this(3) show ?thesis by cases (use assms(2) service_tick_shared in \<open>auto simp: svc_goto_def\<close>)
next
  case cp_ev
  then show ?thesis by cases (use assms(2) in \<open>auto simp: ev_goto_def apply_config_shared\<close>)
next
  case cp_stop
  from this(2) show ?thesis by cases (use assms(2) in \<open>auto simp: wake_watchdog_def close_efds_def\<close>)
next
  case cp_request
  then show ?thesis using assms(2) by (simp add: request_dhcp_config_apply_def)
qed

lemma engine_of_simps [simp]:
  "fe_shared (engine_of a fe) = ap_shared a" "fe_main (engine_of a fe) = fe_main fe" "fe_workers (engine_of a fe) = fe_workers fe"
  "fe_running (engine_of a fe) = fe_running fe"
  by (simp_all add: engine_of_def)

lemma control_of_simps [simp]:
  "pl_shared (plane (control_of a cp)) = ap_shared a" "main_thread (control_of a cp) = main_thread cp"
  "service_threads (control_of a cp) = service_threads cp" "control_event_thread (control_of a cp) = control_event_thread cp"
  "running (control_of a cp) = running cp" "watchdog_stop_efd (control_of a cp) = watchdog_stop_efd cp"
  "dhcp_cfg_efd (control_of a cp) = dhcp_cfg_efd cp"
  by (simp_all add: control_of_def)

lemma put_simps [simp]:
  "forward_engine (put_engine fe a) = Some fe" "ap_shared (put_engine fe a) = fe_shared fe" "control_plane (put_engine fe a) = control_plane a"
  "stop_thread (put_engine fe a) = stop_thread a" "lifecycle (put_engine fe a) = lifecycle a"
  "control_plane (put_control cp a) = Some cp" "ap_shared (put_control cp a) = pl_shared (plane cp)"
  "forward_engine (put_control cp a) = forward_engine a" "stop_thread (put_control cp a) = stop_thread a"
  "lifecycle (put_control cp a) = lifecycle a"
  by (simp_all add: put_engine_def put_control_def)

text \<open>Nothing an engine needs of the shared state depends on who changed it.\<close>

lemma engine_moved:
  assumes "fe_inv fe" "shared_ok (ap_shared a)"
  shows "fe_inv (engine_of a fe)"
proof -
  have "wks.members (engine_of a fe) g = wks.members fe g" "worker_tokens (engine_of a fe) g = worker_tokens fe g" for g
    by (auto simp: worker_tokens_def intro!: members_cong)
  then show ?thesis using assms by (simp add: fe_inv_def wks.draining_def workers_stopping_def workers_done_def)
qed

lemma live_control_of [simp]: "live_threads (control_of a cp) = live_threads cp"
  by (simp add: live_threads_def)

lemma control_moved: "cp_inv cp \<Longrightarrow> shared_ok (ap_shared a) \<Longrightarrow> cp_inv (control_of a cp)"
  by (simp add: cp_inv_def all_done_def shared_ok_def)

section \<open>The invariant of the program\<close>

definition app_inv :: "App \<Rightarrow> bool" where
  "app_inv a \<longleftrightarrow> shared_ok (ap_shared a) \<and>
     (\<forall>fe. forward_engine a = Some fe \<longrightarrow> fe_inv fe \<and>
        (stop_thread a \<in> {T_control, T_mark, T_done} \<longrightarrow> fe_main fe = F_stopped)) \<and>
     (\<forall>cp. control_plane a = Some cp \<longrightarrow> cp_inv cp \<and>
        (stop_thread a \<in> {T_idle, T_engine} \<longrightarrow> main_thread cp = M_run) \<and>
        (stop_thread a \<in> {T_mark, T_done} \<longrightarrow> main_thread cp = M_stopped)) \<and>
     started (lifecycle a) = (stop_thread a \<noteq> T_idle) \<and> complete (lifecycle a) = (stop_thread a = T_done)"

lemma fe_stop_step_step: "fe_stop_step fe fe' \<Longrightarrow> fe_step fe Halt fe'"
  by (rule fe_step.fe_stop)

lemma fe_step_main:
  assumes "fe_step fe l fe'" "l \<noteq> Halt" "fe_inv fe"
  shows "fe_main fe' = fe_main fe"
  using assms(1)
proof cases
  case (fe_rx i e)
  then show ?thesis using worker_step_inv [OF assms(3)] by (auto simp: step_ok_def)
next
  case (fe_proc i e)
  then show ?thesis using worker_step_inv [OF assms(3)] by (auto simp: step_ok_def)
qed (use assms(2) in auto)

lemma cp_step_main:
  assumes "cp_step cp l cp'" "l \<noteq> Stop"
  shows "main_thread cp' = main_thread cp"
  using assms(1)
proof cases
  case (cp_svc i)
  then show ?thesis using thread_step_main by (auto simp: thread_step_def)
next
  case cp_ev
  then show ?thesis using thread_step_main by (auto simp: thread_step_def)
qed (use assms(2) in \<open>auto simp: request_dhcp_config_apply_def\<close>)

lemma app_stop_step_inv:
  assumes "app_inv a" "app_stop_step a a'"
  shows "app_inv a'"
  using assms(2)
proof cases
  case (stop_engine fe fe')
  have "fe_inv (engine_of a fe)" using engine_moved assms(1) stop_engine by (simp add: app_inv_def)
  then have "fe_inv fe'" using fe_step_inv [OF _ fe_stop_step_step] stop_engine by blast
  then show ?thesis using assms(1) stop_engine by (auto simp: app_inv_def fe_inv_def)
next
  case (stop_control cp cp')
  have "cp_inv (control_of a cp)" using control_moved assms(1) stop_control by (simp add: app_inv_def)
  then have "cp_inv cp'" using cp_step_inv [OF _ cp_step.cp_stop] stop_control by blast
  moreover have "shared_ok (pl_shared (plane cp'))"
    using cp_step_shared [OF cp_step.cp_stop, OF stop_control(4)] assms(1) by (simp add: app_inv_def)
  ultimately show ?thesis using assms(1) stop_control by (auto simp: app_inv_def)
qed (use assms(1) in \<open>auto simp: app_inv_def mark_complete_def\<close>)

lemma app_step_inv:
  assumes "app_inv a" "app_step a l a'"
  shows "app_inv a'"
  using assms(2)
proof cases
  case (app_data fe l fe')
  have i: "fe_inv (engine_of a fe)" using engine_moved assms(1) app_data by (simp add: app_inv_def)
  then have "fe_inv fe'" "fe_main fe' = fe_main fe" using fe_step_inv fe_step_main [of "engine_of a fe"] app_data by auto
  then show ?thesis using assms(1) app_data by (auto simp: app_inv_def fe_inv_def)
next
  case (app_control cp l cp')
  have "cp_inv (control_of a cp)" using control_moved assms(1) app_control by (simp add: app_inv_def)
  then have "cp_inv cp'" "main_thread cp' = main_thread cp" using cp_step_inv cp_step_main [of "control_of a cp"] app_control by auto
  moreover have "shared_ok (pl_shared (plane cp'))" using cp_step_shared [OF app_control(4)] assms(1) by (simp add: app_inv_def)
  ultimately show ?thesis using assms(1) app_control by (auto simp: app_inv_def)
next
  case (app_dash t cfg)
  have "shared_ok (upd_tel (\<lambda>_. t) ((ap_shared a)\<lparr>sh_cfg := cfg\<rparr>)) = shared_ok (ap_shared a)"
    by (simp add: shared_ok_def sends_return_def atomic_sends_def)
  then show ?thesis using assms(1) app_dash by (auto simp: app_inv_def)
next
  case app_ask_dhcp
  have "cp_inv (request_dhcp_config_apply cp)" if "cp_inv cp" for cp using cp_step_inv [OF that cp_step.cp_request] .
  then show ?thesis using assms(1) app_ask_dhcp by (auto simp: app_inv_def app_request_dhcp_def request_dhcp_config_apply_def)
next
  case app_ask_stop
  then show ?thesis using assms(1) by (cases "stop_thread a = T_idle") (auto simp: app_inv_def app_stop_call_def begin_stop_def Let_def)
next
  case app_stopping
  then show ?thesis using app_stop_step_inv assms(1) by blast
qed

lemma app_run_inv: "app_run a n a' \<Longrightarrow> app_inv a \<Longrightarrow> app_inv a'"
  by (induction rule: app_run.induct) (auto dest: app_step_inv)

section \<open>The work of a shutdown\<close>

fun engine_left :: "Forward_Engine option \<Rightarrow> nat" where
  "engine_left None = 22"
| "engine_left (Some fe) =
     (case fe_main fe of F_stopped \<Rightarrow> 22 | F_join \<Rightarrow> 23 + engine_work fe | F_wake \<Rightarrow> 2086 | F_run \<Rightarrow> 2087)"

fun control_left :: "ControlPlane option \<Rightarrow> nat" where
  "control_left None = 2"
| "control_left (Some cp) =
     (case main_thread cp of M_stopped \<Rightarrow> 2 | M_join \<Rightarrow> 3 + cp_work cp | M_wake \<Rightarrow> 20 | M_run \<Rightarrow> 21)"

definition shutdown_left :: "App \<Rightarrow> nat" where
  "shutdown_left a =
     (case stop_thread a of
        T_engine \<Rightarrow> engine_left (forward_engine a) | T_control \<Rightarrow> control_left (control_plane a)
      | T_mark \<Rightarrow> 1 | _ \<Rightarrow> 0)"

lemma engine_work_bound:
  assumes "fe_inv fe"
  shows "engine_work fe \<le> 2062"
proof -
  have pcs: "rx_work r \<le> 3 \<and> proc_work p \<le> 5" for r p by (cases r; cases p) simp_all
  have len: "length (frames fe i) \<le> 1023" if "i < 2" for i
    using assms that spsc_count_less [of 1024 "wk_frames (fe_workers fe i)"] by (simp add: fe_inv_def worker_ok_def spsc_items_def)
  have "worker_work (fe_workers fe i) \<le> 1031" if "i < 2" for i
    using len [OF that] pcs [of "rx_thread (fe_workers fe i)" "proc_thread (fe_workers fe i)"]
    unfolding worker_work_def by linarith
  from this [of 0] this [of 1] show ?thesis by (simp add: engine_work_def)
qed

lemma cp_work_bound: "cp_work cp \<le> 16"
proof -
  have "svc_work pc \<le> 2" for pc by (cases pc) auto
  then have "(\<Sum>i < 6. svc_work (service_threads cp i)) \<le> 12" using sum_bounded_above [of "{..<6 :: nat}" "\<lambda>i. svc_work (service_threads cp i)" 2] by simp
  moreover have "ev_work (control_event_thread cp) \<le> 4" by (cases "control_event_thread cp") auto
  ultimately show ?thesis by (simp add: cp_work_def)
qed

lemma work_moved [simp]: "engine_work (engine_of a fe) = engine_work fe" "cp_work (control_of a cp) = cp_work cp"
  by (simp_all add: engine_work_def cp_work_def)

lemma fe_step_work:
  assumes "fe_step fe l fe'" "l \<noteq> Halt" "fe_inv fe" "fe_main fe = F_join"
  shows "if \<exists>i e. l = Worker i e then engine_work fe' < engine_work fe else engine_work fe' = engine_work fe"
proof -
  have d: "wks.draining fe" using assms(3,4) by (simp add: fe_inv_def)
  have less: "engine_work fe' < engine_work fe" if "worker_step fe fe'" using wks.draining_step(2) [OF d that] .
  show ?thesis
    using assms(1)
  proof cases
    case (fe_rx i e)
    then have "worker_step fe fe'" unfolding worker_step_def by blast
    then show ?thesis using less fe_rx(1) by simp
  next
    case (fe_proc i e)
    then have "worker_step fe fe'" unfolding worker_step_def by blast
    then show ?thesis using less fe_proc(1) by simp
  next
    case (fe_arrive i rs)
    then have "worker_work (fe_workers fe' j) = worker_work (fe_workers fe j)" for j by (simp add: worker_work_def)
    then show ?thesis using fe_arrive(1) by (simp add: engine_work_def)
  qed (use assms(2) in simp)
qed

lemma cp_step_work:
  assumes "cp_step cp l cp'" "l \<noteq> Stop" "l \<noteq> Request" "cp_inv cp" "main_thread cp = M_join"
  shows "cp_work cp' < cp_work cp"
proof -
  have d: "cps.draining cp" using assms(4,5) by (simp add: cps_draining cp_inv_def cp_stopping_def)
  have "thread_step cp cp'" using assms(1-3) by cases (auto simp: thread_step_def)
  then show ?thesis using cps.draining_step(2) [OF d] by blast
qed

lemma app_stop_step_left:
  assumes "app_inv a" "app_stop_step a a'"
  shows "shutdown_left a' < shutdown_left a"
  using assms(2)
proof cases
  case (stop_engine fe fe')
  have "fe_inv (engine_of a fe)" using engine_moved assms(1) stop_engine by (simp add: app_inv_def)
  then have "fe_inv fe'" using fe_step_inv [OF _ fe_stop_step_step] stop_engine by blast
  from stop_engine(4) engine_work_bound [OF this] stop_engine show ?thesis by cases (auto simp: shutdown_left_def)
next
  case (stop_control cp cp')
  from stop_control(4) cp_work_bound [of cp'] stop_control show ?thesis by cases (auto simp: shutdown_left_def)
next
  case engine_stopped
  then show ?thesis
    using assms(1) by (cases "forward_engine a"; cases "control_plane a") (auto simp: shutdown_left_def app_inv_def)
next
  case control_stopped
  then show ?thesis by (cases "control_plane a") (auto simp: shutdown_left_def)
qed (simp add: shutdown_left_def)

lemma app_step_left:
  assumes "app_inv a" "app_step a l a'" "stop_thread a \<noteq> T_idle"
  shows "shutdown_left a' + (if urgent a l then 1 else 0) \<le> shutdown_left a \<and> stop_thread a' \<noteq> T_idle"
  using assms(2)
proof cases
  case (app_data fe m fe')
  have i: "fe_inv (engine_of a fe)" using engine_moved assms(1) app_data by (simp add: app_inv_def)
  have main: "fe_main fe' = fe_main fe" using fe_step_main [OF app_data(4,5) i] by simp
  have w: "if \<exists>i e. m = Worker i e then engine_work fe' < engine_work fe else engine_work fe' = engine_work fe" if "fe_main fe = F_join"
    using fe_step_work [OF app_data(4,5) i] that unfolding work_moved by simp
  show ?thesis
  proof (cases "stop_thread a = T_engine \<and> fe_main fe = F_join")
    case True
    then show ?thesis using app_data main w by (cases m) (auto simp: shutdown_left_def Suc_le_eq)
  next
    case False
    then have "\<not> urgent a l" using app_data by (cases m) auto
    then show ?thesis using False app_data main assms(3) by (auto simp: shutdown_left_def split: stop_pc.splits engine_pc.splits)
  qed
next
  case (app_control cp m cp')
  have i: "cp_inv (control_of a cp)" using control_moved assms(1) app_control by (simp add: app_inv_def)
  have main: "main_thread cp' = main_thread cp" using cp_step_main [OF app_control(4,5)] by simp
  have w: "cp_work cp' < cp_work cp" if "main_thread cp = M_join" using cp_step_work [OF app_control(4-6) i] that by simp
  show ?thesis
    using app_control main w assms(3) by (auto simp: shutdown_left_def split: stop_pc.splits main_pc.splits)
next
  case app_ask_dhcp
  have "cp_work (request_dhcp_config_apply cp) = cp_work cp" "main_thread (request_dhcp_config_apply cp) = main_thread cp" for cp
    by (simp_all add: request_dhcp_config_apply_def cp_work_def)
  then have "control_left (control_plane a') = control_left (control_plane a)"
    using app_ask_dhcp by (cases "control_plane a") (auto simp: app_request_dhcp_def split: main_pc.splits)
  then show ?thesis using app_ask_dhcp assms(3) by (auto simp: shutdown_left_def app_request_dhcp_def split: stop_pc.splits)
next
  case app_ask_stop
  have "started (lifecycle a)" using assms(1,3) by (simp add: app_inv_def)
  then show ?thesis using app_ask_stop assms(3) by (cases "stop_thread a") (simp_all add: app_stop_call_def begin_stop_def shutdown_left_def)
next
  case app_stopping
  then have "stop_thread a' \<noteq> T_idle" using assms(3) by (auto elim!: app_stop_step.cases)
  then show ?thesis using app_stop_step_left [OF assms(1)] app_stopping by (simp add: Suc_le_eq)
next
  case (app_dash t cfg)
  then show ?thesis using assms(3) by (cases "stop_thread a") (simp_all add: shutdown_left_def)
qed

lemma app_run_left:
  assumes "app_run a n a'" "app_inv a" "stop_thread a \<noteq> T_idle"
  shows "n + shutdown_left a' \<le> shutdown_left a \<and> stop_thread a' \<noteq> T_idle"
  using assms
proof (induction rule: app_run.induct)
  case (app_run_snoc a n a1 l a2)
  then show ?case using app_step_left [OF app_run_inv [OF app_run_snoc(1)] app_run_snoc(2)] by fastforce
qed simp

lemma shutdown_left_bound:
  assumes "app_inv a"
  shows "shutdown_left a \<le> 2087"
proof -
  have "engine_left (forward_engine a) \<le> 2087"
  proof (cases "forward_engine a")
    case (Some fe)
    then have "engine_work fe \<le> 2062" using assms engine_work_bound by (simp add: app_inv_def)
    then show ?thesis using Some by (cases "fe_main fe") simp_all
  qed simp
  moreover have "control_left (control_plane a) \<le> 21"
  proof (cases "control_plane a")
    case (Some cp)
    then show ?thesis using cp_work_bound [of cp] by (cases "main_thread cp") simp_all
  qed simp
  ultimately show ?thesis by (cases "stop_thread a") (simp_all add: shutdown_left_def)
qed

text \<open>As long as the shutdown is not complete, one of the steps it waits for can be taken.\<close>

lemma engine_joining_moves:
  assumes "fe_inv (engine_of a fe)" "fe_main fe = F_join" "forward_engine a = Some fe" "stop_thread a = T_engine"
  shows "\<exists>l a'. urgent a l \<and> app_step a l a'"
proof (cases "workers_done (engine_of a fe)")
  case True
  then have "fe_stop_step (engine_of a fe) ((close_poll_fds (engine_of a fe))\<lparr>fe_main := F_stopped\<rparr>)"
    using assms(2) by (intro fe_stop_step.fe_joined) simp_all
  then show ?thesis using app_stop_step.stop_engine [OF assms(4,3)] app_step.app_stopping urgent.simps(1) by blast
next
  case False
  have "wks.draining (engine_of a fe)" using assms(1,2) by (simp add: fe_inv_def)
  then obtain fe' where "worker_step (engine_of a fe) fe'"
    using wks.never_stuck [OF _ rtranclp.rtrancl_refl] False threads_done by blast
  then obtain i e where "fe_step (engine_of a fe) (Worker i e) fe'"
    by (auto simp: worker_step_def intro: fe_step.fe_rx fe_step.fe_proc)
  moreover have "urgent a (Data_plane (Worker i e))" using assms(2-4) by simp
  ultimately show ?thesis using app_step.app_data [OF assms(3)] by blast
qed

lemma control_joining_moves:
  assumes "cp_inv (control_of a cp)" "main_thread cp = M_join" "control_plane a = Some cp" "stop_thread a = T_control"
  shows "\<exists>l a'. urgent a l \<and> app_step a l a'"
proof (cases "all_done (control_of a cp)")
  case True
  then have "stop_step (control_of a cp) ((close_efds (control_of a cp))\<lparr>main_thread := M_stopped\<rparr>)"
    using assms(2) by (intro stop_step.stop_joined) simp_all
  then show ?thesis using app_stop_step.stop_control [OF assms(4,3)] app_step.app_stopping urgent.simps(1) by blast
next
  case False
  have "cps.draining (control_of a cp)" using assms(1,2) by (simp add: cps_draining cp_inv_def cp_stopping_def)
  then obtain cp' where "thread_step (control_of a cp) cp'"
    using cps.never_stuck [OF _ rtranclp.rtrancl_refl] False live_empty by blast
  then obtain l where l: "cp_step (control_of a cp) l cp'" "l \<noteq> Stop" "l \<noteq> Request"
    using cp_step.cp_svc cp_step.cp_ev ev_step_label unfolding thread_step_def by fastforce
  moreover have "urgent a (Control_plane l)" using assms(2-4) by simp
  ultimately show ?thesis using app_step.app_control [OF assms(3)] by blast
qed

lemma shutdown_moves:
  assumes "app_inv a" "stop_thread a \<notin> {T_idle, T_done}"
  shows "\<exists>l a'. urgent a l \<and> app_step a l a'"
proof -
  have stopping: "\<exists>l a'. urgent a l \<and> app_step a l a'" if "app_stop_step a a'" for a'
    using app_step.app_stopping [OF that] urgent.simps(1) by blast
  consider "stop_thread a = T_engine" "forward_engine a = None" | fe where "stop_thread a = T_engine" "forward_engine a = Some fe"
    | "stop_thread a = T_control" "control_plane a = None" | cp where "stop_thread a = T_control" "control_plane a = Some cp"
    | "stop_thread a = T_mark"
    using assms(2) by (cases "stop_thread a"; cases "forward_engine a"; cases "control_plane a") auto
  then show ?thesis
  proof cases
    case 1
    then show ?thesis using stopping [OF app_stop_step.engine_stopped] by simp
  next
    case (2 fe)
    have i: "fe_inv (engine_of a fe)" using engine_moved assms(1) 2 by (simp add: app_inv_def)
    show ?thesis
    proof (cases "fe_main fe")
      case F_join
      then show ?thesis using engine_joining_moves [OF i _ 2(2,1)] by blast
    next
      case F_stopped
      then show ?thesis using stopping [OF app_stop_step.engine_stopped] 2 by simp
    qed (use stopping app_stop_step.stop_engine [OF 2] fe_stop_step.fe_flag fe_stop_step.fe_wake in \<open>metis engine_of_simps(2)\<close>)+
  next
    case 3
    then show ?thesis using stopping [OF app_stop_step.control_stopped] by simp
  next
    case (4 cp)
    have i: "cp_inv (control_of a cp)" using control_moved assms(1) 4 by (simp add: app_inv_def)
    show ?thesis
    proof (cases "main_thread cp")
      case M_join
      then show ?thesis using control_joining_moves [OF i _ 4(2,1)] by blast
    next
      case M_stopped
      then show ?thesis using stopping [OF app_stop_step.control_stopped] 4 by simp
    qed (use stopping app_stop_step.stop_control [OF 4] stop_step.stop_flag stop_step.stop_wake in \<open>metis control_of_simps(2)\<close>)+
  next
    case 5
    then show ?thesis using stopping [OF app_stop_step.stop_mark] by blast
  qed
qed

lemma app_run_step: "app_step a l a1 \<Longrightarrow> app_run a1 n a2 \<Longrightarrow> \<exists>m. app_run a m a2"
proof (rotate_tac 1, induction rule: app_run.induct)
  case (app_run_nil a1)
  then show ?case using app_run.app_run_snoc [OF app_run.app_run_nil] by blast
next
  case (app_run_snoc a1 n b l' c)
  then show ?case using app_run.app_run_snoc by blast
qed

lemma shutdown_ends:
  assumes "app_inv a" "stop_thread a \<noteq> T_idle"
  shows "\<exists>n a'. app_run a n a' \<and> stop_thread a' = T_done"
  using assms
proof (induction "shutdown_left a" arbitrary: a rule: less_induct)
  case less
  show ?case
  proof (cases "stop_thread a = T_done")
    case True
    then show ?thesis using app_run_nil by blast
  next
    case False
    then obtain l a1 where s: "urgent a l" "app_step a l a1" using shutdown_moves less.prems by blast
    have "shutdown_left a1 < shutdown_left a" "stop_thread a1 \<noteq> T_idle" using app_step_left [OF less.prems(1) s(2) less.prems(2)] s(1) by auto
    then show ?thesis using less.hyps [OF _ app_step_inv [OF less.prems(1) s(2)]] app_run_step [OF s(2)] by blast
  qed
qed

end
