(* ===== verification/App_Correct.thy ===== *)
theory App_Correct
  imports App_Init App_Threads
begin

text \<open>
  The program as a whole, from its construction through initialisation and start to the end of its shutdown.
\<close>

section \<open>Starting\<close>

text \<open>The data plane starts, or it fails to get its \<^verbatim>\<open>eventfd\<close>s and no thread of it is ever created.\<close>

lemma engine_new_inv: "shared_ok s \<Longrightarrow> fe_inv (Forward_Engine_new s)"
  by (auto simp: fe_inv_def Forward_Engine_new_def worker_ok_def consumer_ok_new rx_inv_def RawSocketManager_new_def workers_done_def)

lemma fe_start_inv:
  assumes "shared_ok s" "rx_inv wan" "rx_inv lan"
  shows "fe_inv (snd (fe_start frame_ok stop_ok err wan lan fd_wan fd_lan app_events app_events (Forward_Engine_new s)))"
proof (cases "\<forall>i < 2. frame_ok i \<and> stop_ok i")
  case True
  then have "frame_ok 0" "stop_ok 0" "frame_ok (Suc 0)" "stop_ok (Suc 0)" by auto
  then show ?thesis using assms
    by (auto simp: fe_start_def open_poll_fds_def close_poll_fds_def Let_def fe_inv_def less_two start_worker_def worker_ok_def efds_open_def
        consumer_ok_new Forward_Engine_new_def)
next
  case False
  then have "\<not> (frame_ok 0 \<and> stop_ok 0 \<and> frame_ok (Suc 0) \<and> stop_ok (Suc 0))" by (auto simp: less_two)
  then show ?thesis using engine_new_inv [OF assms(1)]
    by (auto simp: fe_start_def open_poll_fds_def close_poll_fds_def upd_worker_def Let_def fe_inv_def less_two workers_done_def worker_ok_def
      Forward_Engine_new_def)
qed

lemma fe_start_shared:
  "fe_shared (snd (fe_start frame_ok stop_ok err wan lan fd_wan fd_lan dle ule fe)) = fe_shared fe"
  by (auto simp: fe_start_def open_poll_fds_def close_poll_fds_def upd_worker_def Let_def)

lemma cp_start_ok:
  "cp_start stop_ok cfg_ok (ControlPlane_new p) = Some cp \<Longrightarrow> sends_return (pl_world p) \<Longrightarrow> cp_inv cp \<and> main_thread cp = M_run"
  by (auto simp: cp_start_def ControlPlane_new_def cp_inv_def split: if_splits)

lemma sends_tel [simp]:
  "sends_return (w\<lparr>tel := t\<rparr>) = sends_return w" "atomic_sends (w\<lparr>tel := t\<rparr>) = atomic_sends w"
  by (simp_all add: sends_return_def atomic_sends_def)

lemma Shaper_new_ok:
  assumes "Shaper_new l w = (sh, w')"
  shows "same_kernel w w'" "normal_queue sh = zrb_empty"
  using assms
  by (auto simp: Shaper_new_def TokenBucket_new_def apply_new_rate_def steady_now_def same_kernel_def Let_def split: prod.splits if_splits)

lemma start_shapers_ok:
  assumes "dl_events a = CallbackRegistry_init" "ul_events a = CallbackRegistry_init"
    and "sends_return (sh_world (ap_shared a))" "atomic_sends (sh_world (ap_shared a))"
  shows "shared_ok (ap_shared (start_shapers a))" "dl_events (start_shapers a) = app_events" "ul_events (start_shapers a) = app_events"
    "iface_wan (start_shapers a) = iface_wan a" "iface_lan (start_shapers a) = iface_lan a" "lifecycle (start_shapers a) = lifecycle a"
    "stop_thread (start_shapers a) = stop_thread a"
proof -
  define t where "t = tel (sh_world (ap_shared a))"
  define w where "w = (sh_world (ap_shared a))\<lparr>tel := t\<lparr>effective_qos_global_dl_mbps := qos_global_dl_mbps_pending t,
    effective_qos_global_ul_mbps := qos_global_ul_mbps_pending t\<rparr>\<rparr>"
  obtain s1 w1 where 1: "Shaper_new (qos_global_dl_mbps_pending t) w = (s1, w1)" by fastforce
  obtain s2 w2 where 2: "Shaper_new (qos_global_ul_mbps_pending t) w1 = (s2, w2)" by fastforce
  have k: "same_kernel w w2" using Shaper_new_ok(1) [OF 1] Shaper_new_ok(1) [OF 2] same_kernel_trans by blast
  have w: "sends_return w2" "atomic_sends w2"
    using same_kernel_returns [OF k] same_kernel_atomic [OF k] assms(3,4) by (simp_all add: w_def)
  have e: "start_shapers a = a\<lparr>base_mbps := (qos_global_dl_mbps_pending t, qos_global_ul_mbps_pending t), dl_events := app_events,
      ul_events := app_events, ap_shared := (ap_shared a)\<lparr>sh_shapers := (sh_shapers (ap_shared a))
        (0 := set_tx_result_callback (dispatch_tx_result app_events) s1, 1 := set_tx_result_callback (dispatch_tx_result app_events) s2),
        sh_world := w2\<rparr>\<rparr>"
    using 1 2 assms(1,2) by (simp add: start_shapers_def Let_def t_def [symmetric] w_def [symmetric] app_events_def [symmetric])
  show "shared_ok (ap_shared (start_shapers a))"
    using w Shaper_new_ok(2) [OF 1] Shaper_new_ok(2) [OF 2]
    by (auto simp: e shared_ok_def quiet_def set_tx_result_callback_def less_two)
qed (use assms(1,2) in \<open>simp_all add: start_shapers_def Let_def app_events_def split: prod.split\<close>)

lemma app_start_inv:
  assumes "app_start stop_ok cfg_ok frame_ok wstop_ok err y a = Some a'"
    and "dl_events a = CallbackRegistry_init" "ul_events a = CallbackRegistry_init" "rx_inv (iface_wan a)" "rx_inv (iface_lan a)"
    and "sends_return (sh_world (ap_shared a))" "atomic_sends (sh_world (ap_shared a))"
    and "lifecycle a = Lifecycle_init" "stop_thread a = T_idle"
  shows "app_inv a' \<and> forward_engine a' \<noteq> None \<and> control_plane a' \<noteq> None \<and> stop_thread a' = T_idle"
proof -
  define a1 where "a1 = start_shapers (a\<lparr>ap_shared := upd_tel (start_telemetry (ENABLE_ACCELERATION (sh_cfg (ap_shared a)))) (ap_shared a)\<rparr>)"
  have 1: "shared_ok (ap_shared a1)" "dl_events a1 = app_events" "ul_events a1 = app_events" "iface_wan a1 = iface_wan a"
    "iface_lan a1 = iface_lan a" "lifecycle a1 = Lifecycle_init" "stop_thread a1 = T_idle"
    unfolding a1_def using assms(2-9) by (simp_all add: start_shapers_ok)
  obtain f k where r: "refresh_l2 (sh_cfg (ap_shared a1)) (sh_plane (ap_shared a1)) (ap_net a1) = (f, k)" by fastforce
  let ?s = "(ap_shared a1)\<lparr>sh_plane := f\<rparr>"
  have s: "shared_ok ?s" "sends_return (sh_world (ap_shared a1))" using 1(1) by (simp_all add: shared_ok_def)
  show ?thesis
    using assms(1) 1 s fe_start_inv [OF s(1)] assms(4,5) fe_start_shared
    by (auto simp: app_start_def a1_def [symmetric] r Let_def bind_eq_Some_conv app_inv_def Lifecycle_init_def dest: cp_start_ok)
qed

lemma app_run_some:
  "app_run a n a' \<Longrightarrow> forward_engine a \<noteq> None \<and> control_plane a \<noteq> None \<Longrightarrow> forward_engine a' \<noteq> None \<and> control_plane a' \<noteq> None"
proof (induction rule: app_run.induct)
  case (app_run_snoc a n a1 l a2)
  then show ?case
    by (auto simp: app_request_dhcp_def app_stop_call_def Let_def split: prod.split elim!: app_step.cases app_stop_step.cases)
qed

section \<open>Shutdown\<close>

lemma app_inv_wait: "app_inv a \<Longrightarrow> wait_done (lifecycle a) = (stop_thread a = T_done)"
  by (simp add: app_inv_def wait_done_def)

lemma app_done:
  assumes "app_inv a1" "forward_engine a1 \<noteq> None" "control_plane a1 \<noteq> None" "app_run a1 n a" "wait_done (lifecycle a)"
  shows "workers_done (the (forward_engine a)) \<and> all_done (the (control_plane a))"
  using app_run_inv [OF assms(4,1)] app_run_some [OF assms(4)] assms(2,3,5)
  by (auto simp: app_inv_def fe_inv_def cp_inv_def wait_done_def)

text \<open>C3: The program shuts down.  Take any initialised and started program, any interleaving of its eleven threads, the
  packets that arrive, the changes of the dashboard and the calls of \<^verbatim>\<open>stop\<close>, and any moment after the first call of
  \<^verbatim>\<open>stop\<close>.  However the threads are scheduled from there, at most 2087 more steps are taken by \<^verbatim>\<open>stop\<close> or by a thread it
  is joining; until it has finished one of these is always possible; and once \<^verbatim>\<open>wait_done\<close> lets the main
  function go on, every thread of both planes has ended.\<close>

theorem app_shuts_down:
  assumes "app_init wan lan (App_new cfg w k) = (r, a0)" "sends_return w" "atomic_sends w"
    and "app_start stop_ok cfg_ok frame_ok wstop_ok err y a0 = Some a1"
    and "app_run a1 n0 a" "stop_thread a \<noteq> T_idle"
  shows "(\<forall>n a'. app_run a n a' \<longrightarrow>
       n \<le> 2087 \<and> (stop_thread a' = T_done \<or> (\<exists>l a''. urgent a' l \<and> app_step a' l a'')) \<and>
       (wait_done (lifecycle a') \<longrightarrow> workers_done (the (forward_engine a')) \<and> all_done (the (control_plane a')))) \<and>
    (\<exists>n a'. app_run a n a' \<and> wait_done (lifecycle a'))"
proof -
  have i: "app_inv a1 \<and> forward_engine a1 \<noteq> None \<and> control_plane a1 \<noteq> None \<and> stop_thread a1 = T_idle"
    using app_start_inv [OF assms(4)] app_init_keeps [OF assms(1)] assms(2,3) by (simp add: App_new_simps)
  note inv = app_run_inv [OF assms(5) i [THEN conjunct1]]
  have e: "n + shutdown_left a' \<le> 2087" "stop_thread a' \<noteq> T_idle" "app_inv a'"
    if "app_run a n a'" for n a'
    using app_run_left [OF that inv assms(6)] shutdown_left_bound [OF inv] app_run_inv [OF that inv] by auto
  have "wait_done (lifecycle a') \<longrightarrow> workers_done (the (forward_engine a')) \<and> all_done (the (control_plane a'))"
    if "app_run a n a'" for n a'
    using app_done [OF inv _ _ that] app_run_some [OF assms(5)] i by auto
  moreover have "\<exists>n a'. app_run a n a' \<and> wait_done (lifecycle a')"
    using shutdown_ends [OF inv assms(6)] app_inv_wait e(3) by blast
  moreover have "stop_thread a' = T_done \<or> (\<exists>l a''. urgent a' l \<and> app_step a' l a'')" if "app_run a n a'" for n a'
    using shutdown_moves [OF e(3) [OF that]] e(2) [OF that] by blast
  ultimately show ?thesis using e(1) by (meson add_leD1)
qed

lemma app_start_some: "\<exists>a'. app_start True True frame_ok wstop_ok err y a = Some a'"
  by (simp add: app_start_def cp_start_def ControlPlane_new_def Let_def split: prod.split)

theorem app_shuts_down_witness:
  "\<exists>a0 a1 n a. app_init demo_raw demo_raw (App_new Config_defaults demo_world demo_net) = (Inr (), a0) \<and>
     app_start True True (\<lambda>_. True) (\<lambda>_. True) [] demo_sys a0 = Some a1 \<and> app_run (app_stop_call a1) n a \<and> n \<le> 2087 \<and>
     workers_done (the (forward_engine a)) \<and> all_done (the (control_plane a))"
proof -
  obtain a0 where i: "app_init demo_raw demo_raw (App_new Config_defaults demo_world demo_net) = (Inr (), a0)"
    using demo_init by (metis prod.collapse)
  obtain a1 where s: "app_start True True (\<lambda>_. True) (\<lambda>_. True) [] demo_sys a0 = Some a1" using app_start_some by blast
  have "app_inv a1" "stop_thread a1 = T_idle"
    using app_start_inv [OF s] app_init_keeps [OF i] demo_world_ok by (simp_all add: App_new_simps)
  then have t: "stop_thread (app_stop_call a1) \<noteq> T_idle"
    by (auto simp: app_inv_def app_stop_call_def begin_stop_def Let_def)
  have r: "app_run a1 0 (app_stop_call a1)"
    using app_run.app_run_snoc [OF app_run.app_run_nil app_step.app_ask_stop] by simp
  note down = app_shuts_down [OF i demo_world_ok s r t]
  then obtain n a where "app_run (app_stop_call a1) n a" "wait_done (lifecycle a)" by blast
  then show ?thesis using i s down by blast
qed

end
