(* ===== verification/SelfTest.thy ===== *)
theory SelfTest
  imports Services_Correct
begin

text \<open>
  \<^verbatim>\<open>SelfTest.cpp\<close>: the checks that run before the services start.  The NAT and DHCP checks build frames by hand and drive the
  real engines; the system checks read files and a directory.  The socket pair of the DHCP check is the pair of
  descriptors the kernel returns: what is sent to the second can be received from the first.
\<close>

section \<open>The report\<close>

record TestCase =
  tc_name :: string
  tc_pass :: bool
  tc_detail :: string

record Report =
  rp_cases :: "nat \<Rightarrow> TestCase"
  rp_count :: nat
  rp_passed :: nat

definition Report_init :: Report where
  "Report_init = \<lparr>rp_cases = (\<lambda>_. \<lparr>tc_name = [], tc_pass = False, tc_detail = []\<rparr>), rp_count = 0, rp_passed = 0\<rparr>"

definition report_add :: "string \<Rightarrow> bool \<Rightarrow> string \<Rightarrow> Report \<Rightarrow> Report" where
  "report_add n p d r =
     (if rp_count r \<ge> 32 then r
      else
        let c = \<lparr>tc_name = take 63 n, tc_pass = p, tc_detail = take 127 d\<rparr>;
            r = r\<lparr>rp_cases := (rp_cases r)(rp_count r := c), rp_count := rp_count r + 1\<rparr>
        in if p then r\<lparr>rp_passed := rp_passed r + 1\<rparr> else r)"

section \<open>Packet builders\<close>

definition make_udp_pkt :: "u32 \<Rightarrow> u32 \<Rightarrow> u16 \<Rightarrow> u16 \<Rightarrow> bytes" where
  "make_udp_pkt sip dip sport dport =
     (let buf = replicate 42 0; ip = 14; u = 34;
          buf = st16 buf (eth_proto_off 0) (htons 0x0800);
          buf = st8 buf (ip_ver_ihl_off ip) 0x45;
          buf = st8 buf (ip_protocol_off ip) 17;
          buf = st16 buf (ip_tot_len_off ip) (htons 28);
          buf = st32 buf (ip_saddr_off ip) sip;
          buf = st32 buf (ip_daddr_off ip) dip;
          buf = st16 buf (l4_source_off u) (htons sport);
          buf = st16 buf (l4_dest_off u) (htons dport)
      in st16 buf (udp_len_off u) (htons 8))"

definition make_tcp_pkt :: "u32 \<Rightarrow> u32 \<Rightarrow> u16 \<Rightarrow> u16 \<Rightarrow> u16 \<Rightarrow> bytes" where
  "make_tcp_pkt sip dip sport dport flags =
     (let buf = replicate 54 0; ip = 14; t = 34;
          buf = st16 buf (eth_proto_off 0) (htons 0x0800);
          buf = st8 buf (ip_ver_ihl_off ip) 0x45;
          buf = st8 buf (ip_protocol_off ip) 6;
          buf = st16 buf (ip_tot_len_off ip) (htons 40);
          buf = st32 buf (ip_saddr_off ip) sip;
          buf = st32 buf (ip_daddr_off ip) dip;
          buf = st16 buf (l4_source_off t) (htons sport);
          buf = st16 buf (l4_dest_off t) (htons dport)
      in st16 buf (tcp_flags_off t) (htons flags))"

text \<open>The header \<^verbatim>\<open>DhcpWireHeader\<close> of the test has the layout of the \<^verbatim>\<open>DhcpHeader\<close> of the engine.  The result is the buffer
  and the length of the message in it.\<close>

definition make_dhcp_discover :: "bytes \<times> nat" where
  "make_dhcp_discover =
     (let buf = replicate 512 0; ip = 14; u = 34; d = 42;
          buf = st16 buf (eth_proto_off 0) (htons 0x0800);
          buf = st8 buf (ip_ver_ihl_off ip) 0x45;
          buf = st8 buf (ip_protocol_off ip) 17;
          buf = st32 buf (ip_saddr_off ip) 0;
          buf = st32 buf (ip_daddr_off ip) 0xFFFFFFFF;
          buf = st16 buf (l4_source_off u) (htons 68);
          buf = st16 buf (l4_dest_off u) (htons 67);
          buf = st8 buf (dhcp_op_off d) 1;
          buf = st8 buf (dhcp_htype_off d) 1;
          buf = st8 buf (dhcp_hlen_off d) 6;
          buf = st32 buf (dhcp_xid_off d) (htonl 0xDEADBEEF);
          buf = st32 buf (dhcp_magic_off d) (htonl 0x63825363);
          buf = memcpy buf (dhcp_chaddr_off d) [0xAA, 0xBB, 0xCC, 0xDD, 0xEE, 0xFF];
          opt = 42 + sizeof_DhcpHeader;
          buf = memcpy buf opt [53, 1, 1, 255];
          opt = opt + 4;
          udp_len = of_nat (opt - 34);
          ip_len = of_nat (opt - 14);
          buf = st16 buf (udp_len_off u) (htons udp_len);
          buf = st16 buf (ip_tot_len_off ip) (htons ip_len)
      in (buf, opt))"

text \<open>The echo messages of the NAT check.\<close>

definition make_icmp_pkt :: "u32 \<Rightarrow> u32 \<Rightarrow> u8 \<Rightarrow> u16 \<Rightarrow> bytes" where
  "make_icmp_pkt sip dip ty id_n =
     (let buf = replicate 42 0; ip = 14; c = 34;
          buf = st16 buf (eth_proto_off 0) (htons 0x0800);
          buf = st8 buf (ip_ver_ihl_off ip) 0x45;
          buf = st8 buf (ip_protocol_off ip) 1;
          buf = st16 buf (ip_tot_len_off ip) (htons 28);
          buf = st16 buf (ip_frag_off_off ip) 0;
          buf = st8 buf (ip_ttl_off ip) 64;
          buf = st32 buf (ip_saddr_off ip) sip;
          buf = st32 buf (ip_daddr_off ip) dip;
          buf = st16 buf (ip_check_off ip) 0;
          buf = st16 buf (ip_check_off ip) (htons (fold_ip_header_checksum buf ip));
          buf = st8 buf (icmp_type_off c) ty;
          buf = st8 buf (icmp_code_off c) 0;
          buf = st16 buf (icmp_check_off c) 0;
          buf = st16 buf (icmp_id_off c) id_n;
          buf = st16 buf (icmp_sequence_off c) (htons 1)
      in st16 buf (icmp_check_off c) (htons (fold_icmp_checksum buf c 8)))"

section \<open>The checks\<close>

text \<open>\<^verbatim>\<open>value()\<close> of an \<^verbatim>\<open>expected\<close>: it throws when there is only an error.\<close>

definition expected_value :: "string + 'a \<Rightarrow> 'a option" where
  "expected_value e = (case e of Inl _ \<Rightarrow> None | Inr v \<Rightarrow> Some v)"

definition port_in_range :: "u16 \<Rightarrow> bool" where
  "port_in_range p \<longleftrightarrow> 10000 \<le> p \<and> p \<le> 60000"

definition test_nat :: "Report \<Rightarrow> Report option" where
  "test_nat r =
     do {
       wan_ip \<leftarrow> expected_value (parse_ip_str ''10.0.0.1'');
       let nat = set_wan_ip wan_ip NatEngine_init;
       lan_ip \<leftarrow> expected_value (parse_ip_str ''192.168.1.100'');
       ext_ip \<leftarrow> expected_value (parse_ip_str ''8.8.8.8'');
       let pkt = parse (make_udp_pkt lan_ip ext_ip 54321 12345);
       let (ok, nat, pkt) = process_outbound nat pkt;
       let snat_pass = (ok \<and> is_valid_ipv4 pkt \<and> ld32 (raw_span pkt) (ip_saddr_off (the (ipv4 pkt))) = wan_ip);
       let r = report_add ''NAT_SNAT'' snat_pass
                 (if snat_pass then ''saddr rewritten to WAN IP'' else ''saddr not rewritten'') r;
       let ext_port = (case udp pkt of Some u \<Rightarrow> ntohs (ld16 (raw_span pkt) (l4_source_off u)) | None \<Rightarrow> 0);
       let session_pass = port_in_range ext_port;
       let r = report_add ''NAT_Session'' session_pass
                 (if session_pass then ''ephemeral port in valid range'' else ''port out of range'') r;
       let pkt_icmp = parse (make_icmp_pkt lan_ip ext_ip 8 (htons 4242));
       let (icmp_out, nat, pkt_icmp) = process_outbound nat pkt_icmp;
       let ie = icmp_echo pkt_icmp;
       let icmp_snat = (icmp_out \<and> ld32 (raw_span pkt_icmp) (ip_saddr_off (the (ipv4 pkt_icmp))) = wan_ip \<and>
             ie \<noteq> None \<and> port_in_range (ntohs (ld16 (raw_span pkt_icmp) (icmp_id_off (the ie)))));
       let pkt_rep = parse (make_icmp_pkt ext_ip wan_ip 0
             (case ie of Some c \<Rightarrow> ld16 (raw_span pkt_icmp) (icmp_id_off c) | None \<Rightarrow> 0));
       let (icmp_in, nat, pkt_rep) = process_inbound nat pkt_rep;
       let ir = icmp_echo pkt_rep;
       let icmp_dnat = (icmp_in \<and> ld32 (raw_span pkt_rep) (ip_daddr_off (the (ipv4 pkt_rep))) = lan_ip \<and>
             ir \<noteq> None \<and> ld16 (raw_span pkt_rep) (icmp_id_off (the ir)) = htons 4242);
       let icmp_pass = (icmp_snat \<and> icmp_dnat);
       Some (report_add ''NAT_ICMP'' icmp_pass
               (if icmp_pass then ''echo SNAT/DNAT id map and checksums'' else ''ICMP NAT path failed'') r)
     }"

text \<open>A datagram waits on the first socket of the pair when one has been sent to the second.\<close>

definition probe_received :: "int \<Rightarrow> World \<Rightarrow> World \<Rightarrow> bool" where
  "probe_received sv1 w w' =
     (case filter (\<lambda>(fd, _). fd = sv1) (drop (length (wire w)) (wire w')) of
        [] \<Rightarrow> False
      | (_, datagram) # _ \<Rightarrow> 0 < length datagram)"

definition test_dhcp :: "bytes option \<Rightarrow> int option \<Rightarrow> Report \<Rightarrow> World \<Rightarrow> (Report \<times> World) option" where
  "test_dhcp hwaddr sv1 r w =
     (let dhcp = DhcpEngine_new ''192.168.1.1''
            \<lparr>pool_start = parse_ipv4 ''192.168.1.100'', pool_end = parse_ipv4 ''192.168.1.200'', pool_lease = 86400\<rparr> hwaddr;
          (dhcp_buf, pkt_len) = make_dhcp_discover;
          dhcp = intercept_request (parse (take pkt_len dhcp_buf)) dhcp
      in do {
        (dhcp_pass, w) \<leftarrow>
          (case sv1 of
             None \<Rightarrow> Some (False, w)
           | Some fd \<Rightarrow>
               do {
                 (_, w') \<leftarrow> process_background_tasks fd dhcp w;
                 Some (probe_received fd w w', w')
               });
        Some (report_add ''DHCP_Queue'' dhcp_pass
                (if dhcp_pass then ''DISCOVER processed, OFFER sent'' else ''no OFFER response received'') r, w)
      })"

text \<open>The entries of \<^verbatim>\<open>/sys/class/net\<close> are an argument; the counter is a \<^verbatim>\<open>uint8_t\<close>.\<close>

definition iface_count :: "string list option \<Rightarrow> u8" where
  "iface_count dir =
     (case dir of
        None \<Rightarrow> 0
      | Some names \<Rightarrow> of_nat (length (filter (\<lambda>n. \<not> (n \<noteq> [] \<and> hd n = CHR ''.'') \<and> n \<noteq> ''lo'') names)))"

definition test_system :: "string list option \<Rightarrow> Report \<Rightarrow> Sys \<Rightarrow> Report \<times> Sys" where
  "test_system dir r y =
     (let (buf, y) = sys_read ''/sys/class/thermal/thermal_zone0/temp'' 15 y;
          pass = (case buf of Some b \<Rightarrow> b \<noteq> [] \<and> atof (c_str b) > 0 | None \<Rightarrow> False);
          r = report_add ''SYS_Temp'' pass
                (if pass then ''CPU thermal sensor readable'' else ''cannot read /sys/class/thermal'') r;
          (mbuf, y) = sys_read ''/proc/meminfo'' 511 y;
          pass = (case mbuf of Some b \<Rightarrow> b \<noteq> [] \<and> meminfo ''MemTotal:'' (c_str b) > 0 | None \<Rightarrow> False);
          r = report_add ''SYS_Memory'' pass
                (if pass then ''MemTotal parsed from /proc/meminfo'' else ''cannot read memory info'') r;
          pass = (iface_count dir > 0);
          r = report_add ''SYS_Ifaces'' pass
                (if pass then ''network interfaces detected'' else ''no network interfaces found'') r
      in (r, y))"

definition selftest_run ::
  "bytes option \<Rightarrow> int option \<Rightarrow> string list option \<Rightarrow> World \<Rightarrow> Sys \<Rightarrow> (Report \<times> World \<times> Sys) option" where
  "selftest_run hwaddr sv1 dir w y =
     do {
       r \<leftarrow> test_nat Report_init;
       (r, w) \<leftarrow> test_dhcp hwaddr sv1 r w;
       let (r, y) = test_system dir r y;
       Some (r, w, y)
     }"

end
