(* ===== verification/SelfTest_Correct.thy ===== *)
theory SelfTest_Correct
  imports SelfTest
begin

text \<open>The self-test on the model: its packets are well-formed frames, the engines pass its checks.\<close>

section \<open>The built packets\<close>

lemma udp_pkt:
  assumes f_def: "f = make_udp_pkt sip dip sport dport"
  shows "length f = 42" "l4_frame f" "frame_l4_off f = 34" "ld32 f 26 = sip" "ld32 f 30 = dip"
    "ld16 f 34 = htons sport" "ld16 f 36 = htons dport"
proof -
  show len: "length f = 42" by (simp add: f_def make_udp_pkt_def Let_def)
  have b: "f ! 14 = 0x45" "f ! 23 = 17" "ld16 f 12 = htons 0x0800"
    by (simp_all add: f_def make_udp_pkt_def Let_def mem_simps)
  show off: "frame_l4_off f = 34" by (simp add: frame_l4_off_def b)
  show "l4_frame f" by (simp add: l4_frame_def ipv4_frame_def off b len)
  show "ld32 f 26 = sip" "ld32 f 30 = dip" "ld16 f 34 = htons sport" "ld16 f 36 = htons dport"
    by (simp_all add: f_def make_udp_pkt_def Let_def mem_simps)
qed

lemma tcp_pkt:
  assumes f_def: "f = make_tcp_pkt sip dip sport dport flags"
  shows "l4_frame f" "frame_l4_off f = 34" "tcp (parse f) = Some 34" "ld16 f 34 = htons sport" "ld16 f 36 = htons dport"
proof -
  have len: "length f = 54" by (simp add: f_def make_tcp_pkt_def Let_def)
  have b: "f ! 14 = 0x45" "f ! 23 = 6" "ld16 f 12 = htons 0x0800"
    by (simp_all add: f_def make_tcp_pkt_def Let_def mem_simps)
  show off: "frame_l4_off f = 34" by (simp add: frame_l4_off_def b)
  show "l4_frame f" by (simp add: l4_frame_def ipv4_frame_def off b len)
  then show "tcp (parse f) = Some 34" by (simp add: parse_simps l4_frame_def off b len)
  show "ld16 f 34 = htons sport" "ld16 f 36 = htons dport" by (simp_all add: f_def make_tcp_pkt_def Let_def mem_simps)
qed

lemma icmp_pkt:
  assumes f_def: "f = make_icmp_pkt sip dip ty id_n"
  shows "length f = 42" "icmp_frame f" "frame_l4_off f = 34" "ld32 f 26 = sip" "ld32 f 30 = dip"
    "f ! 34 = ty" "f ! 35 = 0" "ld16 f 38 = id_n"
proof -
  show len: "length f = 42" by (simp add: f_def make_icmp_pkt_def Let_def)
  have b: "f ! 14 = 0x45" "f ! 23 = 1" "ld16 f 12 = htons 0x0800" "ld16 f 20 = 0"
    by (simp_all add: f_def make_icmp_pkt_def Let_def mem_simps)
  show off: "frame_l4_off f = 34" by (simp add: frame_l4_off_def b)
  show "icmp_frame f" by (simp add: icmp_frame_def ipv4_frame_def off b len)
  show "ld32 f 26 = sip" "ld32 f 30 = dip" "f ! 34 = ty" "f ! 35 = 0" "ld16 f 38 = id_n"
    by (simp_all add: f_def make_icmp_pkt_def Let_def mem_simps)
qed


section \<open>The NAT check\<close>

text \<open>The first flow through a fresh engine gets port 10000, the first echo request identifier 25000.\<close>

lemma first_flow:
  assumes "l4_frame f" "wan \<noteq> 0"
  obtains st where "process_outbound (set_wan_ip wan NatEngine_init) (parse f) =
      (True, st, (parse f)\<lparr>raw_span := rewrite_l4 f 14 26 (frame_l4_off f) (l4_check f) wan (htons 10000)\<rparr>)"
    "nat_inv st" "wan_ip_nbo st = wan" "\<And>i. \<not> ie_active (icmp_sessions st i)" "\<And>p. icmp_id_to_index st p = -1"
    "icmp_id_cursor st = 25000"
proof -
  let ?st = "set_wan_ip wan NatEngine_init" and ?h = "unat (hash_flow (flow_key f)) mod MAX_SESSIONS"
  have st: "?st = NatEngine_init\<lparr>wan_ip_nbo := wan\<rparr>" by (simp add: set_wan_ip_def)
  have "probe (flow_key f) ?h 32 0 ?st = take_slot (flow_key f) 0 ?h ?st"
    using probe_free [of ?st ?h 32 "flow_key f"] by (simp add: st)
  then have out: "process_outbound ?st (parse f) = (True, fst (take_slot (flow_key f) 0 ?h ?st),
      (parse f)\<lparr>raw_span := rewrite_l4 f 14 26 (frame_l4_off f) (l4_check f) wan (htons 10000)\<rparr>)"
    using assms(2) unfolding process_outbound_l4 [OF assms(1)] by (simp add: take_slot_eq st)
  moreover have "nat_inv (fst (take_slot (flow_key f) 0 ?h ?st))"
    using nat_inv_exec [OF nat_inv_exec [OF nat_inv_init], of "Outbound (parse f)" "SetWanIp wan"] out by simp
  ultimately show thesis by (intro that) (auto simp: take_slot_eq st)
qed

lemma first_echo:
  assumes "icmp_frame f" "f ! frame_l4_off f = 8" "f ! (frame_l4_off f + 1) = 0" "wan_ip_nbo st = wan" "wan \<noteq> 0"
    "\<And>i. \<not> ie_active (icmp_sessions st i)" "\<And>p. icmp_id_to_index st p = -1" "icmp_id_cursor st = 25000"
  obtains st' where "process_outbound st (parse f) =
      (True, st', (parse f)\<lparr>raw_span := rewrite_icmp f 14 26 (frame_l4_off f) wan (htons 25000)\<rparr>)" "wan_ip_nbo st' = wan"
proof -
  let ?sa = "ld32 f 26" and ?da = "ld32 f 30" and ?id = "ld16 f (frame_l4_off f + 4)"
  let ?h = "unat (hash_icmp_flow ?sa ?da ?id) mod MAX_ICMP_SESSIONS"
  let ?take = "icmp_take_slot ?sa ?da ?id (current_tick st) ?h st"
  have "icmp_probe ?sa ?da ?id ?h 32 0 st = ?take"
    using icmp_probe_free [of st ?h 32 ?sa ?da ?id] assms(6) by simp
  moreover have "snd ?take = htons 25000"
    using assms(6-8) by (simp add: icmp_take_slot_eq alloc_external_icmp_id_def alloc_icmp_free closed_icmp_def icmp_evicted_def)
  moreover have "wan_ip_nbo (fst ?take) = wan" using assms(4) by (simp add: frame_simps)
  ultimately show thesis
    using assms(2-5) by (intro that [of "fst ?take"]) (simp_all add: process_outbound_echo [OF assms(1)] Let_def case_prod_unfold)
qed

lemma test_addresses:
  "parse_ip_str ''10.0.0.1'' = Inr 0x0100000A" "parse_ip_str ''192.168.1.100'' = Inr 0x6401A8C0"
  "parse_ip_str ''8.8.8.8'' = Inr 0x08080808"
  by code_simp+

lemma raw_span_ptrs [simp]:
  "is_valid_ipv4 (p\<lparr>raw_span := xs\<rparr>) = is_valid_ipv4 p" "udp (p\<lparr>raw_span := xs\<rparr>) = udp p"
  "icmp_echo (p\<lparr>raw_span := xs\<rparr>) = icmp_echo p"
  by (simp_all add: is_valid_ipv4_def udp_def icmp_echo_def)

lemma process_inbound_ptrs:
  assumes "process_inbound st p = (ok, st', q)"
  shows "ipv4 q = ipv4 p" "icmp_echo q = icmp_echo p"
  using assms
  by (auto simp: process_inbound_def process_inbound_icmp_def Let_def split: if_splits option.splits resolution.splits prod.splits)

lemma in_range: "port_in_range (ntohs (htons 10000))" "port_in_range (ntohs (htons 25000))"
  by (simp_all add: port_in_range_def)

lemma test_nat_passes:
  "test_nat r = Some (report_add ''NAT_ICMP'' True ''echo SNAT/DNAT id map and checksums''
     (report_add ''NAT_Session'' True ''ephemeral port in valid range''
       (report_add ''NAT_SNAT'' True ''saddr rewritten to WAN IP'' r)))"
proof -
  let ?wan = "0x0100000A :: u32" and ?lan = "0x6401A8C0 :: u32" and ?ext = "0x08080808 :: u32"
  define f where "f = make_udp_pkt ?lan ?ext 54321 12345"
  define g where "g = make_icmp_pkt ?lan ?ext 8 (htons 4242)"
  define h where "h = make_icmp_pkt ?ext ?wan 0 (htons 25000)"
  note f = udp_pkt [OF f_def] and g = icmp_pkt [OF g_def] and h = icmp_pkt [OF h_def]
  have fp: "is_valid_ipv4 (parse f)" "ipv4 (parse f) = Some 14" "udp (parse f) = Some 34"
    using f(1-3) by (auto simp: l4_frame_def parse_simps f_def make_udp_pkt_def Let_def mem_simps)
  have gp: "ipv4 (parse g) = Some 14" "icmp_echo (parse g) = Some 34" "ipv4 (parse h) = Some 14" "icmp_echo (parse h) = Some 34"
    using g(1-3) h(1-3) by (auto simp: icmp_frame_def parse_simps)
  obtain s1 where s1: "process_outbound (set_wan_ip ?wan NatEngine_init) (parse f) =
      (True, s1, (parse f)\<lparr>raw_span := rewrite_l4 f 14 26 34 (l4_check f) ?wan (htons 10000)\<rparr>)"
    "nat_inv s1" "wan_ip_nbo s1 = ?wan" "\<And>i. \<not> ie_active (icmp_sessions s1 i)" "\<And>p. icmp_id_to_index s1 p = -1"
    "icmp_id_cursor s1 = 25000"
    using first_flow [OF f(2), of ?wan] unfolding f(3) by auto
  obtain s2 where s2: "process_outbound s1 (parse g) =
      (True, s2, (parse g)\<lparr>raw_span := rewrite_icmp g 14 26 34 ?wan (htons 25000)\<rparr>)" "wan_ip_nbo s2 = ?wan"
    using first_echo [OF g(2), of s1 ?wan] s1(3-6) g(3,6,7) by auto
  note rf = rewrite_source_fields(1,2) [OF f(2) refl, of ?wan "htons 10000", unfolded f(3)]
  note rg = rewrite_echo_fields [OF g(2) refl, of ?wan "htons 25000", unfolded g(3)]
  obtain s3 q where s3: "process_inbound s2 (parse h) = (True, s3, q)" "ld32 (raw_span q) 30 = ?lan" "ld16 (raw_span q) 38 = htons 4242"
    using echo_reply_translated [OF s2(1) s1(2) g(2) h(2), of "[]"] rg h(3-8) g(3-5,8) s2(2) by (auto simp: nat_run_def)
  have q: "ipv4 q = Some 14" "icmp_echo q = Some 34" using process_inbound_ptrs [OF s3(1)] gp by simp_all
  show ?thesis
    unfolding test_nat_def test_addresses expected_value_def
    using s1(1) s2(1) s3 q fp gp rf rg in_range
    by (simp add: f_def [symmetric] g_def [symmetric] h_def [symmetric])
qed


section \<open>The DHCP check\<close>

definition discover :: bytes where
  "discover = fst make_dhcp_discover"

lemma discover_fields:
  "length discover = 512" "snd make_dhcp_discover = 286"
  "discover ! 14 = 0x45" "discover ! 23 = 17" "ld16 discover 12 = htons 0x0800"
  "ld16 discover 36 = htons 67" "discover ! 42 = 1" "ld32 discover 278 = htonl 0x63825363"
  by (simp_all add: discover_def make_dhcp_discover_def Let_def mem_simps del: memcpy.simps)

lemma discover_nth:
  "discover ! 282 = 53" "discover ! 283 = 1" "discover ! 284 = 1" "discover ! 285 = 255"
  "discover ! 70 = 0xAA" "discover ! 71 = 0xBB" "discover ! 72 = 0xCC" "discover ! 73 = 0xDD" "discover ! 74 = 0xEE"
  "discover ! 75 = 0xFF"
  by (simp_all add: discover_def make_dhcp_discover_def Let_def mem_simps nth_memcpy del: memcpy.simps)

definition discover_msg :: DhcpMessage where
  "discover_msg = \<lparr>dm_len = 286, dm_data = memcpy (replicate 512 0) 0 (take 286 discover)\<rparr>"

lemma discover_msg_nth: "j < 286 \<Longrightarrow> dm_data discover_msg ! j = discover ! j"
  using discover_fields(1) by (simp add: discover_msg_def nth_memcpy)

lemma discover_query: "dhcp_query discover_msg = Some (42, 1, 0, [0xAA, 0xBB, 0xCC, 0xDD, 0xEE, 0xFF])"
proof -
  define d where "d = dm_data discover_msg"
  have nth: "d ! j = discover ! j" if "j < 286" for j using discover_msg_nth [OF that] by (simp add: d_def)
  have len: "length d = 512" "dm_len discover_msg = 286" by (simp_all add: d_def discover_msg_def)
  have ld: "ld16 (take 286 d) 12 = htons 0x0800" "ld16 d 36 = htons 67" "ld32 d 278 = htonl 0x63825363"
    using discover_fields(5,6,8) by (simp_all add: ld16_def ld32_def nth)
  have off: "frame_l4_off (take 286 d) = 34" using discover_fields(3) by (simp add: frame_l4_off_def nth)
  have opts: "opt_loop d 286 282 0 0 = (1, 0)"
    using discover_nth(1-4) by (simp add: opt_loop.simps [of _ 286 282] opt_loop.simps [of _ 286 285] nth len)
  have "take 6 (drop 70 d) = [0xAA, 0xBB, 0xCC, 0xDD, 0xEE, 0xFF]"
    using discover_nth(5-10) len by (intro nth_equalityI) (auto simp: less_Suc_eq nth numeral_eq_Suc)
  then show ?thesis
    using discover_fields(4,7) by (simp add: dhcp_query_def Let_def d_def [symmetric] len off ld opts nth ipv4_frame_def)
qed

lemma test_addresses_pool:
  "parse_ipv4 ''192.168.1.100'' = 0x6401A8C0" "parse_ipv4 ''192.168.1.200'' = 0xC801A8C0"
  by code_simp+

text \<open>A discovered client is offered an address of the pool.\<close>

lemma discover_offers:
  assumes "sends_return w" "accepts_all w" "\<forall>i < pool_count st. lease_ip (leases st i) \<noteq> 0"
    and "address_available mac st (clock w (clock_reads w))" "dhcp_query m1 = Some (d1, 1, r1, mac)"
  obtains ip st1 w1 where "handle_dhcp_request m1 fd st w = Some (st1, w1)"
    "wire w1 = wire w @ [(fd, build_response (dm_data m1) d1 st1 2 ip)]" "request_queue st1 = request_queue st"
proof -
  obtain ip st1 w1 where f: "find_or_assign_lease mac st w = (ip, st1, w1)" by (metis surj_pair)
  obtain i where i: "i < pool_count st1" "lease_ip (leases st i) = ip" "pool_count st1 = pool_count st"
    using find_available [OF f assms(4)] .
  have "ip \<noteq> 0" using assms(3) i by auto
  then have "dhcp_react 1 r1 mac st w = (st1, w1, Some (2, ip))" by (simp add: dhcp_react_def f)
  moreover have "request_queue st1 = request_queue st"
    using f by (auto simp: find_or_assign_lease_def Let_def split: prod.splits option.splits)
  ultimately show thesis using handle_replies [OF assms(1,2,5), of st st1 w1 2 ip fd] that by blast
qed


definition test_pool :: DhcpPoolConfig where
  "test_pool = \<lparr>pool_start = parse_ipv4 ''192.168.1.100'', pool_end = parse_ipv4 ''192.168.1.200'', pool_lease = 86400\<rparr>"

lemma test_server:
  assumes st_def: "st = DhcpEngine_new ''192.168.1.1'' test_pool hw"
  shows "request_queue st = spsc_empty empty_message" "\<forall>i < pool_count st. lease_ip (leases st i) \<noteq> 0" "address_available mac st now"
proof -
  define s0 where "s0 = \<lparr>request_queue = spsc_empty empty_message, leases = (\<lambda>_. empty_lease), pool_count = 0,
                router_ip = parse_ipv4 ''192.168.1.1'', lease_duration = 86400, lan_if_mac = replicate 6 0\<rparr>"
  obtain s1 e where s1: "init_pool 0x6401A8C0 0xC801A8C0 s0 = (s1, e)" by fastforce
  have h: "unat (to_host 0x6401A8C0) = 3232235876" "unat (to_host 0xC801A8C0) = 3232235976"
    by (simp_all add: to_host_def word_eval)
  have s1': "request_queue s1 = spsc_empty empty_message" "pool_count s1 = 101"
    "i < 101 \<Longrightarrow> unat (to_host (lease_ip (leases s1 i))) = 3232235876 + i \<and> \<not> lease_active (leases s1 i)" for i
    using s1 by (cases rule: init_pool_cases; auto simp: h s0_def)+
  have st: "leases st = leases s1" "pool_count st = pool_count s1" "request_queue st = request_queue s1"
    using s1 by (auto simp: st_def DhcpEngine_new_def test_pool_def test_addresses_pool s0_def [symmetric] test_pool_def split: option.splits)
  show "request_queue st = spsc_empty empty_message" by (simp add: st s1')
  show "\<forall>i < pool_count st. lease_ip (leases st i) \<noteq> 0"
  proof (intro allI impI notI)
    fix i assume "i < pool_count st" "lease_ip (leases st i) = 0"
    then show False using s1'(2) s1'(3) [of i] by (simp add: st to_host_def word_eval)
  qed
  show "address_available mac st now"
    unfolding address_available_def by (intro exI [of _ 0]) (use s1'(2) s1'(3) [of 0] in \<open>simp add: st\<close>)
qed


lemma test_dhcp_passes:
  assumes "sends_return w" "accepts_all w"
  shows "\<exists>w'. test_dhcp hw (Some fd) r w = Some (report_add ''DHCP_Queue'' True ''DISCOVER processed, OFFER sent'' r, w')"
proof -
  define st where "st = DhcpEngine_new ''192.168.1.1'' test_pool hw"
  note st = test_server [OF st_def]
  define q where "q = snd (spsc_push 512 (spsc_empty empty_message) discover_msg)"
  have q: "spsc_pop 512 q = (Some discover_msg, q\<lparr>head := 1\<rparr>)" "spsc_pop 512 (q\<lparr>head := 1\<rparr>) = (None, q\<lparr>head := 1\<rparr>)"
    by (simp_all add: q_def spsc_push_def spsc_empty_def spsc_pop_def)
  let ?s = "st\<lparr>request_queue := q\<lparr>head := 1\<rparr>\<rparr>"
  have av: "\<forall>i < pool_count ?s. lease_ip (leases ?s i) \<noteq> 0" "address_available mac ?s now" for mac now
    using st(2,3) by (simp_all add: address_available_def)
  obtain ip s1 w1 where h: "handle_dhcp_request discover_msg fd ?s w = Some (s1, w1)"
    "wire w1 = wire w @ [(fd, build_response (dm_data discover_msg) 42 s1 2 ip)]" "request_queue s1 = request_queue ?s"
    using discover_offers [OF assms av discover_query] .
  have msg: "intercept_request (parse (take 286 discover)) st = st\<lparr>request_queue := q\<rparr>"
    using discover_fields(1) by (simp add: intercept_request_def raw_span_parse st(1) q_def discover_msg_def Let_def)
  have "background_loop (Suc (Suc n)) fd (st\<lparr>request_queue := q\<rparr>) w = Some (s1\<lparr>request_queue := q\<lparr>head := 1\<rparr>\<rparr>, w1)" for n
    using h(1,3) by (simp add: q del: One_nat_def)
  from this [of 30] have pb: "process_background_tasks fd (st\<lparr>request_queue := q\<rparr>) w = Some (s1\<lparr>request_queue := q\<lparr>head := 1\<rparr>\<rparr>, w1)"
    by (simp add: process_background_tasks_def kBackgroundTaskBudget_def)
  have pr: "probe_received fd w w1" by (simp add: probe_received_def h(2) length_build_response del: length_greater_0_conv)
  have md: "make_dhcp_discover = (discover, 286)" using discover_fields(2) by (simp add: discover_def prod_eq_iff)
  show ?thesis
    by (simp add: test_dhcp_def test_pool_def [symmetric] st_def [symmetric] md msg pb pr)
qed

section \<open>The report\<close>

definition sensor_ok :: "Sys \<Rightarrow> bool" where
  "sensor_ok y \<longleftrightarrow> (\<exists>b. file_answer y (reads y) ''/sys/class/thermal/thermal_zone0/temp'' = Some b \<and>
     take 15 b \<noteq> [] \<and> atof (c_str (take 15 b)) > 0)"

definition memory_ok :: "Sys \<Rightarrow> bool" where
  "memory_ok y \<longleftrightarrow> (\<exists>b. file_answer y (Suc (reads y)) ''/proc/meminfo'' = Some b \<and>
     take 511 b \<noteq> [] \<and> meminfo ''MemTotal:'' (c_str (take 511 b)) > 0)"

definition report_list :: "Report \<Rightarrow> (string \<times> bool) list" where
  "report_list r = map (\<lambda>i. (tc_name (rp_cases r i), tc_pass (rp_cases r i))) [0..<rp_count r]"

lemma report_add_list:
  assumes "rp_count r < 32" "length n \<le> 63"
  shows "report_list (report_add n p d r) = report_list r @ [(n, p)]" "rp_count (report_add n p d r) = Suc (rp_count r)"
    "rp_passed (report_add n p d r) = rp_passed r + (if p then 1 else 0)"
  using assms by (simp_all add: report_add_def report_list_def Let_def)

lemma Report_init_list: "report_list Report_init = []" "rp_count Report_init = 0" "rp_passed Report_init = 0"
  by (simp_all add: Report_init_def report_list_def)

lemma test_system_list:
  assumes "rp_count r < 30" "test_system dir r y = (r', y')"
  shows "report_list r' = report_list r @ [(''SYS_Temp'', sensor_ok y), (''SYS_Memory'', memory_ok y), (''SYS_Ifaces'', iface_count dir > 0)]"
    "rp_passed r' = rp_passed r + length (filter id [sensor_ok y, memory_ok y, iface_count dir > 0])"
proof -
  have s: "(case map_option (take 15) (file_answer y (reads y) ''/sys/class/thermal/thermal_zone0/temp'') of
      Some b \<Rightarrow> b \<noteq> [] \<and> atof (c_str b) > 0 | None \<Rightarrow> False) = sensor_ok y"
    by (auto simp: sensor_ok_def split: option.splits)
  have m: "(case map_option (take 511) (file_answer y (Suc (reads y)) ''/proc/meminfo'') of
      Some b \<Rightarrow> b \<noteq> [] \<and> meminfo ''MemTotal:'' (c_str b) > 0 | None \<Rightarrow> False) = memory_ok y"
    by (auto simp: memory_ok_def split: option.splits)
  show "report_list r' = report_list r @ [(''SYS_Temp'', sensor_ok y), (''SYS_Memory'', memory_ok y), (''SYS_Ifaces'', iface_count dir > 0)]"
    "rp_passed r' = rp_passed r + length (filter id [sensor_ok y, memory_ok y, iface_count dir > 0])"
    using assms s m by (auto simp: test_system_def sys_read_def Let_def report_add_list)
qed

text \<open>C34: The self-test passes on these engines.  With a socket that takes the offer, the run returns without an exception; its
  report has seven cases, the three of the NAT and the one of the DHCP server pass whatever the machine, the three of
  the system are the state of the sensor, the memory file and the interfaces, and the number of passes is the number of
  passed cases.\<close>

theorem selftest_passes:
  assumes "sends_return w" "accepts_all w"
  shows "\<exists>r w' y'. selftest_run hw (Some fd) dir w y = Some (r, w', y') \<and>
    report_list r = [(''NAT_SNAT'', True), (''NAT_Session'', True), (''NAT_ICMP'', True), (''DHCP_Queue'', True),
      (''SYS_Temp'', sensor_ok y), (''SYS_Memory'', memory_ok y), (''SYS_Ifaces'', iface_count dir > 0)] \<and>
    rp_passed r = length (filter snd (report_list r))"
proof -
  define r1 where "r1 = the (test_nat Report_init)"
  obtain w' where w': "test_dhcp hw (Some fd) r1 w = Some (report_add ''DHCP_Queue'' True ''DISCOVER processed, OFFER sent'' r1, w')"
    using test_dhcp_passes [OF assms] by blast
  define r2 where "r2 = report_add ''DHCP_Queue'' True ''DISCOVER processed, OFFER sent'' r1"
  obtain r y' where r: "test_system dir r2 y = (r, y')" by fastforce
  have l: "report_list r2 = [(''NAT_SNAT'', True), (''NAT_Session'', True), (''NAT_ICMP'', True), (''DHCP_Queue'', True)]"
    "rp_passed r2 = 4" "rp_count r2 = 4"
    by (simp_all add: r2_def r1_def test_nat_passes report_add_list Report_init_list)
  have "selftest_run hw (Some fd) dir w y = Some (r, w', y')"
    using w' r by (simp add: selftest_run_def test_nat_passes r1_def r2_def)
  moreover have "report_list r = report_list r2 @ [(''SYS_Temp'', sensor_ok y), (''SYS_Memory'', memory_ok y), (''SYS_Ifaces'', iface_count dir > 0)]"
    "rp_passed r = rp_passed r2 + length (filter id [sensor_ok y, memory_ok y, iface_count dir > 0])"
    using test_system_list [OF _ r] l(3) by auto
  ultimately show ?thesis by (simp add: l)
qed

theorem selftest_passes_witness:
  "\<exists>r w' y'. selftest_run None (Some 7) (Some [''.'', ''lo'', ''eth0'']) demo_world demo_sys = Some (r, w', y') \<and>
    (''DHCP_Queue'', True) \<in> set (report_list r) \<and> (''SYS_Ifaces'', True) \<in> set (report_list r)"
  using selftest_passes [OF demo_world_ok(1) demo_world_accepts, of None 7 "Some [''.'', ''lo'', ''eth0'']" demo_sys]
  by (auto simp: iface_count_def)

end
