(* ===== verification/Dashboard.thy ===== *)
theory Dashboard
  imports Services_Correct
begin

text \<open>
  The logic of the dashboard (\<^verbatim>\<open>GUI/Dashboard.cpp\<close>): the switch, the plots, the keypad, the pages and the main window, without
  layout and painting.  A \<^verbatim>\<open>QString\<close> is a list of characters.  The number conversions of Qt are a parameter \<open>Qt\<close>; what a user
  types into a dialog is a list of keys.
\<close>

section \<open>Qt\<close>

record Qt =
  toDouble :: "string \<Rightarrow> real option"
  toInt :: "string \<Rightarrow> int option"
  trimmed :: "string \<Rightarrow> string"
  number_g :: "real \<Rightarrow> string"
  number_f :: "nat \<Rightarrow> real \<Rightarrow> string"
  double_validator :: "real \<Rightarrow> real \<Rightarrow> string \<Rightarrow> bool"

definition clamp :: "'a :: linorder \<Rightarrow> 'a \<Rightarrow> 'a \<Rightarrow> 'a" where
  "clamp v lo hi = (if v < lo then lo else if hi < v then hi else v)"

definition llround :: "real \<Rightarrow> int" where
  "llround x = (if x < 0 then - \<lfloor>- x + 1 / 2\<rfloor> else \<lfloor>x + 1 / 2\<rfloor>)"

fun split_char :: "char \<Rightarrow> string \<Rightarrow> string list" where
  "split_char c [] = [[]]"
| "split_char c (x # xs) =
     (if x = c then [] # split_char c xs else (x # hd (split_char c xs)) # tl (split_char c xs))"

section \<open>The switch\<close>

record SwitchToggle =
  checked :: bool

definition switch_set :: "bool \<Rightarrow> SwitchToggle \<Rightarrow> SwitchToggle" where
  "switch_set on sw = (if checked sw = on then sw else sw\<lparr>checked := on\<rparr>)"

text \<open>A release of the left button inside the switch flips it and emits the new value.\<close>

definition switch_release :: "bool \<Rightarrow> bool \<Rightarrow> SwitchToggle \<Rightarrow> SwitchToggle \<times> bool option" where
  "switch_release left inside sw =
     (if left \<and> inside then let sw = sw\<lparr>checked := \<not> checked sw\<rparr> in (sw, Some (checked sw)) else (sw, None))"

section \<open>The plot\<close>

definition SHIFT_BUFFER_SIZE :: nat where
  "SHIFT_BUFFER_SIZE = 1000"

record RealTimePlot =
  shift_buffer :: "nat \<Rightarrow> real"
  shift_head :: nat
  current_max :: real
  fixed_max :: real

definition RealTimePlot_new :: RealTimePlot where
  "RealTimePlot_new = \<lparr>shift_buffer = (\<lambda>_. 0), shift_head = 0, current_max = 1, fixed_max = 0\<rparr>"

definition add_sample :: "real \<Rightarrow> RealTimePlot \<Rightarrow> RealTimePlot" where
  "add_sample val p =
     p\<lparr>shift_buffer := (shift_buffer p)(shift_head p := val), shift_head := (shift_head p + 1) mod SHIFT_BUFFER_SIZE\<rparr>"

definition set_fixed_max :: "real \<Rightarrow> RealTimePlot \<Rightarrow> RealTimePlot" where
  "set_fixed_max m p = p\<lparr>fixed_max := m, current_max := m\<rparr>"

definition plot_y_max :: "RealTimePlot \<Rightarrow> real" where
  "plot_y_max p = (if fixed_max p > 0 then fixed_max p else current_max p + 1)"

text \<open>The value drawn in column \<open>col\<close> of \<open>cols\<close>, and its point for a plot area of height \<open>ph\<close>.\<close>

definition plot_sample :: "RealTimePlot \<Rightarrow> nat \<Rightarrow> nat \<Rightarrow> real" where
  "plot_sample p cols col =
     (let t = (if cols > 1 then real col / real (cols - 1) else 1);
          idx = nat (llround (t * real (SHIFT_BUFFER_SIZE - 1))) mod SHIFT_BUFFER_SIZE
      in shift_buffer p ((shift_head p + idx) mod SHIFT_BUFFER_SIZE))"

definition plot_point :: "RealTimePlot \<Rightarrow> nat \<Rightarrow> int \<Rightarrow> nat \<Rightarrow> real \<times> real" where
  "plot_point p cols ph col =
     (let ml = 50; mt = 6; sample = plot_sample p cols col; y_max = plot_y_max p;
          norm = (if sample < 0 then 0 else if sample > y_max then 1 else sample / y_max)
      in (ml + real col, mt + real_of_int ph - norm * real_of_int ph))"

definition plot_polyline :: "RealTimePlot \<Rightarrow> int \<Rightarrow> int \<Rightarrow> (real \<times> real) list" where
  "plot_polyline p width height =
     (let pw = width - 50; ph = height - 6 - 6 in
      if pw \<le> 0 \<or> ph \<le> 0 then [] else map (plot_point p (nat pw) ph) [0..<nat pw])"

section \<open>The overview\<close>

record OverviewPage =
  high_plot :: RealTimePlot
  normal_plot :: RealTimePlot
  core_text :: "nat \<Rightarrow> string"
  core_colour :: "nat \<Rightarrow> string"
  lbl_mode :: string
  lbl_hostname :: string
  lbl_kernel :: string
  lbl_cpu_temp :: string
  lbl_uptime :: string
  lbl_memory :: string

definition load_colour :: "int \<Rightarrow> string" where
  "load_colour pct = (if pct < 50 then ''#00cc66'' else if pct < 80 then ''#ffaa00'' else ''#ff4444'')"

definition overview_refresh :: "Telemetry \<Rightarrow> real \<Rightarrow> real \<Rightarrow> OverviewPage \<Rightarrow> OverviewPage" where
  "overview_refresh t high_mbps normal_mbps pg =
     (let load = (\<lambda>i. cpu_load_pct (core_metrics t i));
          pg = pg\<lparr>core_text := (\<lambda>i. if i < 4 then ''Core '' @ dec i @ [CHR 0x0A] @ dec_int (load i) @ ''%'' else core_text pg i),
                  core_colour := (\<lambda>i. if i < 4 then load_colour (load i) else core_colour pg i)\<rparr>;
          pg = pg\<lparr>high_plot := add_sample high_mbps (high_plot pg), normal_plot := add_sample normal_mbps (normal_plot pg)\<rparr>
      in pg\<lparr>lbl_mode := if effective_bridge_mode t then ''Mode: Bridge'' else ''Mode: Acceleration''\<rparr>)"

definition overview_refresh_info :: "Qt \<Rightarrow> Telemetry \<Rightarrow> OverviewPage \<Rightarrow> OverviewPage" where
  "overview_refresh_info qt t pg =
     (let si = sys_info t;
          pg = pg\<lparr>lbl_hostname := if hostname si \<noteq> [] then hostname si else ''--'',
                  lbl_kernel := if kernel_short si \<noteq> [] then kernel_short si else ''--''\<rparr>;
          temp = cpu_temp_celsius t;
          pg = (if temp > 0 then pg\<lparr>lbl_cpu_temp := number_f qt 1 temp @ [CHR '' '', CHR 0xC2, CHR 0xB0, CHR ''C'']\<rparr> else pg);
          secs = uptime_seconds si;
          pg = (if secs > 0
                then pg\<lparr>lbl_uptime := dec (unat (secs div 3600)) @ ''h '' @ dec (unat ((secs mod 3600) div 60)) @ ''m''\<rparr>
                else pg);
          total = mem_total_kb si; avail = mem_avail_kb si
      in if total > 0
         then pg\<lparr>lbl_memory := dec (unat ((total - avail) div 1024)) @ '' MB used / '' @ dec (unat (total div 1024)) @ '' MB total''\<rparr>
         else pg)"


section \<open>The keypad\<close>

record NumPadDialog =
  np_text :: string
  np_min :: real
  np_max :: real
  allow_negative :: bool
  allow_decimal :: bool

definition NumPadDialog_new :: "string \<Rightarrow> real \<Rightarrow> real \<Rightarrow> bool \<Rightarrow> bool \<Rightarrow> NumPadDialog" where
  "NumPadDialog_new initial_text min_val max_val neg decimal =
     \<lparr>np_text = initial_text, np_min = min_val, np_max = max_val, allow_negative = neg, allow_decimal = decimal\<rparr>"

definition push_digit :: "char \<Rightarrow> NumPadDialog \<Rightarrow> NumPadDialog" where
  "push_digit d p = (if length (np_text p) \<ge> 20 then p else p\<lparr>np_text := np_text p @ [d]\<rparr>)"

definition on_minus :: "NumPadDialog \<Rightarrow> NumPadDialog" where
  "on_minus p =
     (if \<not> allow_negative p then p else if np_text p \<noteq> [] then p else p\<lparr>np_text := ''-''\<rparr>)"

definition on_dot :: "NumPadDialog \<Rightarrow> NumPadDialog" where
  "on_dot p =
     (if \<not> allow_decimal p then p
      else if CHR ''.'' \<in> set (np_text p) then p
      else if np_text p = [] \<or> np_text p = ''-'' then p\<lparr>np_text := np_text p @ ''0.''\<rparr>
      else p\<lparr>np_text := np_text p @ ''.''\<rparr>)"

definition do_backspace :: "NumPadDialog \<Rightarrow> NumPadDialog" where
  "do_backspace p = (if np_text p \<noteq> [] then p\<lparr>np_text := butlast (np_text p)\<rparr> else p)"

text \<open>The state of the OK button and whether the display is red.\<close>

definition update_display :: "Qt \<Rightarrow> NumPadDialog \<Rightarrow> bool \<times> bool" where
  "update_display qt p =
     (let txt = np_text p in
      if txt = [] then (False, False)
      else if txt = ''-'' \<or> txt = ''.'' \<or> txt = ''-.'' then (False, False)
      else
        let val = (case toDouble qt txt of Some v \<Rightarrow> v | None \<Rightarrow> 0);
            ok_parse = (toDouble qt txt \<noteq> None);
            ok_parse = (if \<not> allow_decimal p \<and> CHR ''.'' \<in> set txt then False else ok_parse);
            ok_parse = (if \<not> allow_negative p \<and> (val < 0 \<or> hd txt = CHR ''-'') then False else ok_parse);
            ok_parse = (if ok_parse \<and> \<not> allow_decimal p \<and> (if val < 0 then \<lceil>val\<rceil> else \<lfloor>val\<rfloor>) \<noteq> val then False else ok_parse)
        in if ok_parse then if val \<ge> np_min p \<and> val \<le> np_max p then (True, False) else (False, True)
           else (False, True))"

datatype numpad_key = Digit char | Minus | Dot | Backspace

text \<open>The minus and the dot are buttons only in the layouts that have them.\<close>

fun numpad_press :: "numpad_key \<Rightarrow> NumPadDialog \<Rightarrow> NumPadDialog" where
  "numpad_press (Digit d) p = (if is_digit d then push_digit d p else p)"
| "numpad_press Minus p = (if allow_negative p \<and> \<not> allow_decimal p then on_minus p else p)"
| "numpad_press Dot p = (if \<not> allow_negative p \<and> allow_decimal p then on_dot p else p)"
| "numpad_press Backspace p = do_backspace p"

text \<open>\<^verbatim>\<open>exec\<close>: the user types and presses OK, which works only when it is enabled, or cancels.\<close>

definition numpad_exec :: "Qt \<Rightarrow> numpad_key list \<Rightarrow> bool \<Rightarrow> NumPadDialog \<Rightarrow> NumPadDialog option" where
  "numpad_exec qt keys accepted p =
     (let p = fold numpad_press keys p in if accepted \<and> fst (update_display qt p) then Some p else None)"

text \<open>The conversion to \<^verbatim>\<open>int\<close> keeps the low 32 bits.\<close>

definition get_int :: "Qt \<Rightarrow> numpad_key list \<Rightarrow> bool \<Rightarrow> int \<Rightarrow> int \<Rightarrow> int \<Rightarrow> int option" where
  "get_int qt keys accepted initial mn mx =
     (let initial = clamp initial mn mx in
      case numpad_exec qt keys accepted (NumPadDialog_new (dec_int initial) (of_int mn) (of_int mx) False False) of
        None \<Rightarrow> None
      | Some p \<Rightarrow>
          if np_text p = [] then None
          else case toDouble qt (np_text p) of
            None \<Rightarrow> None
          | Some dv \<Rightarrow>
              let v = sint (of_int (llround dv) :: u32) in
              if \<bar>dv - of_int v\<bar> > 1 / 10 ^ 9 then None
              else if v < mn \<or> v > mx then None
              else Some v)"

definition get_double :: "Qt \<Rightarrow> numpad_key list \<Rightarrow> bool \<Rightarrow> real \<Rightarrow> real \<Rightarrow> real \<Rightarrow> real option" where
  "get_double qt keys accepted initial mn mx =
     (let initial = clamp initial mn mx in
      case numpad_exec qt keys accepted (NumPadDialog_new (number_g qt initial) mn mx False True) of
        None \<Rightarrow> None
      | Some p \<Rightarrow>
          if np_text p = [] then None
          else case toDouble qt (np_text p) of
            None \<Rightarrow> None
          | Some v \<Rightarrow> if v \<le> 0 \<or> v < mn \<or> v > mx then None else Some v)"

section \<open>Addresses by keypad\<close>

definition parse_ipv4_quads :: "Qt \<Rightarrow> string \<Rightarrow> int list option" where
  "parse_ipv4_quads qt s =
     (let parts = split_char (CHR ''.'') (trimmed qt s) in
      if length parts \<noteq> 4 then None
      else if list_all (\<lambda>p. case toInt qt p of None \<Rightarrow> False | Some v \<Rightarrow> 0 \<le> v \<and> v \<le> 255) parts
      then Some (map (\<lambda>p. the (toInt qt p)) parts) else None)"

definition format_ipv4_quads :: "int list \<Rightarrow> string" where
  "format_ipv4_quads q =
     dec_int (q ! 0) @ ''.'' @ dec_int (q ! 1) @ ''.'' @ dec_int (q ! 2) @ ''.'' @ dec_int (q ! 3)"

text \<open>One keypad per octet; a cancelled one ends the editing.  \<open>ks\<close> is what the user does in each of them.\<close>

fun edit_octets :: "Qt \<Rightarrow> (numpad_key list \<times> bool) list \<Rightarrow> int list \<Rightarrow> int list option" where
  "edit_octets qt ((keys, ok) # ks) (o1 # q) =
     (case get_int qt keys ok o1 0 255 of
        None \<Rightarrow> None
      | Some v \<Rightarrow> map_option ((#) v) (edit_octets qt ks q))"
| "edit_octets qt _ q = (if q = [] then Some [] else None)"

definition numpad_edit_ipv4 :: "Qt \<Rightarrow> (numpad_key list \<times> bool) list \<Rightarrow> string \<Rightarrow> string option" where
  "numpad_edit_ipv4 qt ks current =
     (let q = [192, 168, 1, 1];
          q = (if trimmed qt current \<noteq> []
               then case parse_ipv4_quads qt current of Some parsed \<Rightarrow> parsed | None \<Rightarrow> q
               else q)
      in map_option format_ipv4_quads (edit_octets qt ks q))"


section \<open>The QoS page\<close>

abbreviation k_qos_bw_min_mbps :: real where "k_qos_bw_min_mbps \<equiv> 1 / 10"
abbreviation k_qos_bw_max_mbps :: real where "k_qos_bw_max_mbps \<equiv> 10 ^ 6"

record QosPage =
  sw_acceleration :: SwitchToggle
  edit_dl_limit :: string
  edit_ul_limit :: string

definition qos_refresh_from_backend :: "Qt \<Rightarrow> Telemetry \<Rightarrow> QosPage \<Rightarrow> QosPage" where
  "qos_refresh_from_backend qt t pg =
     pg\<lparr>sw_acceleration := switch_set (effective_acceleration t) (sw_acceleration pg),
        edit_dl_limit := number_g qt (qos_global_dl_mbps_pending t),
        edit_ul_limit := number_g qt (qos_global_ul_mbps_pending t)\<rparr>"

definition edit_limit :: "Qt \<Rightarrow> numpad_key list \<Rightarrow> bool \<Rightarrow> real \<Rightarrow> string \<Rightarrow> string" where
  "edit_limit qt keys accepted fallback txt =
     (let cur = (case toDouble qt (trimmed qt txt) of Some v \<Rightarrow> v | None \<Rightarrow> fallback);
          cur = clamp cur k_qos_bw_min_mbps k_qos_bw_max_mbps
      in case get_double qt keys accepted cur k_qos_bw_min_mbps k_qos_bw_max_mbps of
           Some v \<Rightarrow> number_g qt v
         | None \<Rightarrow> txt)"

definition qos_tap_dl :: "Qt \<Rightarrow> numpad_key list \<Rightarrow> bool \<Rightarrow> QosPage \<Rightarrow> QosPage" where
  "qos_tap_dl qt keys accepted pg = pg\<lparr>edit_dl_limit := edit_limit qt keys accepted 500 (edit_dl_limit pg)\<rparr>"

definition qos_tap_ul :: "Qt \<Rightarrow> numpad_key list \<Rightarrow> bool \<Rightarrow> QosPage \<Rightarrow> QosPage" where
  "qos_tap_ul qt keys accepted pg = pg\<lparr>edit_ul_limit := edit_limit qt keys accepted 50 (edit_ul_limit pg)\<rparr>"

text \<open>The two limits, when both fields are valid.\<close>

definition bw_request :: "Qt \<Rightarrow> QosPage \<Rightarrow> (real \<times> real) option" where
  "bw_request qt pg =
     (if \<not> double_validator qt k_qos_bw_min_mbps k_qos_bw_max_mbps (edit_dl_limit pg)
         \<or> \<not> double_validator qt k_qos_bw_min_mbps k_qos_bw_max_mbps (edit_ul_limit pg) then None
      else case (toDouble qt (trimmed qt (edit_dl_limit pg)), toDouble qt (trimmed qt (edit_ul_limit pg))) of
        (Some dl, Some ul) \<Rightarrow>
          if dl \<le> 0 \<or> ul \<le> 0 \<or> dl < k_qos_bw_min_mbps \<or> ul < k_qos_bw_min_mbps
             \<or> dl > k_qos_bw_max_mbps \<or> ul > k_qos_bw_max_mbps then None
          else Some (dl, ul)
      | _ \<Rightarrow> None)"

definition on_apply_global_bw :: "Qt \<Rightarrow> QosPage \<Rightarrow> Telemetry \<Rightarrow> Telemetry" where
  "on_apply_global_bw qt pg t =
     (case bw_request qt pg of
        None \<Rightarrow> t
      | Some (dl, ul) \<Rightarrow> t\<lparr>qos_global_dl_mbps_pending := dl, qos_global_ul_mbps_pending := ul, qos_global_bw_dirty := True\<rparr>)"

definition on_toggle_accel :: "QosPage \<Rightarrow> Telemetry \<Rightarrow> Telemetry" where
  "on_toggle_accel pg t = t\<lparr>acceleration_pending := checked (sw_acceleration pg), mode_config_dirty := True\<rparr>"

section \<open>The DHCP dialog\<close>

text \<open>The regular expression of the address fields: one number without superfluous zeros up to 255, four of them.\<close>

definition in_chars :: "char \<Rightarrow> nat \<Rightarrow> nat \<Rightarrow> bool" where
  "in_chars c lo hi \<longleftrightarrow> is_digit c \<and> lo \<le> digit_val c \<and> digit_val c \<le> hi"

fun octet_regex :: "string \<Rightarrow> bool" where
  "octet_regex [a] = is_digit a"
| "octet_regex [a, b] = (in_chars a 1 9 \<and> is_digit b)"
| "octet_regex [a, b, c] =
     (a = CHR ''2'' \<and> b = CHR ''5'' \<and> in_chars c 0 5 \<or> a = CHR ''2'' \<and> in_chars b 0 4 \<and> is_digit c
      \<or> a = CHR ''1'' \<and> is_digit b \<and> is_digit c)"
| "octet_regex _ = False"

definition ip_validator :: "string \<Rightarrow> bool" where
  "ip_validator s =
     (let parts = split_char (CHR ''.'') s in length parts = 4 \<and> list_all octet_regex parts)"

record DhcpConfigDialog =
  edit_pool_start :: string
  edit_pool_end :: string
  spin_days :: int
  spin_hours :: int
  spin_minutes :: int

definition DhcpConfigDialog_new :: "Config \<Rightarrow> DhcpConfigDialog" where
  "DhcpConfigDialog_new cfg =
     \<lparr>edit_pool_start = DHCP_POOL_START cfg, edit_pool_end = DHCP_POOL_END cfg,
      spin_days = clamp (DHCP_LEASE_DURATION cfg div 86400) 0 365,
      spin_hours = clamp ((DHCP_LEASE_DURATION cfg mod 86400) div 3600) 0 24,
      spin_minutes = clamp ((DHCP_LEASE_DURATION cfg mod 3600) div 60) 0 60\<rparr>"

datatype dhcp_tap =
    Tap_start "(numpad_key list \<times> bool) list" | Tap_end "(numpad_key list \<times> bool) list"
  | Tap_days "numpad_key list" bool | Tap_hours "numpad_key list" bool | Tap_minutes "numpad_key list" bool

text \<open>\<^verbatim>\<open>eventFilter\<close>: a tap on a field opens the keypad for it.\<close>

fun dhcp_tap_field :: "Qt \<Rightarrow> dhcp_tap \<Rightarrow> DhcpConfigDialog \<Rightarrow> DhcpConfigDialog" where
  "dhcp_tap_field qt (Tap_start ks) dlg =
     (case numpad_edit_ipv4 qt ks (edit_pool_start dlg) of Some ip \<Rightarrow> dlg\<lparr>edit_pool_start := ip\<rparr> | None \<Rightarrow> dlg)"
| "dhcp_tap_field qt (Tap_end ks) dlg =
     (case numpad_edit_ipv4 qt ks (edit_pool_end dlg) of Some ip \<Rightarrow> dlg\<lparr>edit_pool_end := ip\<rparr> | None \<Rightarrow> dlg)"
| "dhcp_tap_field qt (Tap_days keys ok) dlg =
     (case get_int qt keys ok (spin_days dlg) 0 365 of Some v \<Rightarrow> dlg\<lparr>spin_days := clamp v 0 365\<rparr> | None \<Rightarrow> dlg)"
| "dhcp_tap_field qt (Tap_hours keys ok) dlg =
     (case get_int qt keys ok (spin_hours dlg) 0 24 of Some v \<Rightarrow> dlg\<lparr>spin_hours := clamp v 0 24\<rparr> | None \<Rightarrow> dlg)"
| "dhcp_tap_field qt (Tap_minutes keys ok) dlg =
     (case get_int qt keys ok (spin_minutes dlg) 0 60 of Some v \<Rightarrow> dlg\<lparr>spin_minutes := clamp v 0 60\<rparr> | None \<Rightarrow> dlg)"

text \<open>The new configuration, for which the callback is called; \<open>None\<close> when the fields turn red.\<close>

definition dhcp_on_apply :: "DhcpConfigDialog \<Rightarrow> Config \<Rightarrow> Config option" where
  "dhcp_on_apply dlg cfg =
     (if \<not> ip_validator (edit_pool_start dlg) \<or> \<not> ip_validator (edit_pool_end dlg) then None
      else case (parse_ip_str (edit_pool_start dlg), parse_ip_str (edit_pool_end dlg)) of
        (Inr start_ip, Inr end_ip) \<Rightarrow>
          if ntohl start_ip \<ge> ntohl end_ip then None
          else
            let secs = of_int (spin_days dlg) * 86400 + of_int (spin_hours dlg) * 3600 + of_int (spin_minutes dlg) * 60 :: u32;
                secs = (if secs = 0 then 60 else secs)
            in Some (cfg\<lparr>DHCP_POOL_START := edit_pool_start dlg, DHCP_POOL_END := edit_pool_end dlg,
                         DHCP_LEASE_DURATION := int (unat secs)\<rparr>)
      | _ \<Rightarrow> None)"

section \<open>The device page\<close>

record DevicePage =
  cards :: "(string \<times> string) list"
  last_device_count :: u8
  last_device_table_revision :: u64

definition DevicePage_new :: DevicePage where
  "DevicePage_new = \<lparr>cards = [], last_device_count = 255, last_device_table_revision = 0\<rparr>"

definition device_card :: "DeviceEntry \<Rightarrow> string \<times> string" where
  "device_card d = (ip_to_str (dev_ip d), dev_mac d)"

definition device_refresh :: "Telemetry \<Rightarrow> DevicePage \<Rightarrow> DevicePage" where
  "device_refresh t pg =
     (let cnt = device_count t; drev = device_table_revision t in
      if cnt = last_device_count pg \<and> drev = last_device_table_revision pg then pg
      else pg\<lparr>last_device_count := cnt, last_device_table_revision := drev,
              cards := map (\<lambda>i. device_card (device_table t i)) [0..<unat cnt]\<rparr>)"

section \<open>The main window\<close>

record Dashboard =
  current_index :: nat
  page_overview :: OverviewPage
  page_qos :: QosPage
  page_devices :: DevicePage
  hdr_info :: "real \<times> real \<times> real"
  last_bytes :: "nat \<Rightarrow> u64"
  last_high_bytes :: u64
  last_normal_bytes :: u64
  plot_timer_id :: int
  plot_tick :: u64
  plot_last_tick :: int

definition run_page_enter_refresh :: "Qt \<Rightarrow> Telemetry \<Rightarrow> nat \<Rightarrow> Dashboard \<Rightarrow> Dashboard" where
  "run_page_enter_refresh qt t page_index db =
     (if page_index = 1 then db\<lparr>page_qos := qos_refresh_from_backend qt t (page_qos db)\<rparr>
      else if page_index = 3 then db\<lparr>page_devices := device_refresh t (page_devices db)\<rparr>
      else db)"

definition on_tab_clicked :: "Qt \<Rightarrow> Telemetry \<Rightarrow> nat \<Rightarrow> Dashboard \<Rightarrow> Dashboard" where
  "on_tab_clicked qt t page_index db = run_page_enter_refresh qt t page_index (db\<lparr>current_index := page_index\<rparr>)"

text \<open>A rate in megabits per second: the counters are 64-bit words, their difference wraps.\<close>

definition rate_mbps :: "u64 \<Rightarrow> u64 \<Rightarrow> real \<Rightarrow> real" where
  "rate_mbps cur old elapsed = real (unat (cur - old)) * 8 / elapsed / 1000000"

definition timerEvent :: "Qt \<Rightarrow> Telemetry \<Rightarrow> int \<Rightarrow> int \<Rightarrow> Dashboard \<Rightarrow> Dashboard" where
  "timerEvent qt t now tid db =
     (if tid \<noteq> plot_timer_id db then db
      else let db = db\<lparr>plot_tick := plot_tick db + 1\<rparr>;
          elapsed = real_of_int (now - plot_last_tick db) / 1000000000;
          db = db\<lparr>plot_last_tick := now\<rparr>;
          elapsed = clamp elapsed (20 / 1000) (200 / 1000);
          cur_b2 = cm_bytes (core_metrics t 2);
          cur_b3 = cm_bytes (core_metrics t 3);
          dl = rate_mbps cur_b2 (last_bytes db 2) elapsed;
          ul = rate_mbps cur_b3 (last_bytes db 3) elapsed;
          cur_high = cm_prio_bytes (core_metrics t 2) 0 + cm_prio_bytes (core_metrics t 3) 0;
          cur_norm = cm_prio_bytes (core_metrics t 2) 1 + cm_prio_bytes (core_metrics t 3) 1;
          high_mbps = rate_mbps cur_high (last_high_bytes db) elapsed;
          normal_mbps = rate_mbps cur_norm (last_normal_bytes db) elapsed;
          db = db\<lparr>last_high_bytes := cur_high, last_normal_bytes := cur_norm\<rparr>;
          temp = cpu_temp_celsius t;
          db = db\<lparr>hdr_info := (dl, ul, if temp > 0 then temp else 0)\<rparr>;
          db = (if current_index db = 0
                then db\<lparr>page_overview := overview_refresh t high_mbps normal_mbps (page_overview db)\<rparr> else db);
          db = (if plot_tick db mod 25 = 0
                then db\<lparr>page_overview := overview_refresh_info qt t (page_overview db)\<rparr> else db);
          db = (if current_index db = 3 then db\<lparr>page_devices := device_refresh t (page_devices db)\<rparr> else db)
      in db\<lparr>last_bytes := (\<lambda>i. if i < 4 then cm_bytes (core_metrics t i) else last_bytes db i)\<rparr>)"

text \<open>The exit dialog: what it does to the configuration, the file it writes (if the write succeeds) and whether it asks for the
  shutdown.\<close>

datatype exit_choice = Save | No_save | Cancel

definition on_shutdown_clicked :: "exit_choice \<Rightarrow> string option \<Rightarrow> Config \<Rightarrow> Config \<times> string option \<times> bool" where
  "on_shutdown_clicked choice save_error cfg =
     (case choice of
        Save \<Rightarrow>
          let saved = (case save_config ''config/config.txt'' save_error cfg of Inl _ \<Rightarrow> None | Inr txt \<Rightarrow> Some txt)
          in (cfg\<lparr>SAVE_ON_EXIT := False\<rparr>, saved, True)
      | No_save \<Rightarrow> (cfg\<lparr>SAVE_ON_EXIT := False\<rparr>, None, True)
      | Cancel \<Rightarrow> (cfg, None, False))"

end
