(* ===== verification/Dashboard_Correct.thy ===== *)
theory Dashboard_Correct
  imports Dashboard Control_Correct
begin

text \<open>
  What the dashboard shows and what it asks for: the address fields accept exactly the addresses the configuration
  accepts, the DHCP dialog leads to the pool it shows, settings reach the controller under every interleaving, plots and
  tables show the latest data.
\<close>

section \<open>Address fields\<close>

lemma split_char_append: "c \<notin> set a \<Longrightarrow> split_char c (a @ c # b) = a # split_char c b"
  by (induction a) auto

lemma split_char_single: "c \<notin> set a \<Longrightarrow> split_char c a = [a]"
  by (induction a) auto

lemma split_char_nonempty [simp]: "split_char c s \<noteq> []"
  by (induction s) auto

lemma split_char_concat: "foldr (\<lambda>p r. p @ c # r) (butlast (split_char c s)) (last (split_char c s)) = s"
proof (induction s)
  case (Cons x s)
  obtain p ps where ps: "split_char c s = p # ps" by (cases "split_char c s") auto
  show ?case using Cons by (cases ps) (auto simp: ps)
qed simp

lemma is_digit_eval [simp]:
  "digit_val CHR ''2'' = 2" "digit_val CHR ''5'' = 5" "digit_val CHR ''1'' = 1"
  "is_digit CHR ''2''" "is_digit CHR ''5''" "is_digit CHR ''1''"
  by (simp_all add: digit_val_def is_digit_def)

lemma octet_regex_dec: "octet_regex s \<longleftrightarrow> (\<exists>n \<le> 255. s = dec n)"
proof
  assume "octet_regex s"
  then consider a where "s = [a]" "is_digit a" | a b where "s = [a, b]" "in_chars a 1 9" "is_digit b"
    | a b c where "s = [a, b, c]" "is_digit a" "is_digit b" "is_digit c" "digit_val a \<noteq> 0" "digit_val a * 100 + digit_val b * 10 + digit_val c \<le> 255"
  proof (cases s rule: octet_regex.cases)
    case (3 a b c)
    show thesis using \<open>octet_regex s\<close> 3 digit_val_less [of b] digit_val_less [of c]
      by (intro that(3) [of a b c]) (auto simp: in_chars_def)
  qed auto
  then show "\<exists>n \<le> 255. s = dec n"
  proof cases
    case 1
    then show ?thesis using digit_val_less [of a] by (intro exI [of _ "digit_val a"]) (simp add: dec.simps digit_char_digit_val)
  next
    case 2
    then have "dec (digit_val a * 10 + digit_val b) = [a, b]" "digit_val a * 10 + digit_val b \<le> 255"
      using digit_val_less [of a] digit_val_less [of b] by (auto simp: dec_snoc in_chars_def dec.simps [of "digit_val a"] digit_char_digit_val)
    then show ?thesis using 2 by metis
  next
    case 3
    have "dec ((digit_val a * 10 + digit_val b) * 10 + digit_val c) = [a, b, c]"
      using 3(2-5) digit_val_less [of a] digit_val_less [of b] digit_val_less [of c]
      by (subst dec_snoc, simp, simp, subst dec_snoc) (simp_all add: dec.simps [of "digit_val a"] digit_char_digit_val)
    moreover have "(digit_val a * 10 + digit_val b) * 10 + digit_val c \<le> 255" using 3(6) by simp
    ultimately show ?thesis using 3(1) by metis
  qed
next
  assume "\<exists>n \<le> 255. s = dec n"
  then obtain n where n: "n \<le> 255" "s = dec n" by blast
  consider "n < 10" | "10 \<le> n" "n < 100" | "100 \<le> n" by linarith
  then show "octet_regex s"
  proof cases
    case 1
    then show ?thesis by (simp add: n(2) dec.simps)
  next
    case 2
    then have "s = [digit_char (n div 10), digit_char (n mod 10)]" using n(2) by (simp add: dec.simps [of n] dec.simps [of "n div 10"])
    moreover have "1 \<le> n div 10" "n div 10 \<le> 9" using 2 by auto
    ultimately show ?thesis by (simp add: in_chars_def)
  next
    case 3
    have "n div 10 div 10 < 10" "n div 10 \<ge> 10" using 3 n(1) by auto
    then have s: "s = [digit_char (n div 10 div 10), digit_char (n div 10 mod 10), digit_char (n mod 10)]"
      using n(2) 3 by (simp add: dec.simps [of n] dec.simps [of "n div 10"] dec.simps [of "n div 10 div 10"])
    define h t u where "h = n div 10 div 10" and "t = n div 10 mod 10" and "u = n mod 10"
    have "n = 10 * (10 * h + t) + u" "t < 10" "u < 10" by (simp_all add: h_def t_def u_def)
    then have "h \<noteq> 0" "h \<le> 2" "h = 2 \<longrightarrow> t \<le> 5" "h = 2 \<and> t = 5 \<longrightarrow> u \<le> 5"
      using 3 n(1) by auto
    then have "h = 1 \<or> h = 2 \<and> t \<le> 4 \<or> h = 2 \<and> t = 5 \<and> u \<le> 5" by auto
    note this [unfolded h_def t_def u_def]
    then show ?thesis unfolding s by (auto simp: in_chars_def digit_char_eval)
  qed
qed

lemma dot_not_in_dec [simp]: "CHR ''.'' \<notin> set (dec n)"
  using dec_digits is_digit_not_special(1) by blast

lemma ip_validator_ip_to_str: "ip_validator (ip_to_str ip)"
proof -
  obtain a b c d where o: "octets ip = [a, b, c, d]" by (simp add: octets_def)
  have le: "a \<le> 255" "b \<le> 255" "c \<le> 255" "d \<le> 255" using octets_le [of _ ip] by (auto simp: o)
  have "split_char (CHR ''.'') (ip_to_str ip) = [dec a, dec b, dec c, dec d]"
    by (simp add: ip_to_str_octets o read_text_def split_char_append split_char_single)
  then show ?thesis using le by (auto simp: ip_validator_def octet_regex_dec)
qed

lemma ip_validator_canonical:
  assumes "ip_validator s"
  obtains ip where "s = ip_to_str ip"
proof -
  obtain a b c d where sp: "split_char (CHR ''.'') s = [a, b, c, d]" "octet_regex a" "octet_regex b" "octet_regex c" "octet_regex d"
    using assms by (auto simp: ip_validator_def Let_def numeral_eq_Suc length_Suc_conv)
  then obtain k l m n where o: "a = dec k" "b = dec l" "c = dec m" "d = dec n" "k \<le> 255" "l \<le> 255" "m \<le> 255" "n \<le> 255"
    by (auto simp: octet_regex_dec)
  have "s = ip_to_str (addr_of_octets [k, l, m, n])"
    using split_char_concat [of "CHR ''.''" s] o sp(1)
    by (simp add: ip_to_str_octets octets_addr_of_octets read_text_def)
  then show thesis by (rule that)
qed

lemma ip_to_str_nul: "CHR 0x00 \<notin> set (ip_to_str ip)"
  using dec_digits is_digit_not_special(2) by (fastforce simp: ip_to_str_def)

lemma parse_ip_str_canonical:
  assumes "parse_ip_str s = Inr ip" "CHR 0x00 \<notin> set s"
  shows "s = ip_to_str ip"
proof -
  have "c_str s = s" using assms(2) by (auto simp: c_str_def takeWhile_eq_all_conv)
  then show ?thesis using assms(1) inet_pton_canonical [of s ip] by (auto simp: parse_ip_str_def split: if_splits option.splits)
qed

text \<open>C36: The regular expression of the address fields and the address parser of the configuration agree: a text is accepted by
  the one exactly when it is read by the other.\<close>

theorem ip_validator_exact:
  "ip_validator s \<longleftrightarrow> CHR 0x00 \<notin> set s \<and> (\<exists>ip. parse_ip_str s = Inr ip)"
  using ip_validator_canonical [of s] ip_to_str_nul parse_ip_to_str parse_ip_str_canonical [of s] ip_validator_ip_to_str
  by metis

section \<open>Plots\<close>

lemma wrap_add: "a < (n :: nat) \<Longrightarrow> j < n \<Longrightarrow> (a + j) mod n = (if a + j < n then a + j else a + j - n)"
  by (simp add: mod_if)

lemma plot_buffer:
  assumes "p = fold add_sample xs RealTimePlot_new"
  shows "shift_head p = length xs mod 1000 \<and>
    (\<forall>k < 1000. shift_buffer p ((shift_head p + k) mod 1000) = (replicate 1000 0 @ xs) ! (length xs + k))"
  using assms
proof (induction xs arbitrary: p rule: rev_induct)
  case Nil
  then show ?case by (simp add: RealTimePlot_new_def)
next
  case (snoc x xs)
  define q where "q = fold add_sample xs RealTimePlot_new"
  have p: "p = add_sample x q" using snoc.prems by (simp add: q_def)
  have q: "shift_head q = length xs mod 1000"
    "\<And>k. k < 1000 \<Longrightarrow> shift_buffer q ((shift_head q + k) mod 1000) = (replicate 1000 0 @ xs) ! (length xs + k)"
    using snoc.IH [OF q_def] by auto
  have h: "shift_head p = Suc (length xs) mod 1000" by (simp add: p add_sample_def q(1) SHIFT_BUFFER_SIZE_def mod_Suc_eq)
  have "shift_buffer p ((shift_head p + k) mod 1000) = (replicate 1000 0 @ xs @ [x]) ! (Suc (length xs) + k)" if "k < 1000" for k
  proof (cases "k = 999")
    case True
    have "(Suc (length xs) mod 1000 + 999) mod 1000 = (length xs + 1000) mod 1000" by (simp only: mod_add_left_eq add_Suc) simp
    then have "(Suc (length xs) mod 1000 + 999) mod 1000 = length xs mod 1000" by simp
    then have "(shift_head p + k) mod 1000 = shift_head q" unfolding True h q(1) .
    then show ?thesis by (simp add: True p add_sample_def nth_append)
  next
    case False
    have e: "(shift_head p + k) mod 1000 = (shift_head q + Suc k) mod 1000" unfolding h q(1) by (simp only: mod_add_left_eq) simp
    have "(shift_head q + Suc k) mod 1000 \<noteq> shift_head q" using that False by (subst wrap_add) (auto simp: q(1))
    then have "shift_buffer p ((shift_head p + k) mod 1000) = shift_buffer q ((shift_head q + Suc k) mod 1000)"
      unfolding e by (simp add: p add_sample_def)
    also have "\<dots> = (replicate 1000 0 @ xs) ! (length xs + Suc k)" using that False by (intro q(2)) simp
    finally show ?thesis using that False by (auto simp: nth_append)
  qed
  then show ?case using h by simp
qed

lemma llround_nat [simp]: "llround (real n) = int n"
  by (simp add: llround_def)

lemma plot_sample_full: "col < 1000 \<Longrightarrow> plot_sample p 1000 col = shift_buffer p ((shift_head p + col) mod 1000)"
  by (simp add: plot_sample_def SHIFT_BUFFER_SIZE_def)

lemma plot_sample_last: "0 < cols \<Longrightarrow> plot_sample p cols (cols - 1) = shift_buffer p ((shift_head p + 999) mod 1000)"
  using llround_nat [of 999] by (auto simp: plot_sample_def SHIFT_BUFFER_SIZE_def)

text \<open>C38: A plot shows the latest samples.  Drawn one column per sample, it shows the last 1000 samples in order (zeros before the
  first one); at every width the right-most column is the newest sample.\<close>

theorem plot_shows_latest:
  assumes "p = fold add_sample xs RealTimePlot_new" "0 < cols"
  shows "map (plot_sample p 1000) [0..<1000] = drop (length xs) (replicate 1000 0 @ xs) \<and>
    plot_sample p cols (cols - 1) = last (replicate 1000 0 @ xs)"
proof -
  have b: "shift_buffer p ((shift_head p + k) mod 1000) = (replicate 1000 0 @ xs) ! (length xs + k)" if "k < 1000" for k
    using plot_buffer [OF assms(1)] that by blast
  have "map (plot_sample p 1000) [0..<1000] = drop (length xs) (replicate 1000 0 @ xs)"
    by (rule nth_equalityI) (simp_all add: plot_sample_full b del: drop_append drop_replicate)
  moreover have "last (replicate 1000 0 @ xs) = (replicate 1000 0 @ xs) ! (length xs + 999)"
    by (subst last_conv_nth) (auto simp: add.commute)
  ultimately show ?thesis using plot_sample_last [OF assms(2), of p] b [of 999] by simp
qed

theorem plot_shows_latest_witness:
  "plot_sample (fold add_sample [7, 8] RealTimePlot_new) 400 (400 - 1) = 8 \<and>
   last (map (plot_sample (fold add_sample [7, 8] RealTimePlot_new) 1000) [0..<1000]) = 8"
proof -
  have l: "last (replicate 1000 0 @ [7, 8 :: real]) = 8" by (simp only: last_appendR list.distinct simp_thms) simp
  have "last (drop 2 (replicate 1000 0 @ [7, 8 :: real])) = last (replicate 1000 0 @ [7, 8 :: real])"
    by (rule last_drop) simp
  then show ?thesis
    using plot_shows_latest [OF refl, of 400 "[7, 8]"] by (simp only: l list.size add_0_right Suc_1 One_nat_def [symmetric] plus_1_eq_Suc) simp
qed

section \<open>Rates\<close>

text \<open>C39: The rate in the header.  \<open>b\<close> is the number of bytes since the last tick and \<open>d\<close> the nanoseconds since then.  Between 20
  and 200 milliseconds the download rate shown is the true one, \<open>b\<close> times 8 over \<open>d\<close> in megabits per second.  Below 20
  milliseconds it is too small by the factor \<open>d / 20\<close> ms: at the 16 milliseconds the timer runs with, a fifth is missing.\<close>

theorem header_rate:
  assumes "db' = timerEvent qt t now (plot_timer_id db) db" "b = unat (cm_bytes (core_metrics t 2) - last_bytes db 2)"
    and "d = real_of_int (now - plot_last_tick db)" "0 < d" "rate = real b * 8 * 1000 / d"
  shows "(20000000 \<le> d \<and> d \<le> 200000000 \<longrightarrow> fst (hdr_info db') = rate) \<and>
    (d < 20000000 \<longrightarrow> fst (hdr_info db') = rate * (d / 20000000)) \<and>
    (d = 16000000 \<longrightarrow> fst (hdr_info db') = rate * (4 / 5)) \<and>
    last_bytes db' 2 = cm_bytes (core_metrics t 2) \<and> plot_last_tick db' = now"
proof -
  have e: "clamp (d / 1000000000) (20 / 1000) (200 / 1000) =
    (if d < 20000000 then 20 / 1000 else if 200000000 < d then 200 / 1000 else d / 1000000000)"
    by (auto simp: clamp_def field_simps)
  have h: "fst (hdr_info db') = real b * 8 / clamp (d / 1000000000) (20 / 1000) (200 / 1000) / 1000000"
    unfolding assms(1-3) by (simp add: timerEvent_def rate_mbps_def Let_def)
  have "last_bytes db' 2 = cm_bytes (core_metrics t 2)" "plot_last_tick db' = now"
    unfolding assms(1) by (simp_all add: timerEvent_def Let_def)
  then show ?thesis unfolding h e assms(5) using assms(4) by (simp add: field_simps)
qed

definition demo_dashboard :: Dashboard where
  "demo_dashboard =
     \<lparr>current_index = 2,
      page_overview = \<lparr>high_plot = RealTimePlot_new, normal_plot = RealTimePlot_new, core_text = (\<lambda>_. []), core_colour = (\<lambda>_. []), lbl_mode = [],
        lbl_hostname = [], lbl_kernel = [], lbl_cpu_temp = [], lbl_uptime = [], lbl_memory = []\<rparr>,
      page_qos = \<lparr>sw_acceleration = \<lparr>checked = True\<rparr>, edit_dl_limit = [], edit_ul_limit = []\<rparr>,
      page_devices = DevicePage_new, hdr_info = (0, 0, 0), last_bytes = (\<lambda>_. 0), last_high_bytes = 0, last_normal_bytes = 0,
      plot_timer_id = 1, plot_tick = 0, plot_last_tick = 0\<rparr>"

text \<open>32000 bytes in 16 milliseconds are 16 megabits per second; the header says 12.8.\<close>

theorem header_rate_witness:
  "\<forall>qt. fst (hdr_info (timerEvent qt (Telemetry_init\<lparr>core_metrics := (\<lambda>_. CoreMetrics_init\<lparr>cm_bytes := 32000\<rparr>)\<rparr>) 16000000 1 demo_dashboard)) = 64 / 5"
proof -
  let ?t = "Telemetry_init\<lparr>core_metrics := (\<lambda>_. CoreMetrics_init\<lparr>cm_bytes := 32000\<rparr>)\<rparr>"
  show ?thesis
  proof
    fix qt
    show "fst (hdr_info (timerEvent qt ?t 16000000 1 demo_dashboard)) = 64 / 5"
      using header_rate [of _ qt ?t 16000000 demo_dashboard 32000 16000000 16, OF refl] by (simp add: demo_dashboard_def)
  qed
qed

section \<open>The device page\<close>

lemma device_loop_keeps:
  assumes "device_loop line d ch tbl = (n, ch', tbl')"
  shows "(ch \<longrightarrow> ch') \<and> (\<not> ch' \<longrightarrow> tbl' = tbl) \<and> n \<le> max d 64"
  using assms
proof (induction "length line" arbitrary: line d ch tbl rule: less_induct)
  case less
  show ?case
  proof (cases "line = [] \<or> \<not> d < MAX_TRACKED_DEVICES")
    case True
    then show ?thesis using less.prems by (auto simp: device_loop.simps [of line])
  next
    case False
    then have shorter: "length (next_line line) < length line" and d: "d < 64" by (auto simp: length_next_line MAX_TRACKED_DEVICES_def)
    show ?thesis
    proof (cases "device_row line")
      case None
      then show ?thesis using less.hyps [OF shorter, of d ch tbl] less.prems False by (simp add: device_loop.simps [of line])
    next
      case (Some r)
      obtain ip mac where r: "r = (ip, mac)" by fastforce
      let ?slot = "\<lparr>dev_ip = ip, dev_mac = mac\<rparr>"
      have "device_loop (next_line line) (d + 1) (ch \<or> tbl d \<noteq> ?slot) (tbl(d := ?slot)) = (n, ch', tbl')"
        using less.prems False Some by (cases "tbl d") (auto simp: device_loop.simps [of line] r Let_def split: if_splits)
      from less.hyps [OF shorter this] show ?thesis using d by auto
    qed
  qed
qed

lemma refreshDevices_revision:
  assumes "refreshDevices t y = (t', y')" "unat (device_count t) \<le> 64"
  shows "unat (device_count t') \<le> 64 \<and>
    (device_table_revision t' = device_table_revision t + 1 \<or>
     device_table_revision t' = device_table_revision t \<and> device_count t' = device_count t \<and> shown_devices t' = shown_devices t)"
proof -
  obtain buf y1 where r: "sys_read ''/proc/net/arp'' 4095 y = (buf, y1)" by fastforce
  show ?thesis
  proof (cases "buf = None \<or> buf = Some []")
    case True
    then show ?thesis using assms r by (auto simp: refreshDevices_def)
  next
    case False
    then obtain b where b: "buf = Some b" "b \<noteq> []" by auto
    obtain n ch tbl where l: "device_loop (next_line b) 0 False (device_table t) = (n, ch, tbl)" by (metis prod_cases3)
    have n: "n \<le> 64" "\<not> ch \<longrightarrow> tbl = device_table t" using device_loop_keeps [OF l] by auto
    then have "unat (of_nat n :: u8) = n" by (simp add: unsigned_of_nat take_bit_nat_eq_self)
    then show ?thesis using assms r b l n by (auto simp: refreshDevices_def Let_def shown_devices_def split: if_splits)
  qed
qed

text \<open>The collector refreshes the table and the page is drawn, in any order.\<close>

datatype page_op = Collect Sys | Draw

fun page_exec :: "page_op \<Rightarrow> Telemetry \<times> DevicePage \<Rightarrow> Telemetry \<times> DevicePage" where
  "page_exec (Collect y) (t, pg) = (fst (refreshDevices t y), pg)"
| "page_exec Draw (t, pg) = (t, device_refresh t pg)"

definition page_inv :: "nat \<Rightarrow> Telemetry \<times> DevicePage \<Rightarrow> bool" where
  "page_inv n = (\<lambda>(t, pg). unat (device_count t) \<le> 64 \<and>
     (last_device_count pg = 255 \<or>
      (\<exists>k \<le> n. device_table_revision t = last_device_table_revision pg + of_nat k \<and>
         (k = 0 \<longrightarrow> cards pg = map device_card (shown_devices t)))))"

lemma page_inv_draw:
  assumes "page_inv n (t, pg)" "n < 2 ^ 64"
  shows "cards (device_refresh t pg) = map device_card (shown_devices t)"
proof (cases "device_count t = last_device_count pg \<and> device_table_revision t = last_device_table_revision pg")
  case True
  have "(255 :: u8) \<noteq> device_count t" using assms(1) by (auto simp: page_inv_def)
  then obtain k where k: "k \<le> n" "of_nat k = (0 :: u64)" "k = 0 \<longrightarrow> cards pg = map device_card (shown_devices t)"
    using assms(1) True by (auto simp: page_inv_def)
  have "k = 0" using k(1,2) assms(2) nat_dvd_not_less [of k "2 ^ 64"] by (auto simp: word_of_nat_eq_0_iff)
  then show ?thesis using k(3) True by (simp add: device_refresh_def)
qed (auto simp: device_refresh_def shown_devices_def Let_def)

lemma page_exec_inv:
  assumes "page_inv n s" "n < 2 ^ 64"
  shows "page_inv (Suc n) (page_exec op s)"
proof (cases op)
  case (Collect y)
  obtain t pg where s: "s = (t, pg)" by fastforce
  obtain t' y' where r: "refreshDevices t y = (t', y')" by fastforce
  have "unat (device_count t) \<le> 64" using assms(1) by (simp add: page_inv_def s)
  note rev = refreshDevices_revision [OF r this]
  show ?thesis
  proof (cases "last_device_count pg = 255")
    case False
    then obtain k where k: "k \<le> n" "device_table_revision t = last_device_table_revision pg + of_nat k"
      "k = 0 \<longrightarrow> cards pg = map device_card (shown_devices t)" using assms(1) by (auto simp: page_inv_def s)
    show ?thesis
    proof (cases "device_table_revision t' = device_table_revision t + 1")
      case True
      then have "device_table_revision t' = last_device_table_revision pg + of_nat (Suc k)" using k(2) by simp
      moreover have "Suc k \<le> Suc n" using k(1) by simp
      ultimately show ?thesis using rev by (auto simp: Collect s r page_inv_def intro!: exI [of _ "Suc k"])
    qed (use rev k in \<open>auto simp: Collect s r page_inv_def intro!: exI [of _ k]\<close>)
  qed (use rev in \<open>simp add: Collect s r page_inv_def\<close>)
next
  case Draw
  obtain t pg where s: "s = (t, pg)" by fastforce
  have "last_device_table_revision (device_refresh t pg) = device_table_revision t" by (auto simp: device_refresh_def Let_def)
  then show ?thesis using assms page_inv_draw [of n t pg] by (auto simp: Draw s page_inv_def intro: exI [of _ 0])
qed

lemma page_run_inv: "page_inv n s \<Longrightarrow> n + length ops < 2 ^ 64 \<Longrightarrow> page_inv (n + length ops) (fold page_exec ops s)"
proof (induction ops arbitrary: n s)
  case (Cons op ops)
  then show ?case using page_exec_inv [of n s op] Cons.IH [of "Suc n" "page_exec op s"] by simp
qed simp

text \<open>C37: The device page is never out of date.  However refreshes of the table and drawings of the page interleave, less than 2 to
  the 64 of them, the next drawing leaves a card for every device of the table and no other, although the page redraws
  only when the number of devices or the revision has changed.\<close>

theorem device_page_current:
  assumes "fold page_exec ops (Telemetry_init, DevicePage_new) = (t, pg)" "length ops < 2 ^ 64"
  shows "cards (device_refresh t pg) = map device_card (shown_devices t)"
proof -
  have "page_inv 0 (Telemetry_init, DevicePage_new)" by (simp add: page_inv_def Telemetry_init_def DevicePage_new_def)
  from page_run_inv [OF this, of ops] show ?thesis using assms page_inv_draw by simp
qed

theorem device_page_current_witness:
  "let y = \<lparr>reads = 0, file_answer = (\<lambda>_ _. Some (arp_text demo_arp)), nprocessors = (\<lambda>_. 1)\<rparr>;
       (t, pg) = fold page_exec [Draw, Collect y, Draw, Collect y] (Telemetry_init, DevicePage_new)
   in cards (device_refresh t pg) = map device_card (shown_devices t)"
proof -
  let ?y = "\<lparr>reads = 0, file_answer = (\<lambda>_ _. Some (arp_text demo_arp)), nprocessors = (\<lambda>_. 1)\<rparr> :: Sys"
  obtain t pg where r: "fold page_exec [Draw, Collect ?y, Draw, Collect ?y] (Telemetry_init, DevicePage_new) = (t, pg)" by fastforce
  show ?thesis using device_page_current [OF r] r by (simp add: Let_def)
qed

section \<open>The DHCP dialog\<close>

lemma clamp_bounds [simp]: "lo \<le> hi \<Longrightarrow> lo \<le> clamp v lo hi" "lo \<le> hi \<Longrightarrow> clamp v lo hi \<le> hi"
  by (auto simp: clamp_def)

lemma get_int_range: "get_int qt keys ok i mn mx = Some v \<Longrightarrow> mn \<le> v \<and> v \<le> mx"
  by (auto simp: get_int_def Let_def split: option.splits if_splits)

lemma edit_octets_range: "edit_octets qt ks q = Some q' \<Longrightarrow> length q' = length q \<and> (\<forall>v \<in> set q'. 0 \<le> v \<and> v \<le> 255)"
proof (induction qt ks q arbitrary: q' rule: edit_octets.induct)
  case (1 qt keys ok ks o1 q)
  then show ?case by (auto split: option.splits dest: get_int_range)
qed (auto split: if_splits)

text \<open>The keypad yields addresses the field accepts.\<close>

lemma numpad_edit_ipv4_valid:
  assumes "numpad_edit_ipv4 qt ks current = Some s"
  shows "ip_validator s"
proof -
  define q where "q = (if trimmed qt current \<noteq> []
    then case parse_ipv4_quads qt current of Some parsed \<Rightarrow> parsed | None \<Rightarrow> [192, 168, 1, 1] else [192, 168, 1, 1])"
  have "length q = 4" by (auto simp: q_def parse_ipv4_quads_def Let_def split: option.split)
  moreover obtain q' where "edit_octets qt ks q = Some q'" "s = format_ipv4_quads q'"
    using assms by (auto simp: numpad_edit_ipv4_def q_def [symmetric] Let_def)
  ultimately have q': "length q' = 4" "\<forall>v \<in> set q'. 0 \<le> v \<and> v \<le> 255" "s = format_ipv4_quads q'"
    using edit_octets_range [of qt ks q q'] by auto
  then obtain a b c d where abcd: "q' = [a, b, c, d]" by (auto simp: numeral_eq_Suc length_Suc_conv)
  have "octets (addr_of_octets [nat a, nat b, nat c, nat d]) = [nat a, nat b, nat c, nat d]"
    using q'(2) by (intro octets_addr_of_octets) (auto simp: abcd)
  then have "s = ip_to_str (addr_of_octets [nat a, nat b, nat c, nat d])"
    using q'(2,3) by (simp add: abcd format_ipv4_quads_def dec_int_def ip_to_str_octets read_text_def)
  then show ?thesis using ip_validator_ip_to_str by simp
qed

definition dialog_ok :: "DhcpConfigDialog \<Rightarrow> bool" where
  "dialog_ok dlg \<longleftrightarrow> spin_days dlg \<in> {0..365} \<and> spin_hours dlg \<in> {0..24} \<and> spin_minutes dlg \<in> {0..60}"

lemma dialog_ok_new: "dialog_ok (DhcpConfigDialog_new cfg)"
  by (simp add: dialog_ok_def DhcpConfigDialog_new_def)

lemma dialog_ok_tap: "dialog_ok dlg \<Longrightarrow> dialog_ok (dhcp_tap_field qt tp dlg)"
  by (cases tp) (auto simp: dialog_ok_def split: option.splits)

lemma dialog_ok_taps: "dialog_ok dlg \<Longrightarrow> dialog_ok (fold (dhcp_tap_field qt) taps dlg)"
  by (induction taps arbitrary: dlg) (auto intro: dialog_ok_tap)

text \<open>The lease time of the dialog, at least a minute, does not overflow.\<close>

definition dialog_secs :: "DhcpConfigDialog \<Rightarrow> int" where
  "dialog_secs dlg = max 60 (spin_days dlg * 86400 + spin_hours dlg * 3600 + spin_minutes dlg * 60)"

lemma dhcp_on_apply_some:
  assumes "dhcp_on_apply dlg cfg = Some cfg'" "dialog_ok dlg"
  obtains lo hi where "parse_ip_str (edit_pool_start dlg) = Inr lo" "parse_ip_str (edit_pool_end dlg) = Inr hi"
    "unat (to_host lo) < unat (to_host hi)"
    "cfg' = cfg\<lparr>DHCP_POOL_START := edit_pool_start dlg, DHCP_POOL_END := edit_pool_end dlg, DHCP_LEASE_DURATION := dialog_secs dlg\<rparr>"
proof -
  define n where "n = spin_days dlg * 86400 + spin_hours dlg * 3600 + spin_minutes dlg * 60"
  define secs :: u32 where "secs = of_int (spin_days dlg) * 86400 + of_int (spin_hours dlg) * 3600 + of_int (spin_minutes dlg) * 60"
  have n: "0 \<le> n" "n < 2 ^ 32" using assms(2) by (auto simp: n_def dialog_ok_def)
  define k where "k = spin_days dlg * 1440 + spin_hours dlg * 60 + spin_minutes dlg"
  have "n = 60 * k" by (simp add: n_def k_def)
  moreover have "k = 0 \<or> 1 \<le> k" using calculation n(1) by auto
  ultimately have n60: "n = 0 \<or> 60 \<le> n" by auto
  have "secs = of_int n" by (simp add: secs_def n_def)
  then have "uint secs = n" using n by (simp add: unsigned_of_int take_bit_int_eq_self)
  then have s: "int (unat (if secs = 0 then 60 else secs)) = dialog_secs dlg" and z: "int (unat secs) = n"
    using n n60 unfolding dialog_secs_def n_def [symmetric] by (auto simp: uint_0_iff)
  obtain lo hi where p: "parse_ip_str (edit_pool_start dlg) = Inr lo" "parse_ip_str (edit_pool_end dlg) = Inr hi" "\<not> ntohl lo \<ge> ntohl hi"
    using assms(1) by (auto simp: dhcp_on_apply_def Let_def split: if_splits sum.splits)
  have "cfg' = cfg\<lparr>DHCP_POOL_START := edit_pool_start dlg, DHCP_POOL_END := edit_pool_end dlg, DHCP_LEASE_DURATION := dialog_secs dlg\<rparr>"
    using assms(1) p unfolding s [symmetric] secs_def dhcp_on_apply_def Let_def by (auto split: if_splits)
  then show thesis using p by (intro that) (auto simp: to_host_def word_le_nat_alt)
qed

text \<open>C35: What the DHCP dialog accepts is what the server does.  Whatever the user typed, when Apply stores a new configuration, the
  control plane's application of it cannot fail: the pool then consists of the addresses from the one shown as start on,
  up to the one shown as end or 253 of them, all free, and leases run for the time shown, at least a minute.  Text typed
  on the keypad is always accepted as an address.\<close>

theorem dhcp_dialog_applies:
  assumes "dlg = fold (dhcp_tap_field qt) taps (DhcpConfigDialog_new cfg)" "dhcp_on_apply dlg cfg = Some cfg'"
    and "sh_cfg (pl_shared p) = cfg'" "d = sh_dhcp (pl_shared (applyDhcpConfig p))"
  shows "\<exists>lo hi. parse_ip_str (edit_pool_start dlg) = Inr lo \<and> parse_ip_str (edit_pool_end dlg) = Inr hi \<and>
      unat (to_host lo) < unat (to_host hi) \<and> lease_duration d = dialog_secs dlg \<and>
      pool_count d = min (unat (to_host hi) - unat (to_host lo) + 1) 253 \<and>
      (\<forall>i < pool_count d. unat (to_host (lease_ip (leases d i))) = unat (to_host lo) + i \<and> \<not> lease_active (leases d i)) \<and>
      (\<forall>ks s. numpad_edit_ipv4 qt ks (edit_pool_start dlg) = Some s \<longrightarrow> ip_validator s)"
proof -
  have ok: "dialog_ok dlg" unfolding assms(1) by (intro dialog_ok_taps dialog_ok_new)
  obtain lo hi where c: "parse_ip_str (edit_pool_start dlg) = Inr lo" "parse_ip_str (edit_pool_end dlg) = Inr hi"
    "unat (to_host lo) < unat (to_host hi)"
    "cfg' = cfg\<lparr>DHCP_POOL_START := edit_pool_start dlg, DHCP_POOL_END := edit_pool_end dlg, DHCP_LEASE_DURATION := dialog_secs dlg\<rparr>"
    using dhcp_on_apply_some [OF assms(2) ok] .
  let ?d0 = "sh_dhcp (pl_shared p)\<lparr>lease_duration := dialog_secs dlg\<rparr>"
  obtain d1 err where i: "init_pool lo hi ?d0 = (d1, err)" by fastforce
  from i have pool: "err = None" "pool_count d1 = min (unat (to_host hi) - unat (to_host lo) + 1) 253" "lease_duration d1 = dialog_secs dlg"
    "\<forall>i < pool_count d1. unat (to_host (lease_ip (leases d1 i))) = unat (to_host lo) + i \<and> \<not> lease_active (leases d1 i)"
    by (cases rule: init_pool_cases; use c(3) in auto)+
  obtain r nc d2 k where s: "sync cfg' (pl_netcfg p) d1 (pl_net p) = (r, nc, d2, k)" by (metis prod_cases4)
  have d2: "\<exists>ip. d2 = d1\<lparr>router_ip := ip\<rparr>" using s
  proof (cases rule: sync_cases)
    case (failed e)
    then show ?thesis by (intro exI [of _ "router_ip d1"]) simp
  next
    case (synced lo hi ip k1 prefix)
    then show ?thesis by (auto simp: set_router_ip_def)
  qed
  have "parse_ip_str (DHCP_POOL_START cfg') = Inr lo" "parse_ip_str (DHCP_POOL_END cfg') = Inr hi" "DHCP_LEASE_DURATION cfg' = dialog_secs dlg"
    using c by simp_all
  then have "d = d2" unfolding assms(4) applyDhcpConfig_def
    by (simp add: assms(3) i pool(1) s reconfigure_def dhcp_applied_def Let_def split: sum.split)
  moreover obtain ip where "d2 = d1\<lparr>router_ip := ip\<rparr>" using d2 ..
  ultimately have "pool_count d = pool_count d1" "leases d = leases d1" "lease_duration d = lease_duration d1" by simp_all
  moreover have "\<forall>ks s. numpad_edit_ipv4 qt ks (edit_pool_start dlg) = Some s \<longrightarrow> ip_validator s"
    by (intro allI impI) (rule numpad_edit_ipv4_valid)
  ultimately show ?thesis using c(1-3) pool(2-4) by (intro exI [of _ lo] exI [of _ hi] conjI) (simp_all only:)
qed

lemma demo_dialog:
  "dhcp_on_apply (DhcpConfigDialog_new Config_defaults) Config_defaults = Some Config_defaults"
proof -
  have v: "ip_validator ''192.168.12.50''" "ip_validator ''192.168.12.255''"
    using ip_validator_ip_to_str [of "0x320CA8C0"] ip_validator_ip_to_str [of "0xFF0CA8C0"]
    by (simp_all add: ip_to_str_def dec.simps digit_char_eval)
  have "\<not> ntohl 0x320CA8C0 \<ge> ntohl 0xFF0CA8C0" by (simp add: word_eval)
  moreover have "DhcpConfigDialog_new Config_defaults =
      \<lparr>edit_pool_start = ''192.168.12.50'', edit_pool_end = ''192.168.12.255'', spin_days = 1, spin_hours = 0, spin_minutes = 0\<rparr>"
    by (simp add: DhcpConfigDialog_new_def Config_defaults_def clamp_def)
  moreover have "Config_defaults\<lparr>DHCP_POOL_START := ''192.168.12.50'', DHCP_POOL_END := ''192.168.12.255'', DHCP_LEASE_DURATION := 86400\<rparr> = Config_defaults"
    by (simp add: Config_defaults_def)
  ultimately show ?thesis by (simp add: dhcp_on_apply_def v demo_pool_text(1,2) Let_def)
qed

theorem dhcp_dialog_applies_witness:
  "pool_count (sh_dhcp (pl_shared (applyDhcpConfig (demo_plane\<lparr>pl_shared := demo_shared\<lparr>sh_cfg := Config_defaults\<rparr>\<rparr>)))) = 206"
proof -
  let ?p = "demo_plane\<lparr>pl_shared := demo_shared\<lparr>sh_cfg := Config_defaults\<rparr>\<rparr>"
  have f: "edit_pool_start (DhcpConfigDialog_new Config_defaults) = ''192.168.12.50''" "edit_pool_end (DhcpConfigDialog_new Config_defaults) = ''192.168.12.255''"
    by (simp_all add: DhcpConfigDialog_new_def Config_defaults_def)
  have h: "unat (to_host 0x320CA8C0) = 3232238642" "unat (to_host 0xFF0CA8C0) = 3232238847" by (simp_all add: to_host_def word_eval)
  define d where "d = sh_dhcp (pl_shared (applyDhcpConfig ?p))"
  obtain lo hi where "Inr 0x320CA8C0 = (Inr lo :: string + u32)" "Inr 0xFF0CA8C0 = (Inr hi :: string + u32)"
    "pool_count d = min (unat (to_host hi) - unat (to_host lo) + 1) 253"
    using dhcp_dialog_applies [of "DhcpConfigDialog_new Config_defaults" undefined "[]" Config_defaults Config_defaults ?p d, OF _ demo_dialog _ d_def]
    unfolding f demo_pool_text by auto
  then show ?thesis unfolding d_def [symmetric] by (simp add: h)
qed

end
