(* ===== verification/Main_Program.thy ===== *)
theory Main_Program
  imports App_Correct SelfTest_Correct Dashboard_Correct
begin

text \<open>
  \<^verbatim>\<open>main.cpp\<close>: load the configuration, initialise, build the dashboard, run the self-test, start, hand over to the event loop
  of Qt, and stop and save on the way out.  From the event loop on, the program is a step relation over the main
  thread, the thread \<^verbatim>\<open>watchdog_notify\<close> and the threads of the application.  \<^verbatim>\<open>exec\<close> may return any code or throw at any
  moment the main thread is in it; all that is assumed of it is that it returns once \<^verbatim>\<open>quit\<close> has been posted.
\<close>

section \<open>The program\<close>

text \<open>What is printed, and the warning on \<^verbatim>\<open>stderr\<close>.\<close>

definition case_line :: "TestCase \<Rightarrow> string" where
  "case_line c = ''  ['' @ (if tc_pass c then ''PASS'' else ''FAIL'') @ ''] '' @ tc_name c @ '' : '' @ tc_detail c"

definition print_selftest_report :: "Report \<Rightarrow> string list \<times> string option" where
  "print_selftest_report r =
     ([[CHR 0x0A] @ ''=== Startup self-test: '' @ dec (rp_passed r) @ '' / '' @ dec (rp_count r) @ '' passed ==='']
        @ map (\<lambda>i. case_line (rp_cases r i)) [0..<rp_count r] @ [''=== End self-test ===''],
      if rp_passed r < rp_count r
      then Some (''[Warning] '' @ dec (rp_count r - rp_passed r) @ '' self-test case(s) failed; review hardware and configuration.'')
      else None)"

text \<open>The end of \<^verbatim>\<open>main\<close>: what is written to the configuration file.\<close>

definition main_tail :: "string option \<Rightarrow> Config \<Rightarrow> string option" where
  "main_tail save_error cfg =
     (if SAVE_ON_EXIT cfg
      then case save_config ''config/config.txt'' save_error cfg of Inl _ \<Rightarrow> None | Inr text \<Rightarrow> Some text
      else None)"

text \<open>The answers of the system: the configuration file, the two sockets, whether Qt throws while the application object and the
  dashboard are built, the self-test's socket pair and interface list, and the \<^verbatim>\<open>eventfd\<close>s.\<close>

record Machine =
  config_file :: file_read
  wan_sys :: RawSys
  lan_sys :: RawSys
  gui_throws :: bool
  test_socket :: "int option"
  net_dir :: "string list option"
  stop_efd_ok :: bool
  cfg_efd_ok :: bool
  frame_efds_ok :: "nat \<Rightarrow> bool"
  stop_efds_ok :: "nat \<Rightarrow> bool"
  efd_error :: string

text \<open>Where the main thread is from the event loop on, and where \<^verbatim>\<open>watchdog_notify\<close> is.  \<open>Terminated\<close> is \<^verbatim>\<open>std::terminate\<close>.\<close>

datatype main_pc = In_exec | Call_stop | In_stop | Join_watch | Save_exit | Exited int | Terminated

datatype watch_pc = Waiting | Quitting | Watch_done

record Process =
  pr_app :: App
  pr_main :: main_pc
  pr_watch :: watch_pc
  pr_ret :: int
  pr_quit :: bool
  pr_saved :: "string option"

text \<open>The program up to the event loop: a code with which it ends, or the process about to enter the loop; \<open>None\<close> if the
  self-test did not return.\<close>

definition main_setup :: "Machine \<Rightarrow> World \<Rightarrow> Net \<Rightarrow> Sys \<Rightarrow> (int + Process) option" where
  "main_setup m w k y =
     (case load_config ''config/config.txt'' (config_file m) Config_defaults of
        Inl e \<Rightarrow> Some (Inl 1)
      | Inr cfg \<Rightarrow>
     case app_init (wan_sys m) (lan_sys m) (App_new cfg w k) of
        (Inl e, a) \<Rightarrow> Some (Inl 1)
      | (Inr _, a) \<Rightarrow>
     if gui_throws m then Some (Inl 1)
     else do {
       (report, w, y) \<leftarrow> selftest_run (fst (get_iface_hwaddr (g_iface_lan cfg) (ap_net a))) (test_socket m) (net_dir m)
         (sh_world (ap_shared a)) y;
       let a = a\<lparr>ap_shared := (ap_shared a)\<lparr>sh_world := w\<rparr>\<rparr>;
       (case app_start (stop_efd_ok m) (cfg_efd_ok m) (frame_efds_ok m) (stop_efds_ok m) (efd_error m) y a of
          None \<Rightarrow> Some (Inl 1)
        | Some a \<Rightarrow> Some (Inr \<lparr>pr_app = a, pr_main = In_exec, pr_watch = Waiting, pr_ret = 0, pr_quit = False, pr_saved = None\<rparr>))
     })"

text \<open>The main thread runs the callbacks of the dashboard.  While one of them is inside \<^verbatim>\<open>stop\<close>, the event loop does not go on.\<close>

definition gui_free :: "Process \<Rightarrow> bool" where
  "gui_free p \<longleftrightarrow> pr_main p = In_exec \<and> stop_thread (pr_app p) \<in> {T_idle, T_done}"

fun finished :: "main_pc \<Rightarrow> bool" where
  "finished (Exited _) = True" | "finished Terminated = True" | "finished _ = False"

datatype main_label = App_moves app_label | Exec_returns int | Exec_throws | Main_moves | Watch_moves

text \<open>The steps of the process; \<open>err\<close> is the answer of the system to the last write of the configuration file.  A callback of the
  dashboard asks for DHCP settings or for the shutdown; \<^verbatim>\<open>exec\<close> returns with any code, or with 0 on the \<^verbatim>\<open>quit\<close> that has been
  posted.  An exception that leaves \<^verbatim>\<open>exec\<close> destroys \<^verbatim>\<open>watchdog_notify\<close>, which has not been joined.\<close>

inductive main_step :: "string option \<Rightarrow> Process \<Rightarrow> main_label \<Rightarrow> Process \<Rightarrow> bool" for err where
  app_moves: "\<not> finished (pr_main p) \<Longrightarrow> app_step (pr_app p) l a \<Longrightarrow> (l \<in> {Ask_dhcp, Ask_stop} \<Longrightarrow> gui_free p) \<Longrightarrow>
    main_step err p (App_moves l) (p\<lparr>pr_app := a\<rparr>)"
| exec_returns: "gui_free p \<Longrightarrow> main_step err p (Exec_returns r) (p\<lparr>pr_ret := r, pr_main := Call_stop\<rparr>)"
| exec_quits: "gui_free p \<Longrightarrow> pr_quit p \<Longrightarrow> main_step err p Main_moves (p\<lparr>pr_ret := 0, pr_main := Call_stop\<rparr>)"
| exec_throws: "pr_main p = In_exec \<Longrightarrow> main_step err p Exec_throws (p\<lparr>pr_main := Terminated\<rparr>)"
| call_stop: "pr_main p = Call_stop \<Longrightarrow>
    main_step err p Main_moves (p\<lparr>pr_app := app_stop_call (pr_app p),
      pr_main := if fst (begin_stop (lifecycle (pr_app p))) then In_stop else Join_watch\<rparr>)"
| stop_returns: "pr_main p = In_stop \<Longrightarrow> stop_thread (pr_app p) = T_done \<Longrightarrow> main_step err p Main_moves (p\<lparr>pr_main := Join_watch\<rparr>)"
| watch_joined: "pr_main p = Join_watch \<Longrightarrow> pr_watch p = Watch_done \<Longrightarrow> main_step err p Main_moves (p\<lparr>pr_main := Save_exit\<rparr>)"
| save_exit: "pr_main p = Save_exit \<Longrightarrow>
    main_step err p Main_moves (p\<lparr>pr_saved := main_tail err (sh_cfg (ap_shared (pr_app p))), pr_main := Exited (pr_ret p)\<rparr>)"
| watch_wakes: "\<not> finished (pr_main p) \<Longrightarrow> pr_watch p = Waiting \<Longrightarrow> wait_done (lifecycle (pr_app p)) \<Longrightarrow>
    main_step err p Watch_moves (p\<lparr>pr_watch := Quitting\<rparr>)"
| watch_quits: "\<not> finished (pr_main p) \<Longrightarrow> pr_watch p = Quitting \<Longrightarrow>
    main_step err p Watch_moves (p\<lparr>pr_quit := True, pr_watch := Watch_done\<rparr>)"

text \<open>What the end of the program waits for: the main thread, \<^verbatim>\<open>watchdog_notify\<close>, and what the shutdown of the application waits
  for.  Runs count these steps.\<close>

fun main_urgent :: "Process \<Rightarrow> main_label \<Rightarrow> bool" where
  "main_urgent p (App_moves l) = urgent (pr_app p) l"
| "main_urgent p _ = True"

inductive main_run :: "string option \<Rightarrow> Process \<Rightarrow> nat \<Rightarrow> Process \<Rightarrow> bool" for err where
  main_run_nil: "main_run err p 0 p"
| main_run_snoc: "main_run err p n p1 \<Longrightarrow> main_step err p1 l p2 \<Longrightarrow> main_run err p (if main_urgent p1 l then Suc n else n) p2"

inductive_cases main_stepE: "main_step err p l p'"

section \<open>From start to end\<close>

lemma selftest_returns:
  assumes "sends_return w"
  obtains r w' y' where "selftest_run hw fd dir w y = Some (r, w', y')" "same_kernel w w'"
proof -
  obtain r1 where 1: "test_nat Report_init = Some r1" using test_nat_passes by blast
  have "\<exists>r2 w'. test_dhcp hw fd r1 w = Some (r2, w') \<and> same_kernel w w'"
  proof (cases fd)
    case (Some s)
    obtain d' w' where "process_background_tasks s (intercept_request (parse (take (snd make_dhcp_discover) (fst make_dhcp_discover)))
        (DhcpEngine_new ''192.168.1.1'' \<lparr>pool_start = parse_ipv4 ''192.168.1.100'', pool_end = parse_ipv4 ''192.168.1.200'',
           pool_lease = 86400\<rparr> hw)) w = Some (d', w')" "same_kernel w w'"
      using background_returns [OF assms] unfolding process_background_tasks_def by blast
    then show ?thesis using Some by (simp add: test_dhcp_def Let_def case_prod_unfold)
  qed (simp add: test_dhcp_def Let_def case_prod_unfold)
  then obtain r2 w' where 2: "test_dhcp hw fd r1 w = Some (r2, w')" "same_kernel w w'" by blast
  obtain r3 y' where 3: "test_system dir r2 y = (r3, y')" by fastforce
  show thesis using that [of r3 w' y'] 1 2 3 by (simp add: selftest_run_def)
qed

text \<open>What holds of the process from the event loop on.\<close>

definition main_inv :: "string option \<Rightarrow> Process \<Rightarrow> bool" where
  "main_inv err p \<longleftrightarrow> app_inv (pr_app p) \<and> forward_engine (pr_app p) \<noteq> None \<and> control_plane (pr_app p) \<noteq> None \<and>
     (pr_main p = Call_stop \<longrightarrow> stop_thread (pr_app p) \<in> {T_idle, T_done}) \<and>
     (pr_main p = In_stop \<longrightarrow> stop_thread (pr_app p) \<noteq> T_idle) \<and>
     (pr_main p \<in> {Join_watch, Save_exit} \<union> range Exited \<longrightarrow> stop_thread (pr_app p) = T_done) \<and>
     (pr_watch p \<noteq> Waiting \<longrightarrow> stop_thread (pr_app p) = T_done) \<and>
     (pr_watch p = Watch_done \<longrightarrow> pr_quit p) \<and>
     (pr_main p \<in> range Exited \<longrightarrow> pr_saved p = main_tail err (sh_cfg (ap_shared (pr_app p))))"

lemma app_step_some:
  assumes "app_step a l a'" "forward_engine a \<noteq> None" "control_plane a \<noteq> None"
  shows "forward_engine a' \<noteq> None" "control_plane a' \<noteq> None"
  using app_run_some [OF app_run.app_run_snoc [OF app_run.app_run_nil assms(1)]] assms(2,3) by blast+

lemma app_step_done:
  assumes "app_inv a" "app_step a l a'" "stop_thread a = T_done"
  shows "stop_thread a' = T_done"
  using assms(2)
proof cases
  case app_ask_stop
  then show ?thesis using assms(3) by (simp add: app_stop_call_def begin_stop_def Let_def) (use assms(1) in \<open>simp add: app_inv_def\<close>)
qed (use assms(3) in \<open>auto simp: app_request_dhcp_def elim!: app_stop_step.cases\<close>)

lemma app_step_idle:
  assumes "app_step a l a'" "stop_thread a = T_idle" "l \<noteq> Ask_stop"
  shows "stop_thread a' = T_idle \<and> \<not> urgent a l"
  using assms(1)
proof cases
  case (app_data fe m fe')
  then show ?thesis using assms(2) by (cases m) auto
qed (use assms(2,3) in \<open>auto simp: app_request_dhcp_def elim!: app_stop_step.cases\<close>)

lemma stop_call_thread:
  assumes "app_inv a"
  shows "stop_thread (app_stop_call a) = (if stop_thread a = T_idle then T_engine else stop_thread a)"
    "fst (begin_stop (lifecycle a)) \<longleftrightarrow> stop_thread a = T_idle"
  using assms by (auto simp: app_inv_def app_stop_call_def begin_stop_def Let_def)

lemma main_step_inv:
  assumes "main_inv err p" "main_step err p l p'"
  shows "main_inv err p'"
  using assms(2)
proof cases
  case (app_moves m a)
  have i: "app_inv (pr_app p)" "app_step (pr_app p) m a" using assms(1) app_moves by (auto simp: main_inv_def)
  have "app_inv a" "forward_engine a \<noteq> None" "control_plane a \<noteq> None"
    using app_step_inv [OF i] app_step_some [OF i(2)] assms(1) by (auto simp: main_inv_def)
  moreover have "stop_thread a \<in> {T_idle, T_done}" if "pr_main p = Call_stop"
    using that assms(1) app_step_done [OF i] app_step_idle [OF i(2)] app_moves(5) by (auto simp: main_inv_def gui_free_def)
  moreover have "stop_thread a \<noteq> T_idle" if "stop_thread (pr_app p) \<noteq> T_idle" using app_step_left [OF i that] by blast
  ultimately show ?thesis using assms(1) app_moves app_step_done [OF i] by (auto simp: main_inv_def)
next
  case call_stop
  have i: "app_inv (pr_app p)" "app_step (pr_app p) Ask_stop (app_stop_call (pr_app p))"
    using assms(1) app_step.app_ask_stop by (auto simp: main_inv_def)
  show ?thesis using assms(1) call_stop app_step_inv [OF i] app_step_some [OF i(2)] stop_call_thread [OF i(1)]
    by (auto simp: main_inv_def)
qed (use assms(1) app_inv_wait in \<open>auto simp: main_inv_def gui_free_def\<close>)

lemma main_run_inv: "main_run err p n p' \<Longrightarrow> main_inv err p \<Longrightarrow> main_inv err p'"
  by (induction rule: main_run.induct) (auto dest: main_step_inv)

text \<open>The program is leaving once the shutdown has been asked for or \<^verbatim>\<open>exec\<close> has returned.  What remains is bounded.\<close>

definition leaving :: "Process \<Rightarrow> bool" where
  "leaving p \<longleftrightarrow> pr_main p \<noteq> Terminated \<and> (stop_thread (pr_app p) \<noteq> T_idle \<or> pr_main p \<noteq> In_exec)"

fun main_weight :: "main_pc \<Rightarrow> nat" where
  "main_weight In_exec = 5" | "main_weight Call_stop = 4" | "main_weight In_stop = 3" | "main_weight Join_watch = 2"
| "main_weight Save_exit = 1" | "main_weight _ = 0"

fun watch_weight :: "watch_pc \<Rightarrow> nat" where
  "watch_weight Waiting = 2" | "watch_weight Quitting = 1" | "watch_weight Watch_done = 0"

definition main_left :: "Process \<Rightarrow> nat" where
  "main_left p = main_weight (pr_main p) + watch_weight (pr_watch p) +
     (if stop_thread (pr_app p) = T_idle then 2087 else shutdown_left (pr_app p))"

lemma main_left_bound: "main_inv err p \<Longrightarrow> main_left p \<le> 2094"
  using shutdown_left_bound [of "pr_app p"]
  by (cases "pr_main p"; cases "pr_watch p") (auto simp: main_left_def main_inv_def)

lemma main_step_left:
  assumes "main_inv err p" "leaving p" "main_step err p l p'"
  shows "main_left p' + (if main_urgent p l then 1 else 0) \<le> main_left p \<and> (leaving p' \<or> pr_main p' = Terminated)"
  using assms(3)
proof cases
  case (app_moves m a)
  have i: "app_inv (pr_app p)" "app_step (pr_app p) m a" using assms(1) app_moves by (auto simp: main_inv_def)
  show ?thesis
  proof (cases "stop_thread (pr_app p) = T_idle")
    case True
    then have "m \<noteq> Ask_stop" using assms(2) app_moves by (auto simp: leaving_def gui_free_def)
    from app_step_idle [OF i(2) True this] show ?thesis
      using True app_moves assms(2) by (simp add: main_left_def leaving_def)
  next
    case False
    from app_step_left [OF i False] show ?thesis using False app_moves assms(2) by (auto simp: main_left_def leaving_def)
  qed
next
  case call_stop
  have i: "app_inv (pr_app p)" "app_step (pr_app p) Ask_stop (app_stop_call (pr_app p))"
    using assms(1) app_step.app_ask_stop by (auto simp: main_inv_def)
  have "shutdown_left (app_stop_call (pr_app p)) \<le> 2087" using shutdown_left_bound app_step_inv [OF i] by blast
  then show ?thesis
    using call_stop stop_call_thread [OF i(1)] app_step_left [OF i] by (auto simp: main_left_def leaving_def)
qed (use assms(2) in \<open>auto simp: main_left_def leaving_def gui_free_def\<close>)

lemma main_run_left:
  assumes "main_run err p n p'" "main_inv err p" "leaving p"
  shows "n + main_left p' \<le> main_left p \<and> (leaving p' \<or> pr_main p' = Terminated)"
  using assms
proof (induction rule: main_run.induct)
  case (main_run_snoc p n p1 l p2)
  then have p1: "n + main_left p1 \<le> main_left p" "leaving p1 \<or> pr_main p1 = Terminated" "main_inv err p1"
    using main_run_inv by blast+
  moreover have "pr_main p1 \<noteq> Terminated" using main_run_snoc.hyps(2) by (auto simp: gui_free_def elim: main_stepE)
  ultimately show ?case using main_step_left [OF p1(3) _ main_run_snoc.hyps(2)] by fastforce
qed simp

lemma leaving_moves:
  assumes "main_inv err p" "leaving p" "\<not> finished (pr_main p)"
  shows "\<exists>l p'. main_urgent p l \<and> main_step err p l p' \<and> l \<noteq> Exec_throws"
proof (cases "stop_thread (pr_app p) \<in> {T_idle, T_done}")
  case False
  then obtain l a where "urgent (pr_app p) l" "app_step (pr_app p) l a"
    using shutdown_moves assms(1) by (fastforce simp: main_inv_def)
  moreover from this(1) have "l \<notin> {Ask_dhcp, Ask_stop}" by auto
  ultimately have "main_step err p (App_moves l) (p\<lparr>pr_app := a\<rparr>)" "main_urgent p (App_moves l)"
    by (auto intro: main_step.app_moves [OF assms(3)])
  then show ?thesis by blast
next
  case True
  have watch: "\<exists>p'. main_step err p Watch_moves p'" if "pr_watch p \<noteq> Watch_done" "stop_thread (pr_app p) = T_done"
    using that assms watch_wakes [OF assms(3)] watch_quits [OF assms(3)] app_inv_wait
    by (cases "pr_watch p") (auto simp: main_inv_def)
  have "\<exists>l p'. main_step err p l p' \<and> l \<in> {Main_moves, Watch_moves}"
  proof (cases "pr_main p")
    case In_exec
    then show ?thesis using True watch exec_quits assms(1,2) by (auto simp: leaving_def main_inv_def gui_free_def)
  next
    case Call_stop
    then show ?thesis using main_step.call_stop by blast
  next
    case In_stop
    then show ?thesis using main_step.stop_returns [OF In_stop] True assms(1) by (auto simp: main_inv_def)
  next
    case Join_watch
    then show ?thesis using watch watch_joined assms(1) by (auto simp: main_inv_def)
  next
    case Save_exit
    then show ?thesis using main_step.save_exit by blast
  qed (use assms(3) in auto)
  then show ?thesis using main_urgent.simps by blast
qed

lemma main_run_step: "main_step err p l p1 \<Longrightarrow> main_run err p1 n p2 \<Longrightarrow> \<exists>m. main_run err p m p2"
proof (rotate_tac 1, induction rule: main_run.induct)
  case (main_run_nil p1)
  then show ?case using main_run.main_run_snoc [OF main_run.main_run_nil] by blast
next
  case (main_run_snoc p1 n b l' c)
  then show ?case using main_run.main_run_snoc by blast
qed

lemma leaving_ends:
  assumes "main_inv err p" "leaving p"
  shows "\<exists>n p' r. main_run err p n p' \<and> pr_main p' = Exited r"
  using assms
proof (induction "main_left p" arbitrary: p rule: less_induct)
  case less
  show ?case
  proof (cases "finished (pr_main p)")
    case True
    then show ?thesis using main_run_nil less.prems(2) by (cases "pr_main p") (auto simp: leaving_def)
  next
    case False
    then obtain l p1 where s: "main_urgent p l" "main_step err p l p1" "l \<noteq> Exec_throws" using leaving_moves less.prems by blast
    have "pr_main p1 \<noteq> Terminated" using s(2,3) by (auto simp: gui_free_def elim!: main_stepE split: if_splits)
    then have "main_left p1 < main_left p" "leaving p1" using main_step_left [OF less.prems s(2)] s(1) by auto
    then show ?thesis using less.hyps [OF _ main_step_inv [OF less.prems(1) s(2)]] main_run_step [OF s(2)] by blast
  qed
qed

lemma main_setup_cases:
  assumes "sends_return w" "atomic_sends w"
  shows "if (\<exists>cfg a. load_config ''config/config.txt'' (config_file m) Config_defaults = Inr cfg \<and>
        app_init (wan_sys m) (lan_sys m) (App_new cfg w k) = (Inr (), a)) \<and> \<not> gui_throws m \<and> stop_efd_ok m \<and> cfg_efd_ok m
     then \<exists>p. main_setup m w k y = Some (Inr p) \<and> main_inv err p \<and> pr_main p = In_exec \<and> stop_thread (pr_app p) = T_idle
     else main_setup m w k y = Some (Inl 1)"
proof (cases "load_config ''config/config.txt'' (config_file m) Config_defaults")
  case (Inl e)
  then show ?thesis by (simp add: main_setup_def)
next
  case (Inr cfg)
  obtain r a0 where i: "app_init (wan_sys m) (lan_sys m) (App_new cfg w k) = (r, a0)" by fastforce
  note keeps = app_init_keeps [OF i, unfolded App_new_simps]
  obtain rp w' y' where s: "selftest_run (fst (get_iface_hwaddr (g_iface_lan cfg) (ap_net a0))) (test_socket m) (net_dir m) w y = Some (rp, w', y')"
    "same_kernel w w'" using selftest_returns [OF assms(1)] .
  define b where "b = a0\<lparr>ap_shared := (ap_shared a0)\<lparr>sh_world := w'\<rparr>\<rparr>"
  let ?start = "app_start (stop_efd_ok m) (cfg_efd_ok m) (frame_efds_ok m) (stop_efds_ok m) (efd_error m) y' b"
  have none: "?start = None \<longleftrightarrow> \<not> (stop_efd_ok m \<and> cfg_efd_ok m)"
    by (auto simp: app_start_def cp_start_def ControlPlane_new_def Let_def split: prod.split)
  have p: "main_setup m w k y = (case r of Inl _ \<Rightarrow> Some (Inl 1) | Inr _ \<Rightarrow> if gui_throws m then Some (Inl 1) else (case ?start of
      None \<Rightarrow> Some (Inl 1)
    | Some a \<Rightarrow> Some (Inr \<lparr>pr_app = a, pr_main = In_exec, pr_watch = Waiting, pr_ret = 0, pr_quit = False, pr_saved = None\<rparr>)))"
    using Inr i s(1) keeps(3) by (simp add: main_setup_def b_def split: sum.split)
  have fin: "app_inv a \<and> forward_engine a \<noteq> None \<and> control_plane a \<noteq> None \<and> stop_thread a = T_idle" if "?start = Some a" for a
    using app_start_inv [OF that] keeps same_kernel_returns [OF s(2)] same_kernel_atomic [OF s(2)] assms by (simp add: b_def)
  show ?thesis
    using none fin Inr i unfolding p by (cases r; cases ?start) (auto simp: main_inv_def)
qed

text \<open>C13: The program runs to its end.  When the configuration file cannot be read, the initialisation fails, Qt throws while the
  dashboard is built, or an \<^verbatim>\<open>eventfd\<close> of the control plane is refused, and only then, the program ends with code 1 before its event
  loop.  Otherwise take any run of the process from its event loop on, with any interleaving of its threads.  Whenever the
  main thread has reached the end, every thread of both planes had ended before the file was written,
  and what was written is the configuration of that moment, if saving was still asked for.  From the moment a shutdown
  is asked for or \<^verbatim>\<open>exec\<close> returns, with any code, at most 2094 more steps are taken by the main thread, by \<^verbatim>\<open>watchdog_notify\<close> or by
  what they wait for; until the process has ended such a step is always possible; and the end is reached.  Only an
  exception out of \<^verbatim>\<open>exec\<close> is excluded: it ends the process at once.\<close>

theorem main_program_ends:
  assumes "sends_return w" "atomic_sends w"
  shows "if (\<exists>cfg a. load_config ''config/config.txt'' (config_file m) Config_defaults = Inr cfg \<and>
        app_init (wan_sys m) (lan_sys m) (App_new cfg w k) = (Inr (), a)) \<and> \<not> gui_throws m \<and> stop_efd_ok m \<and> cfg_efd_ok m
     then \<exists>p0. main_setup m w k y = Some (Inr p0) \<and> (\<forall>n0 p. main_run err p0 n0 p \<longrightarrow>
        (\<forall>r. pr_main p = Exited r \<longrightarrow>
          workers_done (the (forward_engine (pr_app p))) \<and> all_done (the (control_plane (pr_app p))) \<and>
          pr_saved p = main_tail err (sh_cfg (ap_shared (pr_app p)))) \<and>
        (leaving p \<longrightarrow>
          (\<forall>n p'. main_run err p n p' \<longrightarrow>
            n \<le> 2094 \<and> (finished (pr_main p') \<or> (\<exists>l p''. main_urgent p' l \<and> l \<noteq> Exec_throws \<and> main_step err p' l p''))) \<and>
          (\<exists>n p' r. main_run err p n p' \<and> pr_main p' = Exited r)))
     else main_setup m w k y = Some (Inl 1)"
proof -
  have safe: "workers_done (the (forward_engine (pr_app p))) \<and> all_done (the (control_plane (pr_app p))) \<and>
      pr_saved p = main_tail err (sh_cfg (ap_shared (pr_app p)))" if "main_inv err p" "pr_main p = Exited r" for p r
    using that by (auto simp: main_inv_def app_inv_def fe_inv_def cp_inv_def)
  have live: "n \<le> 2094 \<and> (finished (pr_main p') \<or> (\<exists>l p''. main_urgent p' l \<and> l \<noteq> Exec_throws \<and> main_step err p' l p''))"
    if "main_inv err p" "leaving p" "main_run err p n p'" for p n p'
    using main_run_left [OF that(3,1,2)] main_left_bound [OF that(1)] main_run_inv [OF that(3,1)] leaving_moves [of err p']
    by fastforce
  show ?thesis
  proof (cases "(\<exists>cfg a. load_config ''config/config.txt'' (config_file m) Config_defaults = Inr cfg \<and>
      app_init (wan_sys m) (lan_sys m) (App_new cfg w k) = (Inr (), a)) \<and> \<not> gui_throws m \<and> stop_efd_ok m \<and> cfg_efd_ok m")
    case True
    from main_setup_cases [OF assms, of m k y err, unfolded if_P [OF True]]
    obtain p0 where p0: "main_setup m w k y = Some (Inr p0)" "main_inv err p0" by blast
    then show ?thesis unfolding if_P [OF True] using safe live leaving_ends main_run_inv [OF _ p0(2)] by (intro exI [of _ p0]) blast
  next
    case False
    from main_setup_cases [OF assms, of m k y err, unfolded if_not_P [OF False]] show ?thesis unfolding if_not_P [OF False] .
  qed
qed

definition demo_machine :: Machine where
  "demo_machine = \<lparr>config_file = NoEntry, wan_sys = demo_raw, lan_sys = demo_raw, gui_throws = False, test_socket = Some 4,
     net_dir = Some [''eth0''], stop_efd_ok = True, cfg_efd_ok = True, frame_efds_ok = (\<lambda>_. True), stop_efds_ok = (\<lambda>_. True), efd_error = []\<rparr>"

text \<open>A run in which \<^verbatim>\<open>exec\<close> returns 7 without a shutdown having been asked for.\<close>

theorem main_program_ends_witness:
  "\<exists>p0 n p. main_setup demo_machine demo_world demo_net demo_sys = Some (Inr p0) \<and> n \<le> 2094 \<and>
     main_run None (p0\<lparr>pr_ret := 7, pr_main := Call_stop\<rparr>) n p \<and>
     workers_done (the (forward_engine (pr_app p))) \<and> all_done (the (control_plane (pr_app p))) \<and>
     pr_saved p = main_tail None (sh_cfg (ap_shared (pr_app p)))"
proof -
  obtain a0 where i: "app_init demo_raw demo_raw (App_new Config_defaults demo_world demo_net) = (Inr (), a0)"
    using demo_init by (metis prod.collapse)
  have "(\<exists>cfg a. load_config ''config/config.txt'' (config_file demo_machine) Config_defaults = Inr cfg \<and>
      app_init (wan_sys demo_machine) (lan_sys demo_machine) (App_new cfg demo_world demo_net) = (Inr (), a)) \<and>
      \<not> gui_throws demo_machine \<and> stop_efd_ok demo_machine \<and> cfg_efd_ok demo_machine"
    using i by (auto simp: demo_machine_def load_config_def)
  note ok = main_program_ends [OF demo_world_ok, of demo_machine demo_net demo_sys None, unfolded if_P [OF this]]
  then obtain p0 where p0: "main_setup demo_machine demo_world demo_net demo_sys = Some (Inr p0)" by blast
  have g: "gui_free p0"
    using main_setup_cases [OF demo_world_ok, of demo_machine demo_net demo_sys None] p0
    by (auto simp: gui_free_def split: if_splits)
  let ?p = "p0\<lparr>pr_ret := 7, pr_main := Call_stop\<rparr>"
  have r: "main_run None p0 1 ?p" using main_run_snoc [OF main_run_nil exec_returns [OF g]] by simp
  have l: "leaving ?p" by (simp add: leaving_def)
  note all = ok [unfolded p0 option.inject sum.inject simp_thms]
  obtain n p q where e: "main_run None ?p n p" "pr_main p = Exited q" using all r l by blast
  have "\<exists>m. main_run None p0 m p" using main_run_step [OF exec_returns [OF g] e(1)] .
  then have "workers_done (the (forward_engine (pr_app p))) \<and> all_done (the (control_plane (pr_app p))) \<and>
     pr_saved p = main_tail None (sh_cfg (ap_shared (pr_app p)))" using all e(2) by blast
  moreover have "n \<le> 2094" using all r l e(1) by blast
  ultimately show ?thesis using p0 e(1) by blast
qed

section \<open>Leaving\<close>

text \<open>The configuration file after a write, which may not have taken place.\<close>

definition put_file :: "string option \<Rightarrow> file_read \<Rightarrow> file_read" where
  "put_file out old = (case out of None \<Rightarrow> old | Some text \<Rightarrow> Data text)"

lemma load_put:
  assumes "config_ok cfg" "SAVE_ON_EXIT cfg"
  shows "load_config ''config/config.txt'' (put_file (Some (save_text cfg)) old) Config_defaults = Inr cfg"
  using load_saved [OF assms(1), of _ Config_defaults] assms(2) by (cases cfg) (simp add: Config_defaults_def put_file_def)

lemma apply_saves:
  assumes "sh_cfg (pl_shared p) = cfg" "pl_save_error p = None" "parse_ip_str (DHCP_POOL_START cfg) = Inr lo"
    "parse_ip_str (DHCP_POOL_END cfg) = Inr hi" "unat (to_host lo) \<le> unat (to_host hi)"
  shows "pl_saved (applyDhcpConfig p) = Some (save_text cfg)"
proof -
  obtain d err where i: "init_pool lo hi (sh_dhcp (pl_shared p)\<lparr>lease_duration := DHCP_LEASE_DURATION cfg\<rparr>) = (d, err)" by fastforce
  then have "err = None" by (cases rule: init_pool_cases) (use assms(5) in auto)
  then show ?thesis
    using assms i by (simp add: applyDhcpConfig_def dhcp_applied_def reconfigure_def save_config_def Let_def split: prod.split)
qed

text \<open>C19: The configuration file when the program is left. Let every text setting be one that the format can hold (no
  NUL or newline, no carriage return at the end, fewer than 256 characters) and the prefix length and the lease time be
  numbers of 31 and 32 bits. Leaving with Save, the file is written in the dialog and not again at the end of
  \<^verbatim>\<open>main\<close>, and the next start reads back every setting of the configuration (the bandwidth limits are
  not part of it); if that write fails, the file stays as it was, as the end of \<^verbatim>\<open>main\<close> does not try
  again. Leaving without saving, the file stays what it was. Cancelling changes nothing and does not end the program. When the
  program ends without the dialog, the end of \<^verbatim>\<open>main\<close> writes the file, and the next start reads every
  setting back. DHCP settings that have been applied are different: the control plane writes the whole configuration when it
  applies them, so they are read back even when the user then leaves without saving.\<close>

theorem settings_survive_restart:
  assumes "config_ok cfg" "SAVE_ON_EXIT cfg" "on_shutdown_clicked choice err cfg = (cfg', saved, leave)"
  shows "(choice = Save \<longrightarrow> leave \<and> main_tail None cfg' = None \<and>
      (if err = None then load_config ''config/config.txt'' (put_file saved old) Config_defaults = Inr cfg else put_file saved old = old)) \<and>
    (choice = No_save \<longrightarrow> leave \<and> put_file (main_tail None cfg') (put_file saved old) = old) \<and>
    (choice = Cancel \<longrightarrow> \<not> leave \<and> cfg' = cfg \<and> put_file saved old = old) \<and>
    load_config ''config/config.txt'' (put_file (main_tail None cfg) old) Config_defaults = Inr cfg \<and>
    (\<forall>p lo hi. sh_cfg (pl_shared p) = cfg \<and> pl_save_error p = None \<and> parse_ip_str (DHCP_POOL_START cfg) = Inr lo \<and>
       parse_ip_str (DHCP_POOL_END cfg) = Inr hi \<and> unat (to_host lo) \<le> unat (to_host hi) \<and> choice = No_save \<longrightarrow>
       load_config ''config/config.txt''
         (put_file (main_tail None cfg') (put_file saved (put_file (pl_saved (applyDhcpConfig p)) old))) Config_defaults = Inr cfg)"
proof -
  have "pl_saved (applyDhcpConfig p) = Some (save_text cfg)"
    if "sh_cfg (pl_shared p) = cfg" "pl_save_error p = None" "parse_ip_str (DHCP_POOL_START cfg) = Inr lo"
      "parse_ip_str (DHCP_POOL_END cfg) = Inr hi" "unat (to_host lo) \<le> unat (to_host hi)" for p lo hi
    using that by (rule apply_saves)
  moreover have "load_config ''config/config.txt'' (Data (save_text cfg)) Config_defaults = Inr cfg"
    using load_put [OF assms(1,2)] by (simp add: put_file_def)
  ultimately show ?thesis
    using assms(2,3)
    by (auto simp: on_shutdown_clicked_def save_config_def main_tail_def put_file_def split: exit_choice.splits option.splits)
qed

theorem settings_survive_restart_witness:
  "put_file (main_tail None (fst (on_shutdown_clicked No_save None Config_defaults))) NoEntry = NoEntry \<and>
   load_config ''config/config.txt'' (put_file (main_tail None Config_defaults) NoEntry) Config_defaults = Inr Config_defaults \<and>
   load_config ''config/config.txt'' (put_file (fst (snd (on_shutdown_clicked Save None Config_defaults))) NoEntry) Config_defaults
     = Inr Config_defaults \<and>
   load_config ''config/config.txt'' (put_file (main_tail None (fst (on_shutdown_clicked No_save None Config_defaults)))
     (put_file (pl_saved (applyDhcpConfig (demo_plane\<lparr>pl_shared := demo_shared\<lparr>sh_cfg := Config_defaults\<rparr>\<rparr>))) NoEntry)) Config_defaults
     = Inr Config_defaults"
proof -
  let ?p = "demo_plane\<lparr>pl_shared := demo_shared\<lparr>sh_cfg := Config_defaults\<rparr>\<rparr>"
  have "config_ok Config_defaults" "SAVE_ON_EXIT Config_defaults" by (simp_all add: config_ok_def Config_defaults_def plain_def)
  note c = settings_survive_restart [OF this, where old = NoEntry]
  have pool: "unat (to_host 0x320CA8C0) \<le> unat (to_host 0xFF0CA8C0)" "pl_save_error ?p = None"
    "DHCP_POOL_START Config_defaults = ''192.168.12.50''" "DHCP_POOL_END Config_defaults = ''192.168.12.255''"
    by (simp_all add: to_host_def word_eval demo_plane_def Config_defaults_def)
  have n: "on_shutdown_clicked No_save None Config_defaults = (Config_defaults\<lparr>SAVE_ON_EXIT := False\<rparr>, None, True)"
    by (simp add: on_shutdown_clicked_def)
  note 1 = c [OF n]
  have none: "put_file None f = f" for f by (simp add: put_file_def)
  have s: "on_shutdown_clicked Save None Config_defaults = (Config_defaults\<lparr>SAVE_ON_EXIT := False\<rparr>, Some (save_text Config_defaults), True)"
    by (simp add: on_shutdown_clicked_def save_config_def)
  note 2 = c [OF s]
  from 1 [THEN conjunct2, THEN conjunct2, THEN conjunct2, THEN conjunct2, rule_format, of ?p "0x320CA8C0" "0xFF0CA8C0"]
  have "load_config ''config/config.txt'' (put_file (main_tail None (Config_defaults\<lparr>SAVE_ON_EXIT := False\<rparr>))
      (put_file (pl_saved (applyDhcpConfig ?p)) NoEntry)) Config_defaults = Inr Config_defaults"
    using pool demo_pool_text by (simp add: none)
  then show ?thesis using 1 2 unfolding n s by (simp add: none)
qed

text \<open>The bandwidth limits are not among the settings: whatever configuration is loaded, a program whose telemetry is new starts its
  shapers with 500 and 50 megabits per second.\<close>

lemma limits_not_saved:
  assumes "app_init wan lan (App_new cfg w k) = (r, a)" "tel w = Telemetry_init"
  shows "base_mbps (start_shapers a) = (500, 50)"
  using app_init_keeps(3) [OF assms(1)] assms(2)
  by (simp add: App_new_simps start_shapers_def Telemetry_init_def Let_def case_prod_unfold)

end
