(* ===== verification/Handover.thy ===== *)
theory Handover
  imports Dashboard
begin

text \<open>
  Settings on their way from the dashboard to the QoS controller.  The dashboard stores the new values and then raises a
  flag; the controller takes the flag and then reads the values; nothing locks.  Both are threads here: one step is one
  access to an atomic variable of the telemetry, or to a shaper.  In between, the other threads of the program do
  anything that does not touch these variables.
\<close>

section \<open>The two threads\<close>

datatype gui_pc = G_idle | G_dl real real | G_ul real | G_bw | G_accel bool | G_mode

datatype qos_pc =
    Q_idle | Q_accel | Q_cfg bool | Q_eff bool | Q_bridge bool
  | Q_bw | Q_dl | Q_ul | Q_eff_dl | Q_eff_ul | Q_set_dl | Q_set_ul

record Handover =
  ho_shared :: Shared
  ho_base :: "real \<times> real"
  ho_gui :: gui_pc
  ho_qos :: qos_pc

abbreviation ho_tel :: "Handover \<Rightarrow> Telemetry" where
  "ho_tel ho \<equiv> tel (sh_world (ho_shared ho))"

abbreviation set_tel :: "(Telemetry \<Rightarrow> Telemetry) \<Rightarrow> Handover \<Rightarrow> Handover" where
  "set_tel f ho \<equiv> ho\<lparr>ho_shared := upd_tel f (ho_shared ho)\<rparr>"

inductive gui_step :: "Handover \<Rightarrow> Handover \<Rightarrow> bool" where
  gui_apply: "ho_gui ho = G_idle \<Longrightarrow> bw_request qt pg = Some (dl, ul) \<Longrightarrow> gui_step ho (ho\<lparr>ho_gui := G_dl dl ul\<rparr>)"
| gui_dl: "ho_gui ho = G_dl dl ul \<Longrightarrow> gui_step ho (set_tel (\<lambda>t. t\<lparr>qos_global_dl_mbps_pending := dl\<rparr>) ho\<lparr>ho_gui := G_ul ul\<rparr>)"
| gui_ul: "ho_gui ho = G_ul ul \<Longrightarrow> gui_step ho (set_tel (\<lambda>t. t\<lparr>qos_global_ul_mbps_pending := ul\<rparr>) ho\<lparr>ho_gui := G_bw\<rparr>)"
| gui_bw: "ho_gui ho = G_bw \<Longrightarrow> gui_step ho (set_tel (\<lambda>t. t\<lparr>qos_global_bw_dirty := True\<rparr>) ho\<lparr>ho_gui := G_idle\<rparr>)"
| gui_toggle: "ho_gui ho = G_idle \<Longrightarrow> gui_step ho (ho\<lparr>ho_gui := G_accel (checked (sw_acceleration (pg :: QosPage)))\<rparr>)"
| gui_accel: "ho_gui ho = G_accel on \<Longrightarrow> gui_step ho (set_tel (\<lambda>t. t\<lparr>acceleration_pending := on\<rparr>) ho\<lparr>ho_gui := G_mode\<rparr>)"
| gui_mode: "ho_gui ho = G_mode \<Longrightarrow> gui_step ho (set_tel (\<lambda>t. t\<lparr>mode_config_dirty := True\<rparr>) ho\<lparr>ho_gui := G_idle\<rparr>)"

text \<open>\<^verbatim>\<open>QosController::tick1Hz\<close>, one access at a time; \<open>Q_idle\<close> is between two ticks.\<close>

definition qos_next :: "Handover \<Rightarrow> Handover" where
  "qos_next ho =
     (case ho_qos ho of
        Q_idle \<Rightarrow>
          if mode_config_dirty (ho_tel ho) then set_tel (\<lambda>t. t\<lparr>mode_config_dirty := False\<rparr>) ho\<lparr>ho_qos := Q_accel\<rparr>
          else ho\<lparr>ho_qos := Q_bw\<rparr>
      | Q_accel \<Rightarrow> ho\<lparr>ho_qos := Q_cfg (acceleration_pending (ho_tel ho))\<rparr>
      | Q_cfg on \<Rightarrow> ho\<lparr>ho_shared := (ho_shared ho)\<lparr>sh_cfg := (sh_cfg (ho_shared ho))\<lparr>ENABLE_ACCELERATION := on\<rparr>\<rparr>, ho_qos := Q_eff on\<rparr>
      | Q_eff on \<Rightarrow> set_tel (\<lambda>t. t\<lparr>effective_acceleration := on\<rparr>) ho\<lparr>ho_qos := Q_bridge on\<rparr>
      | Q_bridge on \<Rightarrow> set_tel (\<lambda>t. t\<lparr>effective_bridge_mode := \<not> on\<rparr>) ho\<lparr>ho_qos := Q_bw\<rparr>
      | Q_bw \<Rightarrow>
          if qos_global_bw_dirty (ho_tel ho) then set_tel (\<lambda>t. t\<lparr>qos_global_bw_dirty := False\<rparr>) ho\<lparr>ho_qos := Q_dl\<rparr>
          else ho\<lparr>ho_qos := Q_idle\<rparr>
      | Q_dl \<Rightarrow> ho\<lparr>ho_base := (qos_global_dl_mbps_pending (ho_tel ho), snd (ho_base ho)), ho_qos := Q_ul\<rparr>
      | Q_ul \<Rightarrow> ho\<lparr>ho_base := (fst (ho_base ho), qos_global_ul_mbps_pending (ho_tel ho)), ho_qos := Q_eff_dl\<rparr>
      | Q_eff_dl \<Rightarrow> set_tel (\<lambda>t. t\<lparr>effective_qos_global_dl_mbps := fst (ho_base ho)\<rparr>) ho\<lparr>ho_qos := Q_eff_ul\<rparr>
      | Q_eff_ul \<Rightarrow> set_tel (\<lambda>t. t\<lparr>effective_qos_global_ul_mbps := snd (ho_base ho)\<rparr>) ho\<lparr>ho_qos := Q_set_dl\<rparr>
      | Q_set_dl \<Rightarrow>
          ho\<lparr>ho_shared := (ho_shared ho)\<lparr>sh_shapers := (sh_shapers (ho_shared ho))
               (0 := set_rate_limit (fst (ho_base ho)) (sh_shapers (ho_shared ho) 0))\<rparr>, ho_qos := Q_set_ul\<rparr>
      | Q_set_ul \<Rightarrow>
          ho\<lparr>ho_shared := (ho_shared ho)\<lparr>sh_shapers := (sh_shapers (ho_shared ho))
               (1 := set_rate_limit (snd (ho_base ho)) (sh_shapers (ho_shared ho) 1))\<rparr>, ho_qos := Q_idle\<rparr>)"

text \<open>The rate a bucket has from its next refill on.\<close>

definition bucket_rate :: "TokenBucket \<Rightarrow> real" where
  "bucket_rate b = (if requested_limit b \<ge> 0 then requested_limit b * 1000000 / 8 else rate_bytes_per_sec b)"

definition shaper_rate :: "Shared \<Rightarrow> nat \<Rightarrow> real" where
  "shaper_rate s i = bucket_rate (bucket (sh_shapers s i))"

text \<open>The variables of the handover.\<close>

definition mode_settings :: "Shared \<Rightarrow> bool \<times> bool \<times> bool \<times> bool \<times> bool" where
  "mode_settings s =
     (let t = tel (sh_world s) in
      (mode_config_dirty t, acceleration_pending t, ENABLE_ACCELERATION (sh_cfg s), effective_acceleration t, effective_bridge_mode t))"

definition bw_settings :: "Shared \<Rightarrow> bool \<times> real \<times> real \<times> real \<times> real \<times> real \<times> real" where
  "bw_settings s =
     (let t = tel (sh_world s) in
      (qos_global_bw_dirty t, qos_global_dl_mbps_pending t, qos_global_ul_mbps_pending t,
       effective_qos_global_dl_mbps t, effective_qos_global_ul_mbps t, shaper_rate s 0, shaper_rate s 1))"

inductive ho_step :: "Handover \<Rightarrow> Handover \<Rightarrow> bool" where
  ho_gui: "gui_step ho ho' \<Longrightarrow> ho_step ho ho'"
| ho_qos: "ho_step ho (qos_next ho)"
| ho_other: "mode_settings s = mode_settings (ho_shared ho) \<Longrightarrow> bw_settings s = bw_settings (ho_shared ho) \<Longrightarrow> ho_step ho (ho\<lparr>ho_shared := s\<rparr>)"

section \<open>What holds at every moment\<close>

text \<open>While the controller works, what it has already written is right, unless the dashboard is about to raise the flag.\<close>

fun mode_ok :: "bool \<times> bool \<times> bool \<times> bool \<times> bool \<Rightarrow> gui_pc \<Rightarrow> qos_pc \<Rightarrow> bool" where
  "mode_ok (dirty, on, cfg, eff, bridge) g q =
     (dirty \<or> g = G_mode \<or>
      (case q of
         Q_accel \<Rightarrow> True
       | Q_cfg a \<Rightarrow> a = on
       | Q_eff a \<Rightarrow> a = on \<and> cfg = on
       | Q_bridge a \<Rightarrow> a = on \<and> cfg = on \<and> eff = on
       | _ \<Rightarrow> cfg = on \<and> eff = on \<and> bridge = (\<not> on)))"

definition gui_storing :: "gui_pc \<Rightarrow> bool" where
  "gui_storing g = (case g of G_ul _ \<Rightarrow> True | G_bw \<Rightarrow> True | _ \<Rightarrow> False)"

definition mbit :: "real \<Rightarrow> real" where
  "mbit r = r * 1000000 / 8"

fun bw_ok :: "bool \<times> real \<times> real \<times> real \<times> real \<times> real \<times> real \<Rightarrow> real \<times> real \<Rightarrow> gui_pc \<Rightarrow> qos_pc \<Rightarrow> bool" where
  "bw_ok (dirty, dl, ul, eff_dl, eff_ul, r0, r1) base g q =
     (dirty \<or> gui_storing g \<or>
      (case q of
         Q_dl \<Rightarrow> True
       | Q_ul \<Rightarrow> fst base = dl
       | Q_eff_dl \<Rightarrow> base = (dl, ul)
       | Q_eff_ul \<Rightarrow> base = (dl, ul) \<and> eff_dl = dl
       | Q_set_dl \<Rightarrow> base = (dl, ul) \<and> eff_dl = dl \<and> eff_ul = ul
       | Q_set_ul \<Rightarrow> base = (dl, ul) \<and> eff_dl = dl \<and> eff_ul = ul \<and> r0 = mbit dl
       | _ \<Rightarrow> base = (dl, ul) \<and> eff_dl = dl \<and> eff_ul = ul \<and> r0 = mbit dl \<and> r1 = mbit ul))"

text \<open>The rates are not negative, wherever they are.\<close>

fun bw_pos :: "bool \<times> real \<times> real \<times> real \<times> real \<times> real \<times> real \<Rightarrow> real \<times> real \<Rightarrow> gui_pc \<Rightarrow> bool" where
  "bw_pos (dirty, dl, ul, eff_dl, eff_ul, r0, r1) base g =
     (0 \<le> dl \<and> 0 \<le> ul \<and> 0 \<le> fst base \<and> 0 \<le> snd base \<and>
      (case g of G_dl a b \<Rightarrow> 0 \<le> a \<and> 0 \<le> b | G_ul b \<Rightarrow> 0 \<le> b | _ \<Rightarrow> True))"

definition ho_inv :: "Handover \<Rightarrow> bool" where
  "ho_inv ho \<longleftrightarrow> mode_ok (mode_settings (ho_shared ho)) (ho_gui ho) (ho_qos ho) \<and>
     bw_ok (bw_settings (ho_shared ho)) (ho_base ho) (ho_gui ho) (ho_qos ho) \<and>
     bw_pos (bw_settings (ho_shared ho)) (ho_base ho) (ho_gui ho)"

lemma bw_request_pos: "bw_request qt pg = Some (dl, ul) \<Longrightarrow> 0 \<le> dl \<and> 0 \<le> ul"
  by (auto simp: bw_request_def split: if_splits option.splits)

lemma shaper_rate_set [simp]: "0 \<le> r \<Longrightarrow> bucket_rate (bucket (set_rate_limit r sh)) = mbit r"
  by (simp add: bucket_rate_def set_rate_limit_def set_rate_def mbit_def)

lemmas ho_defs = ho_inv_def mode_settings_def bw_settings_def gui_storing_def shaper_rate_def Let_def

lemma gui_step_inv:
  assumes "gui_step ho ho'" "ho_inv ho"
  shows "ho_inv ho'"
  using assms
proof cases
  case (gui_apply qt pg dl ul)
  then show ?thesis using assms(2) bw_request_pos [of qt pg dl ul] by (simp add: ho_defs)
qed (use assms(2) in \<open>cases "ho_qos ho"; simp add: ho_defs\<close>)+

lemma qos_next_inv:
  assumes "ho_inv ho"
  shows "ho_inv (qos_next ho)"
  using assms by (cases "ho_qos ho") (auto simp: ho_defs qos_next_def)

lemma ho_step_inv: "ho_step ho ho' \<Longrightarrow> ho_inv ho \<Longrightarrow> ho_inv ho'"
  by (auto elim!: ho_step.cases intro: gui_step_inv qos_next_inv) (simp add: ho_inv_def)

lemma ho_run_inv: "ho_step\<^sup>*\<^sup>* ho ho' \<Longrightarrow> ho_inv ho \<Longrightarrow> ho_inv ho'"
  by (induction rule: rtranclp_induct) (auto intro: ho_step_inv)

text \<open>A shaper at work, the only other writer of a bucket, keeps the rate: it only puts a requested one in force.\<close>

lemma bucket_rate_consume: "bucket_rate (fst (snd (try_consume n b w))) = bucket_rate b"
  by (auto simp: try_consume_def refill_def apply_new_rate_def bucket_rate_def steady_now_def Let_def)

lemma bucket_rate_refund [simp]: "bucket_rate (refund n b) = bucket_rate b"
  by (simp add: refund_def bucket_rate_def)

lemma bucket_rate_handler: "bucket_rate (bucket (fst (result_handler res n sh w))) = bucket_rate (bucket sh)"
  by (cases res) simp_all

lemma process_queue_rate:
  assumes "process_queue fd sh w = Some (sh', w')"
  shows "bucket_rate (bucket sh') = bucket_rate (bucket sh)"
proof -
  have "case (sh', w') of (sh', w') \<Rightarrow> bucket_rate (bucket sh') = bucket_rate (bucket sh)"
  proof (rule process_queue.raw_induct [OF _ assms], goal_cases)
    case (1 pq fd sh w r)
    obtain ok b v where c: "try_consume (length (zrb_front (normal_queue sh))) (bucket sh) w = (ok, b, v)" by (metis prod_cases3)
    have b: "bucket_rate b = bucket_rate (bucket sh)" using bucket_rate_consume [of "length (zrb_front (normal_queue sh))" "bucket sh" w] c by simp
    have IH: "bucket_rate (bucket (fst r)) = bucket_rate (bucket sh)" if "pq fd sh w = Some r" for fd sh w r
      using 1(1) [OF that] by (simp add: case_prod_unfold)
    show ?case using 1(2) b
      by (auto simp: c Let_def bind_eq_Some_conv case_prod_unfold bucket_rate_handler dest!: IH split: if_splits)
  qed
  then show ?thesis by simp
qed

section \<open>One tick\<close>

lemma qos_next_gui [simp]: "ho_gui (qos_next ho) = ho_gui ho"
  by (cases "ho_qos ho") (auto simp: qos_next_def)

lemma qos_nexts_gui [simp]: "ho_gui ((qos_next ^^ n) ho) = ho_gui ho"
  by (induction n) auto

lemma qos_nexts_inv: "ho_inv ho \<Longrightarrow> ho_inv ((qos_next ^^ n) ho)"
  by (induction n) (auto intro: qos_next_inv)

text \<open>Undisturbed, the steps of a tick make up \<^const>\<open>qos_tick1Hz\<close>.\<close>

lemma qos_steps_tick:
  assumes "ho_qos ho = Q_idle" "qos_tick1Hz (ho_base ho) (ho_shared ho) = (base, s)"
  obtains n where "(qos_next ^^ n) ho = ho\<lparr>ho_shared := s, ho_base := base\<rparr>"
proof -
  define n :: nat where "n = (if mode_config_dirty (ho_tel ho) then 6 else 2) + (if qos_global_bw_dirty (ho_tel ho) then 6 else 0)"
  obtain sh b g where ho: "ho = \<lparr>ho_shared = sh, ho_base = b, ho_gui = g, ho_qos = Q_idle\<rparr>" using assms(1) by (cases ho) simp
  have "(qos_next ^^ n) ho = ho\<lparr>ho_shared := s, ho_base := base\<rparr>"
    using assms(2) unfolding n_def ho
    by (cases "mode_config_dirty (tel (sh_world sh))"; cases "qos_global_bw_dirty (tel (sh_world sh))")
      (auto simp: numeral_eq_Suc qos_next_def qos_tick1Hz_def qos_mode_def Let_def)
  then show thesis by (rule that)
qed

fun steps_left :: "qos_pc \<Rightarrow> nat" where
  "steps_left Q_idle = 0" | "steps_left Q_set_ul = 1" | "steps_left Q_set_dl = 2" | "steps_left Q_eff_ul = 3"
| "steps_left Q_eff_dl = 4" | "steps_left Q_ul = 5" | "steps_left Q_dl = 6" | "steps_left Q_bw = 7"
| "steps_left (Q_bridge _) = 8" | "steps_left (Q_eff _) = 9" | "steps_left (Q_cfg _) = 10" | "steps_left Q_accel = 11"

lemma tick_ends: "\<exists>m. ho_qos ((qos_next ^^ m) ho) = Q_idle"
proof (induction "steps_left (ho_qos ho)" arbitrary: ho rule: less_induct)
  case less
  show ?case
  proof (cases "ho_qos ho = Q_idle")
    case False
    then have "steps_left (ho_qos (qos_next ho)) < steps_left (ho_qos ho)" by (cases "ho_qos ho") (auto simp: qos_next_def)
    from less [OF this] obtain m where "ho_qos ((qos_next ^^ m) (qos_next ho)) = Q_idle" by blast
    then have "ho_qos ((qos_next ^^ Suc m) ho) = Q_idle" by (simp add: funpow_swap1)
    then show ?thesis by blast
  qed (auto intro: exI [of _ 0])
qed

definition settings_applied :: "Handover \<Rightarrow> bool" where
  "settings_applied ho \<longleftrightarrow>
     (let s = ho_shared ho; t = ho_tel ho; on = acceleration_pending t; dl = qos_global_dl_mbps_pending t; ul = qos_global_ul_mbps_pending t in
      ENABLE_ACCELERATION (sh_cfg s) = on \<and> effective_acceleration t = on \<and> effective_bridge_mode t = (\<not> on) \<and>
      effective_qos_global_dl_mbps t = dl \<and> effective_qos_global_ul_mbps t = ul \<and>
      shaper_rate s 0 = mbit dl \<and> shaper_rate s 1 = mbit ul)"

lemma settled:
  assumes "ho_inv ho" "ho_gui ho = G_idle" "ho_qos ho = Q_idle" "\<not> mode_config_dirty (ho_tel ho)" "\<not> qos_global_bw_dirty (ho_tel ho)"
  shows "settings_applied ho"
  using assms by (simp add: ho_inv_def mode_settings_def bw_settings_def gui_storing_def settings_applied_def Let_def)

definition pending_settings :: "Handover \<Rightarrow> bool \<times> real \<times> real" where
  "pending_settings ho = (let t = ho_tel ho in (acceleration_pending t, qos_global_dl_mbps_pending t, qos_global_ul_mbps_pending t))"

lemma qos_next_pending [simp]: "pending_settings (qos_next ho) = pending_settings ho"
  by (cases "ho_qos ho") (auto simp: qos_next_def pending_settings_def Let_def)

lemma qos_nexts_pending [simp]: "pending_settings ((qos_next ^^ n) ho) = pending_settings ho"
  by (induction n) auto

lemma tick_settles:
  assumes "ho_inv ho" "ho_gui ho = G_idle"
  obtains n where "settings_applied ((qos_next ^^ n) ho)"
proof -
  obtain m where m: "ho_qos ((qos_next ^^ m) ho) = Q_idle" using tick_ends by blast
  let ?h = "(qos_next ^^ m) ho"
  obtain base s where t: "qos_tick1Hz (ho_base ?h) (ho_shared ?h) = (base, s)" by fastforce
  obtain n where n: "(qos_next ^^ n) ?h = ?h\<lparr>ho_shared := s, ho_base := base\<rparr>" using qos_steps_tick [OF m t] .
  have "\<not> mode_config_dirty (tel (sh_world s))" "\<not> qos_global_bw_dirty (tel (sh_world s))"
    using t by (auto simp: qos_tick1Hz_def qos_mode_def Let_def split: if_splits)
  moreover have "ho_inv ((qos_next ^^ (n + m)) ho)" using qos_nexts_inv [OF assms(1)] .
  ultimately have "settings_applied ((qos_next ^^ (n + m)) ho)"
    using n m assms(2) by (intro settled) (auto simp: funpow_add)
  then show thesis by (rule that)
qed

text \<open>C6: Settings of the dashboard are never lost and never stay half applied.  Start with settings in force, and let the dashboard,
  the controller and the other threads interleave in any way: whenever the dashboard and the controller are idle and no
  flag is up, the settings the dashboard last stored are the ones in force, in the telemetry, the configuration and both
  shapers.  And whenever the dashboard is idle, the controller needs only its own steps to get there.\<close>

theorem settings_handover:
  assumes "ho_step\<^sup>*\<^sup>* ho0 ho" "ho_gui ho0 = G_idle" "ho_qos ho0 = Q_idle" "settings_applied ho0"
    and "ho_base ho0 = snd (pending_settings ho0)" "0 \<le> fst (ho_base ho0)" "0 \<le> snd (ho_base ho0)" "ho_gui ho = G_idle"
  shows "(ho_qos ho = Q_idle \<and> \<not> mode_config_dirty (ho_tel ho) \<and> \<not> qos_global_bw_dirty (ho_tel ho) \<longrightarrow> settings_applied ho) \<and>
    (\<exists>n. settings_applied ((qos_next ^^ n) ho) \<and> pending_settings ((qos_next ^^ n) ho) = pending_settings ho)"
proof -
  have "ho_inv ho0"
    using assms(2-7) by (simp add: ho_inv_def mode_settings_def bw_settings_def gui_storing_def settings_applied_def pending_settings_def Let_def)
  then have inv: "ho_inv ho" using ho_run_inv [OF assms(1)] by blast
  obtain n where "settings_applied ((qos_next ^^ n) ho)" using tick_settles [OF inv assms(8)] .
  then show ?thesis using settled [OF inv assms(8)] by auto
qed

text \<open>The dashboard turns the acceleration off.\<close>

definition demo_handover :: Handover where
  "demo_handover =
     \<lparr>ho_shared = demo_shared\<lparr>sh_shapers := (\<lambda>i. set_rate_limit (if i = 0 then 500 else 50) demo_shaper),
                   sh_cfg := Config_defaults\<lparr>ENABLE_ACCELERATION := True\<rparr>\<rparr>,
      ho_base = (500, 50), ho_gui = G_idle, ho_qos = Q_idle\<rparr>"

definition demo_switched :: Handover where
  "demo_switched =
     set_tel (\<lambda>t. t\<lparr>mode_config_dirty := True\<rparr>) (set_tel (\<lambda>t. t\<lparr>acceleration_pending := False\<rparr>) demo_handover)"

lemma demo_switched_reached: "ho_step\<^sup>*\<^sup>* demo_handover demo_switched"
proof -
  let ?pg = "\<lparr>sw_acceleration = \<lparr>checked = False\<rparr>, edit_dl_limit = [], edit_ul_limit = []\<rparr>"
  have 1: "gui_step demo_handover (demo_handover\<lparr>ho_gui := G_accel False\<rparr>)"
    using gui_toggle [of demo_handover ?pg] by (simp add: demo_handover_def)
  have 2: "gui_step (demo_handover\<lparr>ho_gui := G_accel False\<rparr>)
      (set_tel (\<lambda>t. t\<lparr>acceleration_pending := False\<rparr>) demo_handover\<lparr>ho_gui := G_mode\<rparr>)"
    using gui_accel [of "demo_handover\<lparr>ho_gui := G_accel False\<rparr>" False] by simp
  have 3: "gui_step (set_tel (\<lambda>t. t\<lparr>acceleration_pending := False\<rparr>) demo_handover\<lparr>ho_gui := G_mode\<rparr>) demo_switched"
    using gui_mode [of "set_tel (\<lambda>t. t\<lparr>acceleration_pending := False\<rparr>) demo_handover\<lparr>ho_gui := G_mode\<rparr>"]
    by (simp add: demo_switched_def demo_handover_def)
  show ?thesis
    by (rule converse_rtranclp_into_rtranclp [OF ho_step.ho_gui [OF 1] converse_rtranclp_into_rtranclp
          [OF ho_step.ho_gui [OF 2] r_into_rtranclp [of ho_step, OF ho_step.ho_gui [OF 3]]]])
qed

theorem settings_handover_witness:
  "\<exists>n. effective_bridge_mode (ho_tel ((qos_next ^^ n) demo_switched)) \<and>
     \<not> ENABLE_ACCELERATION (sh_cfg (ho_shared ((qos_next ^^ n) demo_switched)))"
proof -
  have 1: "ho_gui demo_handover = G_idle" "ho_qos demo_handover = Q_idle" "ho_base demo_handover = (500, 50)" "ho_gui demo_switched = G_idle"
    by (simp_all add: demo_handover_def demo_switched_def)
  have 2: "settings_applied demo_handover" "pending_settings demo_handover = (True, 500, 50)" "\<not> fst (pending_settings demo_switched)"
    by (simp_all add: settings_applied_def pending_settings_def demo_handover_def demo_switched_def demo_shared_def demo_world_def
        Telemetry_init_def shaper_rate_def Let_def)
  obtain n where "settings_applied ((qos_next ^^ n) demo_switched)" "\<not> fst (pending_settings ((qos_next ^^ n) demo_switched))"
    using settings_handover [OF demo_switched_reached 1(1,2) 2(1)] 1 2 by auto
  then show ?thesis by (auto simp: settings_applied_def pending_settings_def Let_def)
qed

end
