(* ===== verification/Dashboard_View.thy ===== *)
theory Dashboard_View
  imports Dashboard_Correct
begin

text \<open>
  What the dashboard shows when it is built, which keys a keypad has, and what a plot draws.  A conversion to \<^verbatim>\<open>int\<close> cuts off the
  fraction.  Colours, fonts and the placing of widgets are left out.
\<close>

section \<open>Construction\<close>

definition OverviewPage_new :: OverviewPage where
  "OverviewPage_new =
     \<lparr>high_plot = set_fixed_max 9 RealTimePlot_new, normal_plot = set_fixed_max 900 RealTimePlot_new,
      core_text = (\<lambda>i. ''Core '' @ dec i @ [CHR 0x0A] @ ''0%''), core_colour = (\<lambda>_. []), lbl_mode = ''Mode: Acceleration'',
      lbl_hostname = ''--'', lbl_kernel = ''--'', lbl_cpu_temp = ''--'', lbl_uptime = ''--'', lbl_memory = ''--''\<rparr>"

definition QosPage_new :: "Qt \<Rightarrow> Telemetry \<Rightarrow> QosPage" where
  "QosPage_new qt t =
     \<lparr>sw_acceleration = switch_set (effective_acceleration t) \<lparr>checked = False\<rparr>,
      edit_dl_limit = number_g qt (qos_global_dl_mbps_pending t), edit_ul_limit = number_g qt (qos_global_ul_mbps_pending t)\<rparr>"

text \<open>The number of the timer and the time are answers of the system.  The header shows dashes until the first tick; its rates
  count from then on.\<close>

definition Dashboard_new :: "Qt \<Rightarrow> Telemetry \<Rightarrow> int \<Rightarrow> int \<Rightarrow> Dashboard" where
  "Dashboard_new qt t timer now =
     (let db = \<lparr>current_index = 0, page_overview = OverviewPage_new, page_qos = QosPage_new qt t, page_devices = DevicePage_new,
            hdr_info = (0, 0, 0), last_bytes = (\<lambda>_. 0), last_high_bytes = 0, last_normal_bytes = 0, plot_timer_id = -1,
            plot_tick = 0, plot_last_tick = now\<rparr>;
          db = run_page_enter_refresh qt t 0 db
      in db\<lparr>plot_timer_id := timer\<rparr>)"

definition TABS :: "(string \<times> nat) list" where
  "TABS = [(''Overview'', 0), (''QoS'', 1), (''Services'', 2), (''Devices'', 3)]"

section \<open>The keys of a keypad\<close>

definition numpad_keys :: "bool \<Rightarrow> bool \<Rightarrow> numpad_key list" where
  "numpad_keys neg decimal =
     map Digit ''789456123'' @
     (if neg \<and> \<not> decimal then [Digit (CHR ''0''), Minus, Backspace]
      else if \<not> neg \<and> decimal then [Digit (CHR ''0''), Dot, Backspace]
      else [Digit (CHR ''0''), Backspace])"

section \<open>What a plot draws\<close>

definition to_int :: "real \<Rightarrow> int" where
  "to_int x = (if x < 0 then - \<lfloor>- x\<rfloor> else \<lfloor>x\<rfloor>)"

text \<open>The height of each grid line and its label.\<close>

definition plot_grid :: "RealTimePlot \<Rightarrow> int \<Rightarrow> (int \<times> string) list" where
  "plot_grid p height =
     (let mt = 6; mb = 6; ph = height - mt - mb; y_max = plot_y_max p; use_k = (y_max \<ge> 10000)
      in map (\<lambda>i.
           let ratio = real i / 5; iy = mt + ph - to_int (ratio * real_of_int ph)
           in (iy, if i = 0 then ''0''
                   else if use_k then dec_int (to_int (y_max * ratio / 1000)) @ ''K''
                   else dec_int (to_int (y_max * ratio)))) [0..<6])"

text \<open>Everything is drawn inside the plot area, whatever the samples are.\<close>

lemma plot_in_area:
  assumes "0 < plot_y_max p" "(x, y) \<in> set (plot_polyline p width height)"
  shows "50 \<le> x \<and> x < real_of_int width \<and> 6 \<le> y \<and> y \<le> real_of_int (height - 6)"
proof -
  let ?ph = "height - 12"
  have s: "0 < width - 50" "0 < ?ph" using assms(2) by (auto simp: plot_polyline_def Let_def split: if_splits)
  obtain col where c: "col < nat (width - 50)" "(x, y) = plot_point p (nat (width - 50)) ?ph col"
    using assms(2) s by (auto simp: plot_polyline_def Let_def)
  define v where "v = plot_sample p (nat (width - 50)) col"
  define norm where "norm = (if v < 0 then 0 else if v > plot_y_max p then 1 else v / plot_y_max p)"
  have n: "0 \<le> norm" "norm \<le> 1" using assms(1) by (auto simp: norm_def)
  have "x = 50 + real col" "y = 6 + real_of_int ?ph - norm * real_of_int ?ph"
    using c(2) by (simp_all add: plot_point_def Let_def norm_def v_def)
  moreover have "0 \<le> norm * real_of_int ?ph" using n(1) s(2) by simp
  moreover have "norm * real_of_int ?ph \<le> real_of_int ?ph" using n(2) s(2) mult_right_mono [OF n(2), of "real_of_int ?ph"] by simp
  moreover have "real col < real_of_int (width - 50)" using c(1) s(1) by linarith
  ultimately show ?thesis by simp
qed

text \<open>A sample that is a multiple of a fifth of the scale is drawn within one pixel above its grid line.\<close>

lemma plot_on_grid:
  assumes "0 < plot_y_max p" "0 \<le> ph" "i < 6" "plot_sample p cols col = real i / 5 * plot_y_max p"
  shows "\<exists>x y. plot_point p cols ph col = (x, y) \<and> y \<le> real_of_int (fst (plot_grid p (ph + 12) ! i)) \<and>
    real_of_int (fst (plot_grid p (ph + 12) ! i)) < y + 1"
proof -
  define r where "r = real i / 5"
  have r: "0 \<le> r" "r \<le> 1" using assms(3) by (simp_all add: r_def)
  have "\<not> r * plot_y_max p < 0" "\<not> r * plot_y_max p > plot_y_max p"
    using r assms(1) mult_right_mono [OF r(2), of "plot_y_max p"] by (simp_all add: not_less)
  then have y: "plot_point p cols ph col = (50 + real col, 6 + real_of_int ph - r * real_of_int ph)"
    using assms(1,4) by (simp add: plot_point_def Let_def r_def [symmetric])
  have g: "fst (plot_grid p (ph + 12) ! i) = 6 + ph - \<lfloor>r * real_of_int ph\<rfloor>"
    using assms(3) mult_nonneg_nonneg [of "real i" "real_of_int ph"] assms(2) by (simp add: plot_grid_def Let_def to_int_def r_def not_less [symmetric])
  have "6 + real_of_int ph - r * real_of_int ph \<le> real_of_int (6 + ph - \<lfloor>r * real_of_int ph\<rfloor>)"
    "real_of_int (6 + ph - \<lfloor>r * real_of_int ph\<rfloor>) < 6 + real_of_int ph - r * real_of_int ph + 1" by linarith+
  then show ?thesis unfolding y g by blast
qed

end
