(* ===== verification/Spec2Isabelle.thy ===== *)
theory Spec2Isabelle
  imports Main_Program Handover Dashboard_View
begin

text \<open>
  Verification development of the High-Performance Gaming Traffic Prioritizer, a userspace software router in C++ for a
  four-core board with a touch screen (\<^verbatim>\<open>src/\<close> and \<^verbatim>\<open>include/\<close> of the repository).

  \<^bold>\<open>The program.\<close>  \<^verbatim>\<open>main.cpp\<close> loads the configuration, initialises the application (\<^verbatim>\<open>App\<close>), runs a self-test, starts the
  application and hands over to the event loop of the dashboard.  The application owns the engines (NAT, DHCP server,
  two traffic shapers, forwarding state) and runs two planes on them.  The data plane (\<^verbatim>\<open>Forward_Engine\<close> in \<^verbatim>\<open>App.cpp\<close>) has two
  workers, one per direction, each with a receiving and a processing thread: a frame goes from the receive ring of a
  packet socket through a lock-free queue into a pipeline that takes DHCP requests aside, translates addresses, rewrites
  link addresses and sends the frame at once or queues it in the shaper.  The control plane (\<^verbatim>\<open>ControlPlane.cpp\<close>) has six service
  threads that tick (telemetry, link addresses, WAN address, DHCP, QoS, NAT clock) and a thread for requests of the
  dashboard.  The dashboard reads telemetry, and writes settings that the QoS service and the request thread pick up.

  \<^bold>\<open>Theories and code.\<close>  One theory per component holds the definitions in the order of the code; a theory
  \<open>X_Correct\<close> beside it holds the properties of it.

  \<^item> \<open>Prelude\<close>: byte lists, loads and stores, byte order, shared lemmas on words, lists and options; the collections of
    simplification rules.
  \<^item> \<open>Headers_Util\<close> (\<^verbatim>\<open>Headers_util.hpp\<close>): header layouts and the frame parser.  \<open>Ring_Buffers\<close>: \<^verbatim>\<open>SpscRingBuffer\<close>, also as
    interleaved steps of its two threads, and \<^verbatim>\<open>ZeroAllocRingBuffer\<close>.  \<open>Types_Util\<close> (\<^verbatim>\<open>Types_util.cpp\<close>): textual addresses.
  \<^item> \<open>Processor\<close> (\<^verbatim>\<open>Processor.hpp\<close>): the priority of a frame.  \<open>Checksum\<close>, \<open>NatEngine\<close>, \<open>Nat_Sessions\<close>, \<open>Nat_Correct\<close>
    (\<^verbatim>\<open>NatEngine.cpp\<close>): incremental checksums, session tables, translation in both directions.
  \<^item> \<open>Telemetry\<close>, \<open>TxFrame\<close> (\<^verbatim>\<open>TxFrameOutput_util.cpp\<close>), \<open>Scheduler\<close> (\<^verbatim>\<open>Scheduler_util.cpp\<close>): counters, the three senders, token
    bucket and shaper.
  \<^item> \<open>Config\<close> (\<^verbatim>\<open>Config.cpp\<close>), \<open>DhcpEngine\<close>, \<open>Dhcp_Reply\<close>, \<open>Dhcp_Correct\<close> (\<^verbatim>\<open>DhcpEngine.cpp\<close>), \<open>Network_Util\<close>, \<open>Network_Correct\<close>
    (\<^verbatim>\<open>Network_util.cpp\<close>), \<open>ForwardingState\<close>, \<open>NetworkConfig\<close>, \<open>RawSocket\<close>, \<open>Events\<close> (callback registry and lifecycle).
  \<^item> \<open>ForwardEngine\<close>, \<open>Forward_Correct\<close> (the pipeline in \<^verbatim>\<open>App.cpp\<close>), \<open>Workers\<close>, \<open>Workers_Correct\<close> (the threads of the data plane).
  \<^item> \<open>ParameterServices\<close>, \<open>Services_Correct\<close>, \<open>Eventfd\<close>, \<open>ControlPlane\<close>, \<open>Control_Correct\<close>: the services and the threads of the
    control plane.
  \<^item> \<open>SelfTest\<close>, \<open>SelfTest_Correct\<close>; \<open>Dashboard\<close>, \<open>Dashboard_Correct\<close>, \<open>Dashboard_View\<close>; \<open>Handover\<close>: the settings that
    dashboard and QoS service exchange through atomics, access by access.
  \<^item> \<open>App\<close>, \<open>App_Init\<close>, \<open>App_Threads\<close>, \<open>App_Correct\<close> (the class \<^verbatim>\<open>App\<close>): construction, initialisation, start, and the running
    program as one step relation of all its threads.  \<open>Main_Program\<close> (\<^verbatim>\<open>main.cpp\<close>): the set-up as a function (\<open>main_setup\<close>), and
    from the event loop on a step relation (\<open>main_step\<close>) of the main thread, \<^verbatim>\<open>watchdog_notify\<close> and the threads of the application.

  \<^bold>\<open>How the code is rendered.\<close>  A class is a record, an array a function, a frame the list of its bytes, an integer a word of
  its width, a \<^verbatim>\<open>double\<close> a real number.  An operation takes the state and returns the new one; errors are \<open>Inl\<close> or \<open>None\<close>.  A
  thread is a program counter and a step relation; a step is what the code does between two accesses other threads can
  observe, or a whole operation where a mutex or a single owner makes it one.  A loop that may not end is a
  \<open>partial_function\<close>, and that it ends is a theorem.

  \<^bold>\<open>Parameters.\<close>  Code outside the repository is a parameter: \<open>World\<close> (the answers of \<^verbatim>\<open>send\<close>, the clock), \<open>Net\<close> (sockets,
  \<^verbatim>\<open>ioctl\<close>, \<^verbatim>\<open>/proc/net\<close>), \<open>Sys\<close> (files under \<^verbatim>\<open>/proc\<close> and \<^verbatim>\<open>/sys\<close>), \<open>RawSys\<close> (the opening of a packet socket), \<open>Qt\<close>
  (conversions between numbers and text).  The event loop of Qt may return any code, or throw, at any moment the
  main thread is in it (\<open>main_step\<close>); all that is assumed is that it returns once it has been told to quit.  Answers are indexed by the number of the call, so
  nothing is assumed about their agreement.  The hypotheses on them: \<open>sends_return\<close>, a send is not interrupted for ever, and
  \<open>atomic_sends\<close>, a packet socket takes a frame as a whole or not at all.  Each has an instance, \<open>demo_world\<close> and \<open>demo_net\<close>.

  \<^bold>\<open>What is shown.\<close>
  \<^item> Frames: the parser stays inside the frame; every frame is consumed, sent, dropped and counted, or queued, exactly
    once; DHCP from the LAN reaches only the DHCP server; next hops; a flow opened from the LAN gets its answers back
    through both workers; the counters grow by exactly what was routed.
  \<^item> NAT: well-formed tables in every reachable state, delivery of answers, refusal of everything else, valid
    checksums, availability, and two ways in which a live flow is disturbed: its port is handed out again, or an expired slot
    before its own gives it a second session and another port.
  \<^item> Queues and shapers: both rings refine a bounded queue through one locale (\<open>bounded_fifo\<close>), the lock-free one under every
    interleaving; a run of a shaper offers its packets to the kernel in order, loses none on congestion and stays within
    burst plus rate.
  \<^item> DHCP: distinct addresses, one lease per client, the handshake, well-formed replies, protection of running leases.
  \<^item> Threads: both planes follow one stop protocol (locale \<open>stop_protocol\<close>, interpreted for the threads of each).  From any
    moment after a call of \<^verbatim>\<open>stop\<close> the shutdown takes at most 2087 steps of its own or of the threads it joins (2062 for the
    data plane, whose threads may first empty queues of 1023 frames, 16 for the control plane, the rest for \<^verbatim>\<open>stop\<close> itself), is
    never stuck, and ends with every thread joined.  The whole process, from that call or from the return of \<^verbatim>\<open>exec\<close> on, takes
    at most 2094 such steps (the 2087, 2 of \<^verbatim>\<open>watchdog_notify\<close> and 5 of the main thread) and writes the configuration only
    after every thread has ended.  A request for DHCP settings is carried out within four steps of the event thread, and one
    more for each interruption of its \<^verbatim>\<open>poll\<close>.
  \<^item> Settings: what the dashboard asks for is neither lost nor left half applied; what the configuration file holds after
    each way of leaving the program, with DHCP settings written when they are applied, and that the next start reads every
    saved setting back.  The device table shows the neighbour table of the kernel.
  \<^item> Error theorems: packets the shaper holds back stay until another frame arrives; the rates in the header are a fifth
    too small at the period of the timer.

  \<^bold>\<open>Bounds.\<close>  They are the ones of the code: 8191 bytes of configuration, 4095 bytes of the device table of the kernel,
  128 neighbours, 64 devices, 32 probes for a session, 8 attempts to read one, 32 DHCP messages per tick.  No fuel is added.

  \<^bold>\<open>Not modelled.\<close>  The sequence counters of NAT sessions are kept, but translation in one worker is not interleaved
  with translation in the other.  While \<^verbatim>\<open>App::start\<close> runs, the control plane it has started is not interleaved with the
  rest of it.  The creation of a thread succeeds.  Doubles do not round.  Left out because they have no result the program uses: the layout, the painting except for
  the lines of a plot, and the style sheet of the dashboard, console output except for the self-test report, thread
  affinity and priority, signal disposition and environment variables, and the build files.
\<close>

end
